(* ===== verification/KQ_Prelude.thy ===== *)
theory KQ_Prelude
  imports Complex_Main "HOL-Library.Multiset" "HOL-Library.Product_Lexorder"
begin

text \<open>
  What every component of kqos shares: Go's fixed-width integers written out over
  \<^typ>\<open>int\<close>, the clock (\<^verbatim>\<open>time.Time\<close> and \<^verbatim>\<open>time.Duration\<close> in
  nanoseconds), the collections of rules the component proofs use, and the generic facts on
  lists, maps and transition systems.

  A Go value of type \<^verbatim>\<open>int64\<close> (and \<^verbatim>\<open>int\<close>, on the 64-bit platforms kqos is
  built for) is an \<^typ>\<open>int\<close> that every operation brings back into range with
  \<^verbatim>\<open>i64\<close>; \<^verbatim>\<open>int32\<close> and \<^verbatim>\<open>uint64\<close> likewise with \<^verbatim>\<open>i32\<close> and
  \<^verbatim>\<open>u64\<close>. A theorem about numbers that must not wrap says in which range they lie.
\<close>

named_theorems go_arith \<open>reading Go integer operations as mathematics, inside their range\<close>
named_theorems kq_defs \<open>small definitions of the model that proofs unfold freely\<close>

section \<open>Fixed-width integers\<close>

definition i64 :: "int \<Rightarrow> int" where
  "i64 x = (x + 2 ^ 63) mod 2 ^ 64 - 2 ^ 63"

definition i32 :: "int \<Rightarrow> int" where
  "i32 x = (x + 2 ^ 31) mod 2 ^ 32 - 2 ^ 31"

definition u64 :: "int \<Rightarrow> int" where
  "u64 x = x mod 2 ^ 64"

definition max_i64 :: int where
  "max_i64 = 2 ^ 63 - 1"

definition min_i64 :: int where
  "min_i64 = - (2 ^ 63)"

definition in_i64 :: "int \<Rightarrow> bool" where
  "in_i64 x \<longleftrightarrow> min_i64 \<le> x \<and> x \<le> max_i64"

definition in_i32 :: "int \<Rightarrow> bool" where
  "in_i32 x \<longleftrightarrow> - (2 ^ 31) \<le> x \<and> x < 2 ^ 31"

lemma i64_id [go_arith]: "in_i64 x \<Longrightarrow> i64 x = x"
  by (simp add: in_i64_def i64_def max_i64_def min_i64_def)

lemma i64_small [go_arith]: "- (2 ^ 63) \<le> x \<Longrightarrow> x < 2 ^ 63 \<Longrightarrow> i64 x = x"
  by (simp add: i64_def)

lemma in_i64_i64 [simp, intro]: "in_i64 (i64 x)"
  by (simp add: in_i64_def i64_def max_i64_def min_i64_def)

lemma in_i64I: "- 9223372036854775808 \<le> x \<Longrightarrow> x \<le> 9223372036854775807 \<Longrightarrow> in_i64 x"
  by (simp add: in_i64_def max_i64_def min_i64_def)

lemma i64_idem [simp]: "i64 (i64 x) = i64 x"
  by (rule i64_id) simp

lemma i64_range: "- (2 ^ 63) \<le> i64 x \<and> i64 x < 2 ^ 63"
  by (simp add: i64_def)

lemma i32_small [go_arith]: "- (2 ^ 31) \<le> x \<Longrightarrow> x < 2 ^ 31 \<Longrightarrow> i32 x = x"
  by (simp add: i32_def)

lemma i32_range: "- (2 ^ 31) \<le> i32 x \<and> i32 x < 2 ^ 31"
  by (simp add: i32_def)

lemma u64_small [go_arith]: "0 \<le> x \<Longrightarrow> x < 2 ^ 64 \<Longrightarrow> u64 x = x"
  by (simp add: u64_def)

lemma u64_range [simp]: "0 \<le> u64 x" "u64 x < 2 ^ 64"
  by (simp_all add: u64_def)

text \<open>
  Go's \<^verbatim>\<open>/\<close> truncates towards zero. Every division of the program has a divisor its
  guards make non-zero.
\<close>

definition go_div :: "int \<Rightarrow> int \<Rightarrow> int" where
  "go_div a b = sgn a * sgn b * (\<bar>a\<bar> div \<bar>b\<bar>)"

definition go_mod :: "int \<Rightarrow> int \<Rightarrow> int" where
  "go_mod a b = a - b * go_div a b"

lemma go_div_nonneg [go_arith]: "0 \<le> a \<Longrightarrow> 0 < b \<Longrightarrow> go_div a b = a div b"
  by (cases "a = 0") (auto simp: go_div_def sgn_if)

lemma go_mod_nonneg [go_arith]: "0 \<le> a \<Longrightarrow> 0 < b \<Longrightarrow> go_mod a b = a mod b"
  by (simp add: go_mod_def go_div_nonneg minus_mult_div_eq_mod)

lemma go_div_nonneg_iff: "0 < b \<Longrightarrow> 0 \<le> a \<Longrightarrow> 0 \<le> go_div a b"
  by (simp add: go_div_nonneg pos_imp_zdiv_nonneg_iff)

lemma go_div_nonpos: "0 < b \<Longrightarrow> a \<le> 0 \<Longrightarrow> go_div a b \<le> 0"
  by (auto simp: go_div_def sgn_if pos_imp_zdiv_nonneg_iff)

lemma go_div_abs_le: "\<bar>go_div a b\<bar> \<le> \<bar>a\<bar>"
proof -
  have "\<bar>a\<bar> div \<bar>b\<bar> \<le> \<bar>a\<bar>"
    by (cases "b = 0") (auto intro: zdiv_mono2 [of "\<bar>a\<bar>" 1 "\<bar>b\<bar>", simplified])
  moreover have "0 \<le> \<bar>a\<bar> div \<bar>b\<bar>" by (cases "b = 0") (auto simp: pos_imp_zdiv_nonneg_iff)
  ultimately show ?thesis
    by (auto simp: go_div_def abs_mult sgn_if)
qed

lemma go_div_mono:
  assumes "a \<le> b" and "0 < c"
  shows "go_div a c \<le> go_div b c"
proof (cases "0 \<le> a")
  case True
  with assms show ?thesis by (simp add: go_div_nonneg zdiv_mono1)
next
  case False
  show ?thesis
  proof (cases "0 \<le> b")
    case True
    with False assms(2) have "go_div a c \<le> 0" "0 \<le> go_div b c"
      by (simp_all add: go_div_nonpos go_div_nonneg_iff)
    then show ?thesis by simp
  next
    case b: False
    with False assms have "(- b) div c \<le> (- a) div c" by (simp add: zdiv_mono1)
    with False b assms(2) show ?thesis by (simp add: go_div_def sgn_if)
  qed
qed

section \<open>Time\<close>

text \<open>
  \<^verbatim>\<open>time.Time\<close> is the number of nanoseconds since Go's zero time, so that
  \<^verbatim>\<open>IsZero\<close> is equality with 0; monotonic clock readings and locations are not
  modelled. \<^verbatim>\<open>time.Duration\<close> is an \<^verbatim>\<open>int64\<close> of nanoseconds, and
  \<^verbatim>\<open>t.Sub(u)\<close> saturates at its bounds, as the library documents.
\<close>

type_synonym gtime = int
type_synonym duration = int

definition time_is_zero :: "gtime \<Rightarrow> bool" where
  [kq_defs]: "time_is_zero t \<longleftrightarrow> t = 0"

definition time_sub :: "gtime \<Rightarrow> gtime \<Rightarrow> duration" where
  "time_sub t u = max min_i64 (min max_i64 (t - u))"

definition nanosecond :: duration where [kq_defs]: "nanosecond = 1"
definition microsecond :: duration where [kq_defs]: "microsecond = 1000"
definition second :: duration where [kq_defs]: "second = 1000000000"
definition minute :: duration where [kq_defs]: "minute = 60000000000"

lemma time_sub_in_range [go_arith]: "in_i64 (t - u) \<Longrightarrow> time_sub t u = t - u"
  by (simp add: time_sub_def in_i64_def)

lemma time_sub_pos_iff: "0 < time_sub t u \<longleftrightarrow> u < t"
  by (auto simp: time_sub_def max_i64_def min_i64_def)

lemma time_sub_less_iff: "min_i64 < d \<Longrightarrow> d \<le> max_i64 \<Longrightarrow> time_sub t u < d \<longleftrightarrow> t - u < d"
  by (auto simp: time_sub_def)

lemma time_sub_greater_iff: "min_i64 \<le> d \<Longrightarrow> d < max_i64 \<Longrightarrow> d < time_sub t u \<longleftrightarrow> d < t - u"
  by (auto simp: time_sub_def)

lemma time_sub_mono: "t \<le> t' \<Longrightarrow> time_sub t u \<le> time_sub t' u"
  by (auto simp: time_sub_def)

section \<open>Lists\<close>

definition take_last :: "nat \<Rightarrow> 'a list \<Rightarrow> 'a list" where
  "take_last n xs = drop (length xs - n) xs"

lemma length_take_last [simp]: "length (take_last n xs) = min n (length xs)"
  by (auto simp: take_last_def)

lemma take_last_all: "length xs \<le> n \<Longrightarrow> take_last n xs = xs"
  by (simp add: take_last_def)

lemma set_take_last: "set (take_last n xs) \<subseteq> set xs"
  by (simp add: take_last_def set_drop_subset)

lemma take_last_take_last_snoc:
  "take_last n (take_last n xs @ [x]) = take_last n (xs @ [x])"
proof (cases "length xs \<le> n")
  case True
  then show ?thesis by (simp add: take_last_all)
next
  case False
  then have len: "length (take_last n xs) = n" by simp
  show ?thesis
  proof (cases n)
    case 0
    then show ?thesis by (simp add: take_last_def)
  next
    case (Suc m)
    have "take_last n (take_last n xs @ [x]) = drop 1 (take_last n xs) @ [x]"
      unfolding take_last_def [of n "take_last n xs @ [x]"] using len Suc by simp
    also have "\<dots> = drop (length xs + 1 - n) xs @ [x]"
      using False Suc by (simp add: take_last_def Suc_diff_Suc)
    also have "\<dots> = take_last n (xs @ [x])"
      using False Suc by (simp add: take_last_def)
    finally show ?thesis .
  qed
qed

lemma sum_list_map_mono:
  fixes f g :: "'a \<Rightarrow> int"
  shows "(\<And>x. x \<in> set xs \<Longrightarrow> f x \<le> g x) \<Longrightarrow> (\<Sum>x\<leftarrow>xs. f x) \<le> (\<Sum>x\<leftarrow>xs. g x)"
  by (induction xs) (auto intro: add_mono)

text \<open>
  Elements of a sorted list at a position: at least that many are not larger.
\<close>

lemma sorted_nth_count_le:
  fixes xs :: "'a::linorder list"
  assumes "sorted xs" and "k < length xs"
  shows "Suc k \<le> length (filter (\<lambda>x. x \<le> xs ! k) xs)"
proof -
  have "\<forall>x \<in> set (take (Suc k) xs). x \<le> xs ! k"
    using assms by (auto simp: in_set_conv_nth sorted_nth_mono)
  then have "filter (\<lambda>x. x \<le> xs ! k) (take (Suc k) xs) = take (Suc k) xs"
    by (simp add: filter_id_conv)
  moreover have "length (filter (\<lambda>x. x \<le> xs ! k) xs)
      = length (filter (\<lambda>x. x \<le> xs ! k) (take (Suc k) xs))
      + length (filter (\<lambda>x. x \<le> xs ! k) (drop (Suc k) xs))"
    by (metis append_take_drop_id filter_append length_append)
  ultimately show ?thesis using assms(2) by simp
qed

lemma sorted_nth_count_less:
  fixes xs :: "'a::linorder list"
  assumes "sorted xs" and "k < length xs"
  shows "length (filter (\<lambda>x. x < xs ! k) xs) \<le> k"
proof -
  have "\<forall>x \<in> set (drop k xs). xs ! k \<le> x"
    using assms by (auto simp: in_set_conv_nth sorted_nth_mono)
  then have "filter (\<lambda>x. x < xs ! k) (drop k xs) = []"
    by (auto simp: filter_empty_conv)
  moreover have "length (filter (\<lambda>x. x < xs ! k) xs)
      = length (filter (\<lambda>x. x < xs ! k) (take k xs))
      + length (filter (\<lambda>x. x < xs ! k) (drop k xs))"
    by (metis append_take_drop_id filter_append length_append)
  ultimately show ?thesis
    using length_filter_le [of "\<lambda>x. x < xs ! k" "take k xs"] by simp
qed

section \<open>Transition systems\<close>

text \<open>
  The contract of every stateful part of kqos that is driven by a sequence of events: the
  step keeps an invariant at every event that is \<open>ok\<close>. A run is the fold of the step over
  the events.
\<close>

locale transition_system =
  fixes step :: "'e \<Rightarrow> 's \<Rightarrow> 's"
    and inv :: "'s \<Rightarrow> bool"
    and ok :: "'e \<Rightarrow> bool"
  assumes step_inv: "inv s \<Longrightarrow> ok e \<Longrightarrow> inv (step e s)"
begin

lemma run_inv: "inv s \<Longrightarrow> \<forall>e \<in> set es. ok e \<Longrightarrow> inv (fold step es s)"
  by (induction es arbitrary: s) (simp_all add: step_inv)

end

text \<open>
  A refinement: an abstraction of the state follows an abstract step.
\<close>

locale refined_system = transition_system step inv ok
  for step :: "'e \<Rightarrow> 's \<Rightarrow> 's" and inv :: "'s \<Rightarrow> bool" and ok :: "'e \<Rightarrow> bool" +
  fixes abst :: "'s \<Rightarrow> 'a"
    and astep :: "'e \<Rightarrow> 'a \<Rightarrow> 'a"
  assumes step_refines: "inv s \<Longrightarrow> ok e \<Longrightarrow> abst (step e s) = astep e (abst s)"
begin

lemma run_refines: "inv s \<Longrightarrow> \<forall>e \<in> set es. ok e \<Longrightarrow> abst (fold step es s) = fold astep es (abst s)"
  by (induction es arbitrary: s) (simp_all add: step_inv step_refines)

end

end
