(* ===== verification/Go_Float.thy ===== *)
theory Go_Float
  imports KQ_Prelude "HOL-Library.Log_Nat"
begin

text \<open>
  Go's \<^verbatim>\<open>float64\<close>. A finite float is the rational number it denotes, and every
  arithmetic operation returns the exact result rounded by \<open>fl\<close>: to 53 significant
  bits, to nearest, ties to even, as IEEE 754 double precision does. The exponent is not
  bounded, so overflow to infinity and subnormal numbers are not modelled, and neither are
  NaN and the sign of zero; no quantity kqos computes comes near those. Comparisons are
  exact, and conversions to integers truncate (\<open>f_to_i64\<close>).

  The lemmas give what proofs about the program need: rounding is monotone, idempotent,
  leaves integers up to 2 ^ 53 alone, and has a relative error of at most 2 ^ -53.
\<close>

type_synonym f64 = rat

section \<open>The binary exponent of a positive rational\<close>

definition ilog2 :: "rat \<Rightarrow> int" where
  "ilog2 a = (let (p, q) = quotient_of a; k = bitlen p - bitlen q
     in if a < 2 powi k then k - 1 else k)"

lemma bitlen_powi_bounds:
  assumes "0 < p"
  shows "2 powi (bitlen p - 1) \<le> (of_int p :: rat)" and "(of_int p :: rat) < 2 powi (bitlen p)"
proof -
  from assms have b: "1 \<le> bitlen p"
    by (metis bitlen_eq_zero_iff bitlen_nonneg int_one_le_iff_zero_less le_less not_le)
  from bitlen_bounds [OF assms] have "2 ^ nat (bitlen p - 1) \<le> p" and "p < 2 ^ nat (bitlen p)"
    by simp_all
  then have "(of_int (2 ^ nat (bitlen p - 1)) :: rat) \<le> of_int p"
    and "(of_int p :: rat) < of_int (2 ^ nat (bitlen p))"
    by (simp_all only: of_int_le_iff of_int_less_iff)
  with b show "2 powi (bitlen p - 1) \<le> (of_int p :: rat)" and "(of_int p :: rat) < 2 powi (bitlen p)"
    by (simp_all add: power_int_def)
qed

lemma ilog2_bounds:
  assumes "0 < a"
  shows "2 powi ilog2 a \<le> a" and "a < 2 powi (ilog2 a + 1)"
proof -
  obtain p q where pq: "quotient_of a = (p, q)" by (cases "quotient_of a")
  then have q: "0 < q" and a: "a = of_int p / of_int q"
    using quotient_of_denom_pos quotient_of_div by blast+
  with assms have p: "0 < p" by (simp add: zero_less_divide_iff)
  let ?k = "bitlen p - bitlen q"
  note P = bitlen_powi_bounds [OF p] and Q = bitlen_powi_bounds [OF q]
  have qpos: "0 < (of_int q :: rat)" using q by simp
  have up: "a < 2 powi (?k + 1)"
  proof -
    have "(of_int p :: rat) < 2 powi (?k + 1) * 2 powi (bitlen q - 1)"
      using P(2) by (simp flip: power_int_add)
    also have "\<dots> \<le> 2 powi (?k + 1) * of_int q"
      using Q(1) by (intro mult_left_mono) simp_all
    finally show ?thesis using qpos by (simp add: a pos_divide_less_eq)
  qed
  have low: "2 powi (?k - 1) \<le> a"
  proof -
    have "(2 powi (?k - 1)) * (of_int q :: rat) \<le> 2 powi (?k - 1) * 2 powi (bitlen q)"
      using Q(2) by (intro mult_left_mono) simp_all
    also have "\<dots> = 2 powi (bitlen p - 1)" by (simp flip: power_int_add)
    also have "\<dots> \<le> of_int p" by (rule P(1))
    finally show ?thesis using qpos by (simp add: a pos_le_divide_eq)
  qed
  show "2 powi ilog2 a \<le> a" and "a < 2 powi (ilog2 a + 1)"
    using up low by (auto simp: ilog2_def pq Let_def)
qed

lemma powi_less_imp: "(2::rat) powi m < 2 powi n \<Longrightarrow> m < n"
  using power_int_increasing [of n m "2::rat"] by (force simp: not_less)

lemma powi_shift: "(2::rat) powi (k + int n) = 2 ^ n * 2 powi k"
  by (simp add: power_int_add mult.commute)

lemma ilog2_unique:
  assumes "2 powi k \<le> a" and "a < 2 powi (k + 1)"
  shows "ilog2 a = k"
proof -
  have a: "0 < a" using assms(1) by (rule less_le_trans [rotated]) simp
  note b = ilog2_bounds [OF a]
  have "(2::rat) powi k < 2 powi (ilog2 a + 1)" using assms(1) b(2) by (rule le_less_trans)
  then have "k \<le> ilog2 a" using powi_less_imp by fastforce
  moreover have "(2::rat) powi ilog2 a < 2 powi (k + 1)" using b(1) assms(2) by (rule le_less_trans)
  then have "ilog2 a \<le> k" using powi_less_imp by fastforce
  ultimately show ?thesis by simp
qed

lemma ilog2_mono:
  assumes "0 < a" and "a \<le> b"
  shows "ilog2 a \<le> ilog2 b"
proof -
  have "(2::rat) powi ilog2 a < 2 powi (ilog2 b + 1)"
    using ilog2_bounds(1) [OF assms(1)] assms ilog2_bounds(2) [of b] by linarith
  then show ?thesis using powi_less_imp by fastforce
qed

section \<open>Rounding to an integer, ties to even\<close>

definition rhe :: "rat \<Rightarrow> int" where
  "rhe x = (let n = \<lfloor>x\<rfloor>; d = x - of_int n
     in if d < 1 / 2 then n else if 1 / 2 < d then n + 1 else if even n then n else n + 1)"

lemma rhe_of_int [simp]: "rhe (of_int n) = n"
  by (simp add: rhe_def)

lemma rhe_floor_cases: "rhe x = \<lfloor>x\<rfloor> \<or> rhe x = \<lfloor>x\<rfloor> + 1"
  by (auto simp: rhe_def Let_def)

lemma rhe_err: "\<bar>of_int (rhe x) - x\<bar> \<le> 1 / 2"
proof -
  define f :: rat where "f = of_int \<lfloor>x\<rfloor>"
  have "f \<le> x" "x < f + 1" unfolding f_def by linarith+
  then show ?thesis by (auto simp: rhe_def Let_def abs_if simp flip: f_def)
qed

lemma rhe_mono:
  assumes "x \<le> y"
  shows "rhe x \<le> rhe y"
proof -
  have f: "\<lfloor>x\<rfloor> \<le> \<lfloor>y\<rfloor>" using assms by (rule floor_mono)
  show ?thesis
  proof (cases "\<lfloor>x\<rfloor> = \<lfloor>y\<rfloor>")
    case True
    with assms show ?thesis by (auto simp: rhe_def Let_def)
  next
    case False
    with f have "\<lfloor>x\<rfloor> + 1 \<le> \<lfloor>y\<rfloor>" by simp
    then show ?thesis using rhe_floor_cases [of x] rhe_floor_cases [of y] by linarith
  qed
qed

lemma rhe_le_of_int: "x \<le> of_int n \<Longrightarrow> rhe x \<le> n"
  using rhe_mono [of x "of_int n"] by simp

lemma rhe_ge_of_int: "of_int n \<le> x \<Longrightarrow> n \<le> rhe x"
  using rhe_mono [of "of_int n" x] by simp

section \<open>Rounding to 53 bits\<close>

definition ulp_exp :: "rat \<Rightarrow> int" where
  "ulp_exp a = ilog2 a - 52"

definition fl_pos :: "rat \<Rightarrow> rat" where
  "fl_pos a = of_int (rhe (a / 2 powi ulp_exp a)) * 2 powi ulp_exp a"

definition fl :: "rat \<Rightarrow> rat" where
  "fl x = (if x = 0 then 0 else if 0 < x then fl_pos x else - fl_pos (- x))"

definition is_f64 :: "rat \<Rightarrow> bool" where
  "is_f64 x \<longleftrightarrow> fl x = x"

lemma fl_0 [simp]: "fl 0 = 0"
  by (simp add: fl_def)

lemma fl_minus [simp]: "fl (- x) = - fl x"
  by (auto simp: fl_def)

lemma ulp_exp_powi:
  "(2::rat) powi ilog2 a = 2 ^ 52 * 2 powi ulp_exp a"
  "(2::rat) powi (ilog2 a + 1) = 2 ^ 53 * 2 powi ulp_exp a"
  using powi_shift [of "ulp_exp a" 52] powi_shift [of "ulp_exp a" 53] by (simp_all add: ulp_exp_def add.commute)

lemma scaled_bounds:
  assumes "0 < a"
  shows "2 ^ 52 \<le> a / 2 powi ulp_exp a" and "a / 2 powi ulp_exp a < 2 ^ 53"
proof -
  note ulp_exp_powi [of a]
  then show "2 ^ 52 \<le> a / 2 powi ulp_exp a" and "a / 2 powi ulp_exp a < 2 ^ 53"
    using ilog2_bounds [OF assms] by (simp_all add: pos_le_divide_eq pos_divide_less_eq)
qed

lemma fl_pos_range:
  assumes "0 < a"
  shows "2 powi ilog2 a \<le> fl_pos a" and "fl_pos a \<le> 2 powi (ilog2 a + 1)"
proof -
  have e1: "(2::rat) powi ilog2 a = of_int (2 ^ 52) * 2 powi ulp_exp a"
    by (simp add: ulp_exp_powi)
  have e2: "(2::rat) powi (ilog2 a + 1) = of_int (2 ^ 53) * 2 powi ulp_exp a"
    by (simp add: ulp_exp_powi)
  have "2 ^ 52 \<le> rhe (a / 2 powi ulp_exp a)"
    by (rule rhe_ge_of_int) (use scaled_bounds(1) [OF assms] in simp)
  then show "2 powi ilog2 a \<le> fl_pos a"
    unfolding fl_pos_def e1 by (intro mult_right_mono) (simp_all only: of_int_le_iff, simp)
  have "rhe (a / 2 powi ulp_exp a) \<le> 2 ^ 53"
    by (rule rhe_le_of_int) (use scaled_bounds(2) [OF assms] in simp)
  then show "fl_pos a \<le> 2 powi (ilog2 a + 1)"
    unfolding fl_pos_def e2 by (intro mult_right_mono) (simp_all only: of_int_le_iff, simp)
qed

lemma fl_pos_pos: "0 < a \<Longrightarrow> 0 < fl_pos a"
  using fl_pos_range(1) [of a] zero_less_power_int [of "2::rat" "ilog2 a"] by linarith

lemma fl_pos_mono:
  assumes "0 < a" and "a \<le> b"
  shows "fl_pos a \<le> fl_pos b"
proof (cases "ilog2 a = ilog2 b")
  case True
  then have u: "ulp_exp a = ulp_exp b" by (simp add: ulp_exp_def)
  have "rhe (a / 2 powi ulp_exp b) \<le> rhe (b / 2 powi ulp_exp b)"
    using assms by (intro rhe_mono divide_right_mono) simp_all
  then show ?thesis by (simp add: fl_pos_def u mult_right_mono)
next
  case False
  with ilog2_mono [OF assms] have "ilog2 a + 1 \<le> ilog2 b" by simp
  then have "(2::rat) powi (ilog2 a + 1) \<le> 2 powi ilog2 b" by (intro power_int_increasing) simp_all
  then show ?thesis using fl_pos_range(2) [of a] fl_pos_range(1) [of b] assms by linarith
qed

lemma fl_mono: "x \<le> y \<Longrightarrow> fl x \<le> fl y"
  using fl_pos_mono [of x y] fl_pos_mono [of "- y" "- x"] fl_pos_pos [of y] fl_pos_pos [of "- x"]
  by (auto simp: fl_def)

lemma fl_pos_dyadic:
  assumes "0 < m" and "m \<le> 2 ^ 53"
  shows "fl_pos (of_int m * 2 powi k) = of_int m * 2 powi k"
proof (cases "m = 2 ^ 53")
  case True
  have e: "of_int m * 2 powi k = (2::rat) powi (k + 53)"
    by (simp add: True power_int_add mult.commute)
  have l: "ilog2 ((2::rat) powi (k + 53)) = k + 53"
    by (rule ilog2_unique) (simp_all add: power_int_strict_increasing)
  have u: "ulp_exp ((2::rat) powi (k + 53)) = k + 1" by (simp add: ulp_exp_def l)
  have p: "(2::rat) powi (k + 53) = of_int (2 ^ 52) * 2 powi (k + 1)"
    using powi_shift [of "k + 1" 52] by (simp add: add.commute)
  then have "(2::rat) powi (k + 53) / 2 powi (k + 1) = of_int (2 ^ 52)" by simp
  then have "rhe ((2::rat) powi (k + 53) / 2 powi (k + 1)) = 2 ^ 52" by (simp only: rhe_of_int)
  then show ?thesis unfolding e fl_pos_def u by (simp only: p)
next
  case False
  let ?a = "of_int m * 2 powi k :: rat"
  have a: "0 < ?a" using assms by simp
  have "?a < 2 powi (k + 53)"
  proof -
    have "(of_int m :: rat) < of_int (2 ^ 53)" using False assms by (simp only: of_int_less_iff)
    then have "?a < 2 ^ 53 * 2 powi k" by (intro mult_strict_right_mono) simp_all
    then show ?thesis by (simp add: power_int_add mult.commute)
  qed
  with ilog2_bounds(1) [OF a] have "(2::rat) powi ilog2 ?a < 2 powi (k + 53)" by linarith
  then have "ulp_exp ?a \<le> k" using powi_less_imp unfolding ulp_exp_def by fastforce
  then obtain j where j: "k = ulp_exp ?a + int j" using zle_iff_zadd by blast
  have "?a / 2 powi ulp_exp ?a = of_int m * (2 powi k / 2 powi ulp_exp ?a)" by simp
  also have "\<dots> = of_int m * 2 powi (k - ulp_exp ?a)" by (simp add: power_int_diff)
  also have "\<dots> = of_int (m * 2 ^ j)"
    using j by (metis add_diff_cancel_left' of_int_mult of_int_numeral of_int_power power_int_of_nat)
  finally have d: "?a / 2 powi ulp_exp ?a = of_int (m * 2 ^ j)" .
  then have "rhe (?a / 2 powi ulp_exp ?a) = m * 2 ^ j" by (simp only: rhe_of_int)
  then have "fl_pos ?a = (?a / 2 powi ulp_exp ?a) * 2 powi ulp_exp ?a" by (simp only: fl_pos_def d)
  then show ?thesis by simp
qed

lemma fl_dyadic:
  assumes "\<bar>m\<bar> \<le> 2 ^ 53"
  shows "fl (of_int m * 2 powi k) = of_int m * 2 powi k"
proof (cases "m = 0")
  case False
  show ?thesis
  proof (cases "0 < m")
    case True
    with assms show ?thesis using fl_pos_dyadic [of m k] by (simp add: fl_def)
  next
    case neg: False
    with False have "m < 0" by simp
    then have "of_int m * 2 powi k < (0::rat)" by (simp add: mult_less_0_iff)
    with neg False assms show ?thesis using fl_pos_dyadic [of "- m" k] by (simp add: fl_def)
  qed
qed simp

lemma fl_of_int [simp]: "\<bar>n\<bar> \<le> 2 ^ 53 \<Longrightarrow> fl (of_int n) = of_int n"
  using fl_dyadic [of n 0] by simp

lemma fl_pos_as_dyadic: "0 < a \<Longrightarrow> \<exists>m k. 0 < m \<and> m \<le> 2 ^ 53 \<and> fl_pos a = of_int m * 2 powi k"
proof -
  assume a: "0 < a"
  have "rhe (a / 2 powi ulp_exp a) \<le> 2 ^ 53"
    by (rule rhe_le_of_int) (use scaled_bounds(2) [OF a] in simp)
  moreover have "2 ^ 52 \<le> rhe (a / 2 powi ulp_exp a)"
    by (rule rhe_ge_of_int) (use scaled_bounds(1) [OF a] in simp)
  ultimately show ?thesis unfolding fl_pos_def by (intro exI conjI [OF _ conjI]) auto
qed

lemma fl_idem [simp]: "fl (fl x) = fl x"
proof -
  have pos: "fl (fl_pos a) = fl_pos a" if a: "0 < a" for a
  proof -
    from fl_pos_as_dyadic [OF a] obtain m k where "0 < m" "m \<le> 2 ^ 53"
      and e: "fl_pos a = of_int m * 2 powi k" by blast
    then show ?thesis unfolding e by (intro fl_dyadic) simp
  qed
  show ?thesis using pos [of x] pos [of "- x"] by (cases x "0::rat" rule: linorder_cases) (simp_all add: fl_def [of x])
qed

lemma is_f64_fl [simp]: "is_f64 (fl x)"
  by (simp add: is_f64_def)

lemma is_f64_of_int [simp]: "\<bar>n\<bar> \<le> 2 ^ 53 \<Longrightarrow> is_f64 (of_int n)"
  by (simp add: is_f64_def)

lemma is_f64_0 [simp]: "is_f64 0"
  by (simp add: is_f64_def)

lemma fl_numeral [simp]: "(numeral n :: int) \<le> 2 ^ 53 \<Longrightarrow> fl (numeral n) = numeral n"
  using fl_of_int [of "numeral n"] by simp

lemma fl_1 [simp]: "fl 1 = 1"
  using fl_of_int [of 1] by simp

lemma fl_le_f64: "x \<le> y \<Longrightarrow> is_f64 y \<Longrightarrow> fl x \<le> y"
  using fl_mono [of x y] by (simp add: is_f64_def)

lemma fl_ge_f64: "y \<le> x \<Longrightarrow> is_f64 y \<Longrightarrow> y \<le> fl x"
  using fl_mono [of y x] by (simp add: is_f64_def)

lemma fl_le_int: "x \<le> of_int n \<Longrightarrow> \<bar>n\<bar> \<le> 2 ^ 53 \<Longrightarrow> fl x \<le> of_int n"
  by (rule fl_le_f64) simp_all

lemma fl_ge_int: "of_int n \<le> x \<Longrightarrow> \<bar>n\<bar> \<le> 2 ^ 53 \<Longrightarrow> of_int n \<le> fl x"
  by (rule fl_ge_f64) simp_all

lemma fl_nonneg [simp]: "0 \<le> x \<Longrightarrow> 0 \<le> fl x"
  using fl_mono [of 0 x] by simp

lemma fl_nonpos: "x \<le> 0 \<Longrightarrow> fl x \<le> 0"
  using fl_mono [of x 0] by simp

lemma fl_pos_err:
  assumes "0 < a"
  shows "\<bar>fl_pos a - a\<bar> \<le> a / 2 ^ 53"
proof -
  let ?u = "2 powi ulp_exp a :: rat"
  have "fl_pos a - a = (of_int (rhe (a / ?u)) - a / ?u) * ?u"
    by (simp add: fl_pos_def left_diff_distrib)
  then have "\<bar>fl_pos a - a\<bar> = \<bar>of_int (rhe (a / ?u)) - a / ?u\<bar> * ?u"
    by (simp add: abs_mult)
  also have "\<dots> \<le> 1 / 2 * ?u" by (intro mult_right_mono rhe_err) simp
  also have "\<dots> \<le> a / 2 ^ 53"
    using scaled_bounds(1) [OF assms] by (simp add: pos_le_divide_eq field_simps)
  finally show ?thesis .
qed

lemma fl_err: "\<bar>fl x - x\<bar> \<le> \<bar>x\<bar> / 2 ^ 53"
  using fl_pos_err [of x] fl_pos_err [of "- x"]
  by (cases x "0::rat" rule: linorder_cases) (auto simp: fl_def abs_if split: if_splits)

section \<open>Operations\<close>

definition f_of_int :: "int \<Rightarrow> f64" where "f_of_int n = fl (of_int n)"
definition f_add :: "f64 \<Rightarrow> f64 \<Rightarrow> f64" where "f_add x y = fl (x + y)"
definition f_sub :: "f64 \<Rightarrow> f64 \<Rightarrow> f64" where "f_sub x y = fl (x - y)"
definition f_mul :: "f64 \<Rightarrow> f64 \<Rightarrow> f64" where "f_mul x y = fl (x * y)"
definition f_div :: "f64 \<Rightarrow> f64 \<Rightarrow> f64" where "f_div x y = fl (x / y)"

text \<open>
  A decimal literal of the source is the float nearest to it. \<^verbatim>\<open>int64(x)\<close> drops the
  fraction; for a value outside the range the language leaves the result to the
  implementation, and the model takes amd64's, the least \<^verbatim>\<open>int64\<close>.
\<close>

definition trunc_rat :: "rat \<Rightarrow> int" where
  "trunc_rat x = (if 0 \<le> x then \<lfloor>x\<rfloor> else - \<lfloor>- x\<rfloor>)"

definition f_to_i64 :: "f64 \<Rightarrow> int" where
  "f_to_i64 x = (let n = trunc_rat x in if in_i64 n then n else min_i64)"

definition math_ceil :: "f64 \<Rightarrow> f64" where "math_ceil x = of_int \<lceil>x\<rceil>"

text \<open>\<^verbatim>\<open>math.Round\<close>: to the nearest integer, halves away from zero.\<close>

definition math_round :: "f64 \<Rightarrow> f64" where
  "math_round x = (if 0 \<le> x then of_int \<lfloor>x + 1 / 2\<rfloor> else - of_int \<lfloor>- x + 1 / 2\<rfloor>)"

lemmas f_ops = f_of_int_def f_add_def f_sub_def f_mul_def f_div_def

lemma trunc_rat_of_int [simp]: "trunc_rat (of_int n) = n"
  by (simp add: trunc_rat_def flip: of_int_minus)

lemma trunc_rat_nonneg: "0 \<le> x \<Longrightarrow> 0 \<le> trunc_rat x"
  by (simp add: trunc_rat_def)

lemma trunc_rat_le: "0 \<le> x \<Longrightarrow> of_int (trunc_rat x) \<le> x"
  by (simp add: trunc_rat_def)

lemma trunc_rat_mono:
  assumes "x \<le> y"
  shows "trunc_rat x \<le> trunc_rat y"
proof -
  have m: "\<lfloor>- y\<rfloor> \<le> \<lfloor>- x\<rfloor>" "\<lfloor>x\<rfloor> \<le> \<lfloor>y\<rfloor>" using assms by (simp_all add: floor_mono)
  have "- \<lfloor>- x\<rfloor> \<le> \<lfloor>y\<rfloor>" if "x < 0" "0 \<le> y"
  proof -
    have "0 \<le> \<lfloor>- x\<rfloor>" "0 \<le> \<lfloor>y\<rfloor>" using that by simp_all
    then show ?thesis by linarith
  qed
  with m assms show ?thesis by (auto simp: trunc_rat_def not_le)
qed

lemma trunc_rat_le_int: "x \<le> of_int n \<Longrightarrow> trunc_rat x \<le> n"
  using trunc_rat_mono [of x "of_int n"] by simp

lemma trunc_rat_ge_int: "of_int n \<le> x \<Longrightarrow> n \<le> trunc_rat x"
  using trunc_rat_mono [of "of_int n" x] by simp

lemma f_to_i64_of_int: "in_i64 n \<Longrightarrow> f_to_i64 (of_int n) = n"
  by (simp add: f_to_i64_def)

lemma f_to_i64_nonneg: "0 \<le> x \<Longrightarrow> x < 2 ^ 63 \<Longrightarrow> 0 \<le> f_to_i64 x \<and> of_int (f_to_i64 x) \<le> x"
  by (auto simp: f_to_i64_def Let_def in_i64_def min_i64_def max_i64_def trunc_rat_def floor_less_iff
      not_le less_floor_iff)

end
