(* ===== verification/V1alpha1.thy ===== *)
theory V1alpha1
  imports Go_Float
begin

text \<open>
  The API types kqos shares between its binaries (\<^verbatim>\<open>pkg/apis/kqos/v1alpha1\<close>): service
  levels and their eviction order, the pressure classification, the sections of the
  \<^verbatim>\<open>QoSPolicy\<close>, and Kubernetes resource lists.

  \<^verbatim>\<open>resource.Quantity\<close> is a type of the Kubernetes libraries. It is a type parameter
  \<open>'q\<close> here, and the operations kqos calls on it are a record \<open>'q quantity_ops\<close> every
  definition that needs them takes as its first argument. What the library documents of them
  is the predicate \<open>quantity_laws\<close>; \<open>rat_quantity\<close>, exact rationals, is the instance that
  the witnesses use.
\<close>

section \<open>Service levels\<close>

text \<open>A level is a Go string; only four of its values are valid.\<close>

type_synonym QoSLevel = string

definition QoSDedicatedCores :: QoSLevel where "QoSDedicatedCores = ''dedicated_cores''"
definition QoSSharedCores :: QoSLevel where "QoSSharedCores = ''shared_cores''"
definition QoSReclaimedCores :: QoSLevel where "QoSReclaimedCores = ''reclaimed_cores''"
definition QoSSystemCores :: QoSLevel where "QoSSystemCores = ''system_cores''"

lemmas level_defs = QoSDedicatedCores_def QoSSharedCores_def QoSReclaimedCores_def QoSSystemCores_def

lemma levels_distinct [simp]:
  "QoSDedicatedCores \<noteq> QoSSharedCores" "QoSDedicatedCores \<noteq> QoSReclaimedCores"
  "QoSDedicatedCores \<noteq> QoSSystemCores" "QoSSharedCores \<noteq> QoSDedicatedCores"
  "QoSSharedCores \<noteq> QoSReclaimedCores" "QoSSharedCores \<noteq> QoSSystemCores"
  "QoSReclaimedCores \<noteq> QoSDedicatedCores" "QoSReclaimedCores \<noteq> QoSSharedCores"
  "QoSReclaimedCores \<noteq> QoSSystemCores" "QoSSystemCores \<noteq> QoSDedicatedCores"
  "QoSSystemCores \<noteq> QoSSharedCores" "QoSSystemCores \<noteq> QoSReclaimedCores"
  by (simp_all add: level_defs)

definition KnownQoSLevels :: "QoSLevel list" where
  "KnownQoSLevels = [QoSSystemCores, QoSDedicatedCores, QoSSharedCores, QoSReclaimedCores]"

definition IsValid :: "QoSLevel \<Rightarrow> bool" where
  "IsValid q \<longleftrightarrow> list_ex (\<lambda>k. k = q) KnownQoSLevels"

definition EvictionRank :: "QoSLevel \<Rightarrow> int" where
  "EvictionRank q =
     (if q = QoSReclaimedCores then 3
      else if q = QoSSharedCores then 2
      else if q = QoSDedicatedCores then 1
      else if q = QoSSystemCores then 0
      else 2)"

definition Evictable :: "QoSLevel \<Rightarrow> bool" where
  "Evictable q \<longleftrightarrow> q \<noteq> QoSSystemCores"

lemma IsValid_iff:
  "IsValid q \<longleftrightarrow> q = QoSSystemCores \<or> q = QoSDedicatedCores \<or> q = QoSSharedCores \<or> q = QoSReclaimedCores"
  by (auto simp: IsValid_def KnownQoSLevels_def)

lemma IsValid_levels [simp]:
  "IsValid QoSSystemCores" "IsValid QoSDedicatedCores" "IsValid QoSSharedCores" "IsValid QoSReclaimedCores"
  by (simp_all add: IsValid_iff)

text \<open>
  Eviction walks the known levels in reverse: their ranks are exactly their distance
  from the most privileged one, and no level, valid or not, outranks the reclaimed tier.
\<close>

theorem EvictionRank_order:
  "map EvictionRank KnownQoSLevels = [0, 1, 2, 3] \<and> EvictionRank q \<le> EvictionRank QoSReclaimedCores \<and>
   (EvictionRank q = 3 \<longleftrightarrow> q = QoSReclaimedCores) \<and> (EvictionRank q = 0 \<longleftrightarrow> \<not> Evictable q)"
  by (simp add: KnownQoSLevels_def EvictionRank_def Evictable_def)

section \<open>Annotations and resource names\<close>

definition AnnotationQoSLevel :: string where "AnnotationQoSLevel = ''kqos.io/qos-level''"
definition AnnotationNUMABinding :: string where "AnnotationNUMABinding = ''kqos.io/numa-binding''"
definition AnnotationCPUSetPool :: string where "AnnotationCPUSetPool = ''kqos.io/cpuset-pool''"
definition AnnotationOriginalResources :: string where
  "AnnotationOriginalResources = ''kqos.io/original-resources''"
definition MirrorPodAnnotationKey :: string where
  "MirrorPodAnnotationKey = ''kubernetes.io/config.mirror''"

definition ResourceCPU :: string where "ResourceCPU = ''cpu''"
definition ResourceMemory :: string where "ResourceMemory = ''memory''"
definition ResourceReclaimedCPU :: string where "ResourceReclaimedCPU = ''kqos.io/reclaimed-cpu''"
definition ResourceReclaimedMemory :: string where
  "ResourceReclaimedMemory = ''kqos.io/reclaimed-memory''"

lemma resources_distinct [simp]:
  "ResourceCPU \<noteq> ResourceMemory" "ResourceCPU \<noteq> ResourceReclaimedCPU"
  "ResourceCPU \<noteq> ResourceReclaimedMemory" "ResourceMemory \<noteq> ResourceCPU"
  "ResourceMemory \<noteq> ResourceReclaimedCPU" "ResourceMemory \<noteq> ResourceReclaimedMemory"
  "ResourceReclaimedCPU \<noteq> ResourceCPU" "ResourceReclaimedCPU \<noteq> ResourceMemory"
  "ResourceReclaimedCPU \<noteq> ResourceReclaimedMemory" "ResourceReclaimedMemory \<noteq> ResourceCPU"
  "ResourceReclaimedMemory \<noteq> ResourceMemory" "ResourceReclaimedMemory \<noteq> ResourceReclaimedCPU"
  by (simp_all add: ResourceCPU_def ResourceMemory_def ResourceReclaimedCPU_def ResourceReclaimedMemory_def)

lemma annotations_distinct [simp]:
  "AnnotationQoSLevel \<noteq> AnnotationNUMABinding" "AnnotationNUMABinding \<noteq> AnnotationQoSLevel"
  "AnnotationQoSLevel \<noteq> AnnotationOriginalResources" "AnnotationOriginalResources \<noteq> AnnotationQoSLevel"
  "AnnotationNUMABinding \<noteq> AnnotationOriginalResources" "AnnotationOriginalResources \<noteq> AnnotationNUMABinding"
  "AnnotationQoSLevel \<noteq> MirrorPodAnnotationKey" "MirrorPodAnnotationKey \<noteq> AnnotationQoSLevel"
  "AnnotationOriginalResources \<noteq> MirrorPodAnnotationKey" "MirrorPodAnnotationKey \<noteq> AnnotationOriginalResources"
  by (simp_all add: AnnotationQoSLevel_def AnnotationNUMABinding_def AnnotationOriginalResources_def
      MirrorPodAnnotationKey_def)

section \<open>Quantities\<close>

record 'q quantity_ops =
  q_milli :: "'q \<Rightarrow> int"
  q_value :: "'q \<Rightarrow> int"
  q_is_zero :: "'q \<Rightarrow> bool"
  q_cmp :: "'q \<Rightarrow> 'q \<Rightarrow> int"
  q_add :: "'q \<Rightarrow> 'q \<Rightarrow> 'q"
  q_new_milli :: "int \<Rightarrow> 'q"
  q_new :: "int \<Rightarrow> 'q"

text \<open>
  The documented behaviour, over the amount a quantity denotes: \<^verbatim>\<open>MilliValue\<close> and
  \<^verbatim>\<open>Value\<close> round up and are exact inside the range of \<^verbatim>\<open>int64\<close>, \<^verbatim>\<open>Cmp\<close>
  compares, \<^verbatim>\<open>Add\<close> adds, and the two constructors denote thousandths and units.
\<close>

definition quantity_laws :: "'q quantity_ops \<Rightarrow> ('q \<Rightarrow> rat) \<Rightarrow> bool" where
  "quantity_laws Q amount \<longleftrightarrow>
     (\<forall>q. 0 \<le> amount q \<and> in_i64 \<lceil>1000 * amount q\<rceil> \<longrightarrow> q_milli Q q = \<lceil>1000 * amount q\<rceil>) \<and>
     (\<forall>q. 0 \<le> amount q \<and> in_i64 \<lceil>amount q\<rceil> \<longrightarrow> q_value Q q = \<lceil>amount q\<rceil>) \<and>
     (\<forall>q. q_is_zero Q q \<longleftrightarrow> amount q = 0) \<and>
     (\<forall>a b. q_cmp Q a b = (if amount a < amount b then -1 else if amount a > amount b then 1 else 0)) \<and>
     (\<forall>a b. amount (q_add Q a b) = amount a + amount b) \<and>
     (\<forall>n. amount (q_new_milli Q n) = of_int n / 1000) \<and>
     (\<forall>n. amount (q_new Q n) = of_int n)"

definition rat_quantity :: "rat quantity_ops" where
  "rat_quantity =
     \<lparr>q_milli = (\<lambda>q. \<lceil>1000 * q\<rceil>), q_value = (\<lambda>q. \<lceil>q\<rceil>), q_is_zero = (\<lambda>q. q = 0),
      q_cmp = (\<lambda>a b. if a < b then -1 else if a > b then 1 else 0), q_add = (+),
      q_new_milli = (\<lambda>n. of_int n / 1000), q_new = of_int\<rparr>"

lemma quantity_laws_rat: "quantity_laws rat_quantity (\<lambda>q. q)"
  by (simp add: quantity_laws_def rat_quantity_def)

lemma quantity_lawsD:
  assumes "quantity_laws Q amount"
  shows "q_is_zero Q q \<longleftrightarrow> amount q = 0"
    and "q_cmp Q a b = (if amount a < amount b then -1 else if amount a > amount b then 1 else 0)"
    and "amount (q_add Q a b) = amount a + amount b"
    and "amount (q_new_milli Q n) = of_int n / 1000"
    and "amount (q_new Q n) = of_int n"
    and "0 \<le> amount q \<Longrightarrow> in_i64 \<lceil>1000 * amount q\<rceil> \<Longrightarrow> q_milli Q q = \<lceil>1000 * amount q\<rceil>"
    and "0 \<le> amount q \<Longrightarrow> in_i64 \<lceil>amount q\<rceil> \<Longrightarrow> q_value Q q = \<lceil>amount q\<rceil>"
  using assms by (auto simp: quantity_laws_def)

lemma q_milli_new_milli:
  "quantity_laws Q amount \<Longrightarrow> 0 \<le> n \<Longrightarrow> in_i64 n \<Longrightarrow> q_milli Q (q_new_milli Q n) = n"
  by (simp add: quantity_lawsD)

lemma q_value_new: "quantity_laws Q amount \<Longrightarrow> 0 \<le> n \<Longrightarrow> in_i64 n \<Longrightarrow> q_value Q (q_new Q n) = n"
  by (simp add: quantity_lawsD)

type_synonym 'q resource_list = "string \<Rightarrow> 'q option"

text \<open>
  \<^verbatim>\<open>milliOf\<close> and \<^verbatim>\<open>bytesOf\<close> of the advisor and \<^verbatim>\<open>quantityBytes\<close> of the eviction
  plugins: an absent resource counts as 0.
\<close>

definition milliOf :: "'q quantity_ops \<Rightarrow> 'q resource_list \<Rightarrow> string \<Rightarrow> int" where
  "milliOf Q rl name = (case rl name of Some q \<Rightarrow> q_milli Q q | None \<Rightarrow> 0)"

definition bytesOf :: "'q quantity_ops \<Rightarrow> 'q resource_list \<Rightarrow> string \<Rightarrow> int" where
  "bytesOf Q rl name = (case rl name of Some q \<Rightarrow> q_value Q q | None \<Rightarrow> 0)"

section \<open>Pressure\<close>

text \<open>
  \<^verbatim>\<open>PressureLevel\<close> is a Go string whose zero value is the empty string; the levels the
  program writes are the other three. They are ordered by severity.
\<close>

datatype pressure_level = PressureUnset | PressureNone | PressureModerate | PressureCritical

fun pressure_rank :: "pressure_level \<Rightarrow> nat" where
  "pressure_rank PressureUnset = 0"
| "pressure_rank PressureNone = 1"
| "pressure_rank PressureModerate = 2"
| "pressure_rank PressureCritical = 3"

lemma pressure_rank_inject: "pressure_rank a = pressure_rank b \<longleftrightarrow> a = b"
  by (cases a; cases b) simp_all

instantiation pressure_level :: linorder
begin

definition less_eq_pressure_level :: "pressure_level \<Rightarrow> pressure_level \<Rightarrow> bool" where
  "a \<le> b \<longleftrightarrow> pressure_rank a \<le> pressure_rank b"

definition less_pressure_level :: "pressure_level \<Rightarrow> pressure_level \<Rightarrow> bool" where
  "a < b \<longleftrightarrow> pressure_rank a < pressure_rank b"

instance
  by standard (auto simp: less_eq_pressure_level_def less_pressure_level_def pressure_rank_inject)

end

record node_pressure =
  np_level :: pressure_level
  np_cpu_util :: int
  np_mem_util :: int
  np_cpu_some_stalled :: int
  np_mem_full_stalled :: int

definition no_pressure :: node_pressure where
  "no_pressure = \<lparr>np_level = PressureUnset, np_cpu_util = 0, np_mem_util = 0,
     np_cpu_some_stalled = 0, np_mem_full_stalled = 0\<rparr>"

section \<open>The policy\<close>

record 'q overcommit_config =
  oc_cpu_target :: int
  oc_mem_target :: int
  oc_headroom :: int
  oc_max_reclaim :: int
  oc_min_reclaim_cpu :: "'q option"
  oc_min_reclaim_mem :: "'q option"

record advisor_config =
  ac_window_seconds :: int
  ac_interval_seconds :: int
  ac_algorithm :: string
  ac_ewma_alpha :: string

record eviction_config =
  ec_enabled :: bool
  ec_dry_run :: bool
  ec_mem_threshold :: int
  ec_cpu_threshold :: int
  ec_cpu_stall_threshold :: int
  ec_max_per_minute :: int
  ec_grace_seconds :: int
  ec_stabilisation :: int
  ec_disabled :: "string list"

record cpuset_config =
  cc_enabled :: bool
  cc_reserved :: string
  cc_shared_min :: int
  cc_reclaimed_min :: int

record webhook_config =
  wc_default_level :: QoSLevel
  wc_rewrite :: bool
  wc_exempt :: "string list"

record 'q qos_policy_spec =
  ps_overcommit :: "'q overcommit_config"
  ps_advisor :: advisor_config
  ps_eviction :: eviction_config
  ps_cpuset :: cpuset_config
  ps_webhook :: webhook_config

end
