(* ===== verification/QoS.thy ===== *)
theory QoS
  imports V1alpha1
begin

text \<open>
  Reading a pod's classification and footprint (\<^verbatim>\<open>pkg/qos/qos.go\<close>), over the part of a
  Kubernetes pod that kqos reads. A Go map that is nil and one that is empty read the same;
  both are the empty map here.
\<close>

section \<open>Pods\<close>

record 'q container =
  c_name :: string
  c_requests :: "'q resource_list"
  c_limits :: "'q resource_list"

record 'q pod =
  p_uid :: string
  p_namespace :: string
  p_name :: string
  p_annotations :: "string \<Rightarrow> string option"
  p_priority_class :: string
  p_priority :: "int option"
  p_qos_class :: string
  p_phase :: string
  p_deletion :: "gtime option"
  p_controller :: "(string \<times> string) option"
  p_init_containers :: "'q container list"
  p_containers :: "'q container list"

definition PodQOSGuaranteed :: string where "PodQOSGuaranteed = ''Guaranteed''"
definition PodQOSBurstable :: string where "PodQOSBurstable = ''Burstable''"
definition PodQOSBestEffort :: string where "PodQOSBestEffort = ''BestEffort''"

lemma qos_classes_distinct [simp]:
  "PodQOSGuaranteed \<noteq> PodQOSBurstable" "PodQOSBurstable \<noteq> PodQOSGuaranteed"
  "PodQOSGuaranteed \<noteq> PodQOSBestEffort" "PodQOSBestEffort \<noteq> PodQOSGuaranteed"
  "PodQOSBestEffort \<noteq> PodQOSBurstable" "PodQOSBurstable \<noteq> PodQOSBestEffort"
  by (simp_all add: PodQOSGuaranteed_def PodQOSBurstable_def PodQOSBestEffort_def)

section \<open>The native QoS class\<close>

text \<open>
  The loop's state: \<^verbatim>\<open>isGuaranteed\<close>, \<^verbatim>\<open>anyRequest\<close>, and whether the accumulated
  \<^verbatim>\<open>limits\<close> list has an entry; the accumulated amounts are never read.
\<close>

type_synonym native_acc = "bool \<times> bool \<times> bool"

definition native_step :: "'q quantity_ops \<Rightarrow> 'q container \<Rightarrow> string \<Rightarrow> native_acc \<Rightarrow> native_acc" where
  "native_step Q c name acc =
     (case acc of (isGuaranteed, anyRequest, anyLimit) \<Rightarrow>
       let req = c_requests c name; lim = c_limits c name;
           hasReq = (req \<noteq> None); hasLim = (lim \<noteq> None);
           anyRequest' = (if hasReq \<and> \<not> q_is_zero Q (the req) then True else anyRequest);
           anyLimit' = (if hasLim \<and> \<not> q_is_zero Q (the lim) then True else anyLimit);
           isGuaranteed' =
             (if \<not> hasLim \<or> q_is_zero Q (the lim) then False
              else if hasReq \<and> q_cmp Q (the req) (the lim) \<noteq> 0 then False
              else isGuaranteed)
       in (isGuaranteed', anyRequest', anyLimit'))"

definition native_container :: "'q quantity_ops \<Rightarrow> 'q container \<Rightarrow> native_acc \<Rightarrow> native_acc" where
  "native_container Q c acc = native_step Q c ResourceMemory (native_step Q c ResourceCPU acc)"

definition nativeQoS :: "'q quantity_ops \<Rightarrow> 'q pod \<Rightarrow> string" where
  "nativeQoS Q pod =
     (if p_qos_class pod \<noteq> [] then p_qos_class pod
      else case fold (native_container Q) (p_init_containers pod @ p_containers pod) (True, False, False) of
        (isGuaranteed, anyRequest, anyLimit) \<Rightarrow>
          if \<not> anyRequest \<and> \<not> anyLimit then PodQOSBestEffort
          else if isGuaranteed then PodQOSGuaranteed
          else PodQOSBurstable)"

section \<open>The kqos level\<close>

fun LevelOf :: "'q quantity_ops \<Rightarrow> 'q pod option \<Rightarrow> QoSLevel" where
  "LevelOf Q None = QoSSharedCores"
| "LevelOf Q (Some pod) =
     (let inferred =
        (if p_priority_class pod = ''system-node-critical''
            \<or> p_priority_class pod = ''system-cluster-critical'' then QoSSystemCores
         else let cls = nativeQoS Q pod
           in if cls = PodQOSGuaranteed then QoSDedicatedCores
              else if cls = PodQOSBestEffort then QoSReclaimedCores
              else QoSSharedCores)
      in case p_annotations pod AnnotationQoSLevel of
           Some v \<Rightarrow> if IsValid v then v else inferred
         | None \<Rightarrow> inferred)"

abbreviation level_of :: "'q quantity_ops \<Rightarrow> 'q pod \<Rightarrow> QoSLevel" where
  "level_of Q pod \<equiv> LevelOf Q (Some pod)"

definition IsReclaimed :: "'q quantity_ops \<Rightarrow> 'q pod \<Rightarrow> bool" where
  "IsReclaimed Q pod \<longleftrightarrow> level_of Q pod = QoSReclaimedCores"

definition WantsNUMABinding :: "'q quantity_ops \<Rightarrow> 'q pod \<Rightarrow> bool" where
  "WantsNUMABinding Q pod \<longleftrightarrow>
     p_annotations pod AnnotationNUMABinding = Some ''true'' \<and> level_of Q pod = QoSDedicatedCores"

definition CPUSetPoolOf :: "'q pod \<Rightarrow> string" where
  "CPUSetPoolOf pod =
     (case p_annotations pod AnnotationCPUSetPool of
        Some v \<Rightarrow> if v \<noteq> [] then v else ''shared''
      | None \<Rightarrow> ''shared'')"

definition IsTerminal :: "'q pod \<Rightarrow> bool" where
  "IsTerminal pod \<longleftrightarrow> p_phase pod = ''Succeeded'' \<or> p_phase pod = ''Failed''"

definition IsMirrorPod :: "'q pod \<Rightarrow> bool" where
  "IsMirrorPod pod \<longleftrightarrow> p_annotations pod MirrorPodAnnotationKey \<noteq> None"

section \<open>Footprints\<close>

text \<open>
  \<^verbatim>\<open>add\<close>, and the loops that range over a container's list. Go visits the keys in no
  particular order; each key is visited once and touches only its own entry, so the loop is
  the pointwise update.
\<close>

definition rl_add :: "'q quantity_ops \<Rightarrow> 'q resource_list \<Rightarrow> string \<Rightarrow> 'q \<Rightarrow> 'q resource_list" where
  "rl_add Q lst name q =
     (case lst name of Some cur \<Rightarrow> lst(name \<mapsto> q_add Q cur q) | None \<Rightarrow> lst(name \<mapsto> q))"

definition add_all :: "'q quantity_ops \<Rightarrow> 'q resource_list \<Rightarrow> 'q resource_list \<Rightarrow> 'q resource_list" where
  "add_all Q rl out = (\<lambda>name. case rl name of None \<Rightarrow> out name | Some q \<Rightarrow> rl_add Q out name q name)"

definition max_all :: "'q quantity_ops \<Rightarrow> 'q resource_list \<Rightarrow> 'q resource_list \<Rightarrow> 'q resource_list" where
  "max_all Q rl out =
     (\<lambda>name. case rl name of None \<Rightarrow> out name
       | Some q \<Rightarrow> (case out name of
            None \<Rightarrow> Some q
          | Some cur \<Rightarrow> if q_cmp Q q cur > 0 then Some q else Some cur))"

definition sumPod :: "'q quantity_ops \<Rightarrow> 'q pod \<Rightarrow> ('q container \<Rightarrow> 'q resource_list) \<Rightarrow> 'q resource_list" where
  "sumPod Q pod pick =
     fold (\<lambda>c. max_all Q (pick c)) (p_init_containers pod)
       (fold (\<lambda>c. add_all Q (pick c)) (p_containers pod) Map.empty)"

definition PodRequests :: "'q quantity_ops \<Rightarrow> 'q pod \<Rightarrow> 'q resource_list" where
  "PodRequests Q pod = sumPod Q pod c_requests"

definition PodLimits :: "'q quantity_ops \<Rightarrow> 'q pod \<Rightarrow> 'q resource_list" where
  "PodLimits Q pod = sumPod Q pod c_limits"

definition extendedTotal :: "'q quantity_ops \<Rightarrow> 'q pod \<Rightarrow> string \<Rightarrow> int" where
  "extendedTotal Q pod name =
     fold (\<lambda>c total. case c_requests c name of Some q \<Rightarrow> i64 (total + q_value Q q) | None \<Rightarrow> total)
       (p_containers pod) 0"

definition EffectiveRequests :: "'q quantity_ops \<Rightarrow> 'q pod \<Rightarrow> 'q resource_list" where
  "EffectiveRequests Q pod =
     (let out = PodRequests Q pod;
          out1 = (if out ResourceCPU = None then
                    (let milli = extendedTotal Q pod ResourceReclaimedCPU
                     in if milli > 0 then out(ResourceCPU \<mapsto> q_new_milli Q milli) else out)
                  else out)
      in if out1 ResourceMemory = None then
           (let mib = extendedTotal Q pod ResourceReclaimedMemory
            in if mib > 0 then out1(ResourceMemory \<mapsto> q_new Q (i64 (mib * 1024 * 1024))) else out1)
         else out1)"

section \<open>Classification lemmas\<close>

lemma LevelOf_valid [simp]: "IsValid (LevelOf Q p)"
  by (cases p) (auto simp: Let_def split: option.splits)

lemma LevelOf_annotated:
  "p_annotations pod AnnotationQoSLevel = Some v \<Longrightarrow> IsValid v \<Longrightarrow> level_of Q pod = v"
  by simp

text \<open>
  Every pod, annotated or not, with or without valid values, is put in exactly one of
  the four tiers, and an explicit valid annotation decides which one.
\<close>

theorem LevelOf_total:
  "level_of Q pod \<in> set KnownQoSLevels \<and>
   (\<forall>v. p_annotations pod AnnotationQoSLevel = Some v \<and> IsValid v \<longrightarrow> level_of Q pod = v)"
  using LevelOf_valid [of Q "Some pod"] LevelOf_annotated [of pod _ Q]
  unfolding IsValid_iff KnownQoSLevels_def by auto

text \<open>Concrete pods, for the witnesses of this and the other theories.\<close>

definition example_container :: "rat container" where
  "example_container = \<lparr>c_name = ''main'',
     c_requests = [ResourceCPU \<mapsto> 3 / 2, ResourceMemory \<mapsto> 268435456],
     c_limits = [ResourceMemory \<mapsto> 536870912]\<rparr>"

definition example_pod :: "rat pod" where
  "example_pod = \<lparr>p_uid = ''u-1'', p_namespace = ''demo'', p_name = ''batch'',
     p_annotations = [AnnotationQoSLevel \<mapsto> QoSReclaimedCores], p_priority_class = [],
     p_priority = None, p_qos_class = [], p_phase = ''Running'', p_deletion = None,
     p_controller = None, p_init_containers = [], p_containers = [example_container]\<rparr>"

lemmas example_defs = example_container_def example_pod_def

theorem LevelOf_total_witness:
  "level_of rat_quantity example_pod = QoSReclaimedCores \<and> level_of rat_quantity example_pod \<in> set KnownQoSLevels"
  using LevelOf_total [of rat_quantity example_pod] by (simp add: example_pod_def)

text \<open>
  The pods the node cannot live without are inferred to be system pods, which nothing may
  evict; but a valid annotation is looked at first and overrides the priority class.
\<close>

lemma LevelOf_critical:
  "p_annotations pod AnnotationQoSLevel = None \<Longrightarrow>
   p_priority_class pod = ''system-node-critical'' \<or> p_priority_class pod = ''system-cluster-critical'' \<Longrightarrow>
     level_of Q pod = QoSSystemCores"
  by simp

theorem LevelOf_annotation_beats_priority_class:
  "Evictable (level_of rat_quantity (example_pod\<lparr>p_priority_class := ''system-node-critical''\<rparr>))"
  by (simp add: example_pod_def Evictable_def)

section \<open>The native class, characterised\<close>

definition nonzero :: "'q quantity_ops \<Rightarrow> 'q option \<Rightarrow> bool" where
  "nonzero Q m \<longleftrightarrow> (case m of None \<Rightarrow> False | Some q \<Rightarrow> \<not> q_is_zero Q q)"

definition pinned :: "'q quantity_ops \<Rightarrow> 'q option \<Rightarrow> 'q option \<Rightarrow> bool" where
  "pinned Q req limit \<longleftrightarrow> nonzero Q limit \<and> (req = None \<or> q_cmp Q (the req) (the limit) = 0)"

definition cpu_mem :: "string list" where
  "cpu_mem = [ResourceCPU, ResourceMemory]"

lemma native_step_eq:
  "native_step Q c n (g, r, l) =
     (g \<and> pinned Q (c_requests c n) (c_limits c n), r \<or> nonzero Q (c_requests c n), l \<or> nonzero Q (c_limits c n))"
  by (auto simp: native_step_def Let_def pinned_def nonzero_def split: option.splits)

lemma native_fold:
  "fold (native_container Q) cs (g, r, l) =
     (g \<and> (\<forall>c \<in> set cs. \<forall>n \<in> set cpu_mem. pinned Q (c_requests c n) (c_limits c n)),
      r \<or> (\<exists>c \<in> set cs. \<exists>n \<in> set cpu_mem. nonzero Q (c_requests c n)),
      l \<or> (\<exists>c \<in> set cs. \<exists>n \<in> set cpu_mem. nonzero Q (c_limits c n)))"
  by (induction cs arbitrary: g r l) (auto simp: native_container_def native_step_eq cpu_mem_def)

text \<open>
  For a pod the API server has not classified yet, the recomputed class is the one
  Kubernetes defines: BestEffort where no container requests or limits cpu or memory,
  Guaranteed where every container limits both and requests no other amount, Burstable
  otherwise. A status that is set wins.
\<close>

theorem nativeQoS_correct:
  "nativeQoS Q pod =
     (let cs = p_init_containers pod @ p_containers pod;
          best_effort = (\<forall>c \<in> set cs. \<forall>n \<in> {ResourceCPU, ResourceMemory}.
                           \<not> nonzero Q (c_requests c n) \<and> \<not> nonzero Q (c_limits c n));
          guaranteed = (\<forall>c \<in> set cs. \<forall>n \<in> {ResourceCPU, ResourceMemory}.
                           pinned Q (c_requests c n) (c_limits c n))
      in if p_qos_class pod \<noteq> [] then p_qos_class pod
         else if best_effort then PodQOSBestEffort
         else if guaranteed then PodQOSGuaranteed
         else PodQOSBurstable)"
  unfolding nativeQoS_def native_fold Let_def cpu_mem_def by auto

theorem nativeQoS_correct_witness:
  "nativeQoS rat_quantity example_pod = PodQOSBurstable"
  unfolding nativeQoS_correct
  by (simp add: Let_def example_defs nonzero_def pinned_def rat_quantity_def)

section \<open>Footprints, characterised\<close>

definition picked :: "('q container \<Rightarrow> 'q resource_list) \<Rightarrow> string \<Rightarrow> 'q container list \<Rightarrow> 'q list" where
  "picked pick n cs = List.map_filter (\<lambda>c. pick c n) cs"

lemma picked_simps [simp]:
  "picked pick n [] = []"
  "picked pick n (c # cs) = (case pick c n of None \<Rightarrow> picked pick n cs | Some q \<Rightarrow> q # picked pick n cs)"
  by (simp_all add: picked_def List.map_filter_def split: option.splits)

definition footprint :: "rat list \<Rightarrow> rat list \<Rightarrow> rat option" where
  "footprint apps inits =
     (if apps = [] \<and> inits = [] then None
      else Some (if apps = [] then foldr max (tl inits) (hd inits)
                 else foldr max inits (sum_list apps)))"

lemma fold_max_foldr: "fold max xs (a::rat) = foldr max xs a"
  by (subst foldr_fold) (auto simp: fun_eq_iff max.left_commute)

lemma add_all_amount:
  assumes "quantity_laws Q amount"
  shows "map_option amount (fold (\<lambda>c. add_all Q (pick c)) cs out n) =
    (case out n of
       None \<Rightarrow> if picked pick n cs = [] then None else Some (sum_list (map amount (picked pick n cs)))
     | Some q \<Rightarrow> Some (amount q + sum_list (map amount (picked pick n cs))))"
  using assms
proof (induction cs arbitrary: out)
  case (Cons c cs)
  show ?case
    using Cons.IH [OF Cons.prems, of "add_all Q (pick c) out"]
    by (auto simp: add_all_def rl_add_def quantity_lawsD(3) [OF Cons.prems] split: option.splits)
qed (simp split: option.splits)

lemma max_all_amount_step:
  assumes "quantity_laws Q amount"
  shows "map_option amount (max_all Q rl out n) =
    (case rl n of None \<Rightarrow> map_option amount (out n)
     | Some q \<Rightarrow> (case out n of None \<Rightarrow> Some (amount q) | Some cur \<Rightarrow> Some (max (amount q) (amount cur))))"
  by (auto simp: max_all_def quantity_lawsD(2) [OF assms] max_def split: option.splits)

lemma max_all_amount:
  assumes "quantity_laws Q amount"
  shows "map_option amount (fold (\<lambda>c. max_all Q (pick c)) cs out n) =
    (case out n of
       None \<Rightarrow> (case map amount (picked pick n cs) of [] \<Rightarrow> None | a # as \<Rightarrow> Some (fold max as a))
     | Some q \<Rightarrow> Some (fold max (map amount (picked pick n cs)) (amount q)))"
  using assms
proof (induction cs arbitrary: out)
  case (Cons c cs)
  show ?case
    using Cons.IH [OF Cons.prems, of "max_all Q (pick c) out"]
      max_all_amount_step [OF Cons.prems, of "pick c" out n]
    by (auto split: option.splits)
qed (simp split: option.splits)

text \<open>
  The footprint of a pod is what the scheduler reserves for it: in each resource, the
  larger of the largest init container request and the sum of the application containers'
  requests, and nothing where no container mentions the resource. The order in which Go
  ranges over a container's requests does not matter.
\<close>

theorem PodRequests_footprint:
  assumes "quantity_laws Q amount"
  shows "map_option amount (PodRequests Q pod n) =
    footprint (map amount (picked c_requests n (p_containers pod)))
              (map amount (picked c_requests n (p_init_containers pod)))"
proof -
  let ?apps = "picked c_requests n (p_containers pod)"
  let ?mid = "fold (\<lambda>c. add_all Q (c_requests c)) (p_containers pod) Map.empty"
  have mid: "map_option amount (?mid n) = (if ?apps = [] then None else Some (sum_list (map amount ?apps)))"
    using add_all_amount [OF assms, of c_requests "p_containers pod" Map.empty n] by simp
  show ?thesis
    unfolding PodRequests_def sumPod_def max_all_amount [OF assms]
    using mid by (auto simp: footprint_def fold_max_foldr split: option.splits list.splits if_splits)
qed

theorem PodRequests_footprint_witness:
  "quantity_laws rat_quantity (\<lambda>q. q) \<and>
   PodRequests rat_quantity (example_pod\<lparr>p_init_containers := [example_container\<lparr>c_requests := [ResourceCPU \<mapsto> 2]\<rparr>]\<rparr>)
     ResourceCPU = Some 2"
  using PodRequests_footprint [OF quantity_laws_rat,
      of "example_pod\<lparr>p_init_containers := [example_container\<lparr>c_requests := [ResourceCPU \<mapsto> 2]\<rparr>]\<rparr>" ResourceCPU]
    quantity_laws_rat
  by (simp add: example_defs footprint_def option.map_ident)

declare LevelOf.simps(2) [simp del]

end
