(* ===== verification/Go_Strings.thy ===== *)
theory Go_Strings
  imports KQ_Prelude
begin

text \<open>
  The parts of Go's \<^verbatim>\<open>strings\<close> and \<^verbatim>\<open>strconv\<close> that kqos uses, on byte strings:
  \<^verbatim>\<open>TrimSpace\<close>, \<^verbatim>\<open>Split\<close> at a one-byte separator, \<^verbatim>\<open>Cut\<close>, \<^verbatim>\<open>Fields\<close>,
  \<^verbatim>\<open>Contains\<close>, \<^verbatim>\<open>ReplaceAll\<close> of one byte, \<^verbatim>\<open>Atoi\<close>, \<^verbatim>\<open>ParseUint\<close> and decimal
  formatting. White space is ASCII white space: the Unicode spaces of more than one byte,
  which \<^verbatim>\<open>TrimSpace\<close> also removes, do not occur in the kernel's files.
\<close>

section \<open>strings\<close>

definition is_space :: "char \<Rightarrow> bool" where
  "is_space c \<longleftrightarrow> of_char c \<in> {9, 10, 11, 12, 13, 32 :: nat}"

definition trim_left :: "string \<Rightarrow> string" where
  "trim_left = dropWhile is_space"

definition trim_space :: "string \<Rightarrow> string" where
  "trim_space s = rev (trim_left (rev (trim_left s)))"

fun split_on :: "char \<Rightarrow> string \<Rightarrow> string list" where
  "split_on c [] = [[]]"
| "split_on c (x # xs) =
     (if x = c then [] # split_on c xs
      else case split_on c xs of [] \<Rightarrow> [[x]] | w # ws \<Rightarrow> (x # w) # ws)"

fun join_on :: "char \<Rightarrow> string list \<Rightarrow> string" where
  "join_on c [] = []"
| "join_on c [w] = w"
| "join_on c (w # ws) = w @ c # join_on c ws"

text \<open>\<^verbatim>\<open>strings.Cut(s, sep)\<close>: the text before and after the first separator.\<close>

fun cut :: "char \<Rightarrow> string \<Rightarrow> string \<times> string \<times> bool" where
  "cut c [] = ([], [], False)"
| "cut c (x # xs) =
     (if x = c then ([], xs, True) else case cut c xs of (b, a, f) \<Rightarrow> (x # b, a, f))"

definition fields :: "string \<Rightarrow> string list" where
  "fields s = filter (\<lambda>w. w \<noteq> []) (split_on CHR '' '' (map (\<lambda>c. if is_space c then CHR '' '' else c) s))"

fun is_prefix :: "string \<Rightarrow> string \<Rightarrow> bool" where
  "is_prefix [] ys = True"
| "is_prefix (x # xs) [] = False"
| "is_prefix (x # xs) (y # ys) = (x = y \<and> is_prefix xs ys)"

fun str_contains :: "string \<Rightarrow> string \<Rightarrow> bool" where
  "str_contains [] n = (n = [])"
| "str_contains (x # xs) n = (is_prefix n (x # xs) \<or> str_contains xs n)"

definition replace_all :: "char \<Rightarrow> char \<Rightarrow> string \<Rightarrow> string" where
  "replace_all a b s = map (\<lambda>c. if c = a then b else c) s"

lemma split_on_nonempty [simp]: "split_on c s \<noteq> []"
  by (induction s) (auto split: list.splits)

lemma split_on_no_sep: "c \<notin> set s \<Longrightarrow> split_on c s = [s]"
  by (induction s) auto

lemma split_on_append_sep: "c \<notin> set w \<Longrightarrow> split_on c (w @ c # s) = w # split_on c s"
  by (induction w) auto

lemma split_on_join:
  "ws \<noteq> [] \<Longrightarrow> (\<forall>w \<in> set ws. c \<notin> set w) \<Longrightarrow> split_on c (join_on c ws) = ws"
  by (induction c ws rule: join_on.induct) (auto simp: split_on_no_sep split_on_append_sep)

lemma cut_no_sep: "c \<notin> set s \<Longrightarrow> cut c s = (s, [], False)"
  by (induction s) auto

lemma cut_append_sep: "c \<notin> set w \<Longrightarrow> cut c (w @ c # s) = (w, s, True)"
  by (induction w) auto

lemma trim_left_id: "s = [] \<or> \<not> is_space (hd s) \<Longrightarrow> trim_left s = s"
  by (cases s) (auto simp: trim_left_def)

lemma trim_space_id:
  assumes "s = [] \<or> (\<not> is_space (hd s) \<and> \<not> is_space (last s))"
  shows "trim_space s = s"
  using assms by (auto simp: trim_space_def trim_left_id hd_rev)

lemma trim_space_no_space: "(\<forall>c \<in> set s. \<not> is_space c) \<Longrightarrow> trim_space s = s"
  by (cases "s = []") (auto intro!: trim_space_id)

lemma trim_space_pad:
  assumes "\<forall>c \<in> set l. is_space c" and "\<forall>c \<in> set r. is_space c"
  shows "trim_space (l @ s @ r) = trim_space s"
proof (cases "\<forall>c \<in> set s. is_space c")
  case True
  with assms have "trim_left (l @ s @ r) = []" "trim_left s = []"
    by (auto simp: trim_left_def)
  then show ?thesis by (simp add: trim_space_def)
next
  case False
  then obtain c where "c \<in> set s" "\<not> is_space c" by blast
  then have "trim_left (l @ s @ r) = trim_left s @ r"
    using assms(1) by (simp add: trim_left_def dropWhile_append1 dropWhile_append2)
  moreover have "trim_left (rev r @ t) = trim_left t" for t
    unfolding trim_left_def by (rule dropWhile_append2) (use assms(2) in simp)
  ultimately show ?thesis by (simp add: trim_space_def)
qed

lemma trim_space_idem: "trim_space (trim_space s) = trim_space s"
proof -
  have hd: "trim_left t = [] \<or> \<not> is_space (hd (trim_left t))" for t
    unfolding trim_left_def using hd_dropWhile [of is_space t] by blast
  let ?t = "trim_left (rev (trim_left s))"
  show ?thesis
  proof (cases "?t = []")
    case True
    then have ts: "trim_space s = []" unfolding trim_space_def by (simp only: rev.simps)
    show ?thesis unfolding ts by (simp add: trim_space_def trim_left_def)
  next
    case False
    obtain p where p: "rev (trim_left s) = p @ ?t"
      unfolding trim_left_def by (metis takeWhile_dropWhile_id)
    then have "trim_left s = rev ?t @ rev p" by (metis rev_append rev_rev_ident)
    then have "hd (rev ?t) = hd (trim_left s)" "trim_left s \<noteq> []"
      using False by (metis hd_append2 rev_is_Nil_conv append_is_Nil_conv)+
    with hd [of s] have "\<not> is_space (hd (rev ?t))" by metis
    moreover have "\<not> is_space (last (rev ?t))" using hd [of "rev (trim_left s)"] False by (simp add: last_rev)
    ultimately show ?thesis unfolding trim_space_def [of s] by (intro trim_space_id) simp
  qed
qed

section \<open>strconv\<close>

definition digit_char :: "nat \<Rightarrow> char" where
  "digit_char d = char_of (48 + d)"

definition digit_val :: "char \<Rightarrow> int option" where
  "digit_val c = (let n = of_char c :: nat in if 48 \<le> n \<and> n \<le> 57 then Some (int (n - 48)) else None)"

fun nat_str :: "nat \<Rightarrow> string" where
  "nat_str n = (if n < 10 then [digit_char n] else nat_str (n div 10) @ [digit_char (n mod 10)])"

declare nat_str.simps [simp del]

definition itoa :: "int \<Rightarrow> string" where
  "itoa i = (if i < 0 then CHR ''-'' # nat_str (nat (- i)) else nat_str (nat i))"

fun digits_val :: "int \<Rightarrow> string \<Rightarrow> int option" where
  "digits_val acc [] = Some acc"
| "digits_val acc (c # cs) =
     (case digit_val c of None \<Rightarrow> None | Some d \<Rightarrow> digits_val (10 * acc + d) cs)"

text \<open>
  \<^verbatim>\<open>strconv.Atoi\<close>: an optional sign, at least one digit, a value in the range of
  \<^verbatim>\<open>int\<close>; \<^const>\<open>None\<close> is the error.
\<close>

definition atoi :: "string \<Rightarrow> int option" where
  "atoi s =
     (let (neg, ds) = (case s of [] \<Rightarrow> (False, [])
                       | c # cs \<Rightarrow> if c = CHR ''-'' then (True, cs)
                                    else if c = CHR ''+'' then (False, cs) else (False, s))
      in if ds = [] then None
         else case digits_val 0 ds of
             None \<Rightarrow> None
           | Some n \<Rightarrow> (let v = (if neg then - n else n) in if in_i64 v then Some v else None))"

text \<open>\<^verbatim>\<open>strconv.ParseUint(s, 10, 64)\<close>: digits only.\<close>

definition parse_uint :: "string \<Rightarrow> int option" where
  "parse_uint s =
     (if s = [] then None
      else case digits_val 0 s of
          None \<Rightarrow> None
        | Some n \<Rightarrow> if n < 2 ^ 64 then Some n else None)"

definition is_digit :: "char \<Rightarrow> bool" where
  "is_digit c \<longleftrightarrow> digit_val c \<noteq> None"

lemma of_char_digit_char: "d < 10 \<Longrightarrow> (of_char (digit_char d) :: nat) = 48 + d"
  by (simp add: digit_char_def of_char_of)

lemma digit_val_digit_char [simp]: "d < 10 \<Longrightarrow> digit_val (digit_char d) = Some (int d)"
  by (simp add: digit_val_def of_char_digit_char)

lemma digit_val_nonneg: "digit_val c = Some d \<Longrightarrow> 0 \<le> d"
  by (auto simp: digit_val_def Let_def split: if_splits)

lemma digits_val_nonneg: "digits_val acc s = Some v \<Longrightarrow> 0 \<le> acc \<Longrightarrow> 0 \<le> v"
  by (induction s arbitrary: acc) (auto dest: digit_val_nonneg split: option.splits)

lemma is_digit_digit_char [simp]: "d < 10 \<Longrightarrow> is_digit (digit_char d)"
  by (simp add: is_digit_def)

lemma is_digit_not_space: "is_digit c \<Longrightarrow> \<not> is_space c"
  by (auto simp: is_digit_def digit_val_def is_space_def Let_def split: if_splits)

lemma is_digit_not_special: "is_digit c \<Longrightarrow> c \<noteq> CHR '','' \<and> c \<noteq> CHR ''-'' \<and> c \<noteq> CHR ''+''"
  by (auto simp: is_digit_def digit_val_def)

lemma int_div_mod_10: "10 * (int n div 10) + int n mod 10 = int n"
  by simp

lemma nat_str_nonempty [simp]: "nat_str n \<noteq> []"
  by (subst nat_str.simps) simp

lemma nat_str_digits: "\<forall>c \<in> set (nat_str n). is_digit c"
proof (induction n rule: nat_str.induct)
  case (1 n)
  then show ?case by (subst nat_str.simps) auto
qed

lemma digits_val_append:
  "digits_val acc (s @ t) = (case digits_val acc s of None \<Rightarrow> None | Some n \<Rightarrow> digits_val n t)"
  by (induction s arbitrary: acc) (auto split: option.splits)

lemma digits_val_nat_str: "digits_val 0 (nat_str n) = Some (int n)"
proof (induction n rule: nat_str.induct)
  case (1 n)
  show ?case
  proof (cases "n < 10")
    case True
    then show ?thesis by (subst nat_str.simps) simp
  next
    case False
    with 1 show ?thesis by (subst nat_str.simps) (simp add: digits_val_append zdiv_int zmod_int flip: of_nat_add)
  qed
qed

lemma nat_str_head: "is_digit (hd (nat_str n))"
  using nat_str_digits [of n] by (simp add: hd_in_set)

lemma atoi_nat_str: "int n \<le> max_i64 \<Longrightarrow> atoi (nat_str n) = Some (int n)"
proof -
  assume n: "int n \<le> max_i64"
  obtain c cs where s: "nat_str n = c # cs" by (cases "nat_str n") auto
  with nat_str_head [of n] have "c \<noteq> CHR ''-''" "c \<noteq> CHR ''+''"
    using is_digit_not_special by auto
  with s n show ?thesis
    using digits_val_nat_str [of n] by (simp add: atoi_def in_i64_def min_i64_def)
qed

lemma atoi_itoa: "0 \<le> i \<Longrightarrow> i \<le> max_i64 \<Longrightarrow> atoi (itoa i) = Some i"
  by (simp add: itoa_def atoi_nat_str)

lemma itoa_digits: "0 \<le> i \<Longrightarrow> c \<in> set (itoa i) \<Longrightarrow> is_digit c"
  using nat_str_digits by (simp add: itoa_def)

lemma itoa_nonempty [simp]: "itoa i \<noteq> []" "[] \<noteq> itoa i"
  by (simp_all add: itoa_def not_sym [OF nat_str_nonempty])

lemma trim_space_itoa: "0 \<le> i \<Longrightarrow> trim_space (itoa i) = itoa i"
  by (intro trim_space_no_space) (auto dest: itoa_digits is_digit_not_space)

lemma atoi_range: "atoi s = Some v \<Longrightarrow> in_i64 v"
  by (auto simp: atoi_def Let_def split: if_splits option.splits list.splits)

text \<open>A number without a minus sign is not negative.\<close>

lemma atoi_no_minus: "atoi s = Some v \<Longrightarrow> CHR ''-'' \<notin> set s \<Longrightarrow> 0 \<le> v"
  by (auto simp: atoi_def Let_def dest: digits_val_nonneg digit_val_nonneg split: if_splits option.splits list.splits)

lemma parse_uint_range: "parse_uint s = Some v \<Longrightarrow> 0 \<le> v \<and> v < 2 ^ 64"
  by (auto simp: parse_uint_def dest: digits_val_nonneg split: if_splits option.splits)

end
