(* ===== verification/CPUSet.thy ===== *)
theory CPUSet
  imports Go_Strings
begin

text \<open>
  Linux cpuset lists (\<^verbatim>\<open>pkg/cpuset/cpuset.go\<close>): the immutable set of CPU ids, the
  parser and printer of the kernel's list format, the set algebra, and the two allocation
  primitives \<^verbatim>\<open>Take\<close> and \<^verbatim>\<open>TakeFrom\<close> the CPU pool manager is built on. The Go map
  \<^verbatim>\<open>elems\<close> is the set of its keys.
\<close>

type_synonym CPUSet = "int set"

section \<open>Construction and queries\<close>

definition cpuset_New :: "int list \<Rightarrow> CPUSet" where
  "cpuset_New ids = set ids"

definition cpuset_NewRange :: "int \<Rightarrow> int \<Rightarrow> CPUSet" where
  "cpuset_NewRange start stop = set [start..stop - 1]"

definition cpuset_Size :: "CPUSet \<Rightarrow> int" where
  "cpuset_Size c = int (card c)"

definition cpuset_IsEmpty :: "CPUSet \<Rightarrow> bool" where
  "cpuset_IsEmpty c \<longleftrightarrow> card c = 0"

definition cpuset_Contains :: "CPUSet \<Rightarrow> int \<Rightarrow> bool" where
  "cpuset_Contains c i \<longleftrightarrow> i \<in> c"

definition cpuset_List :: "CPUSet \<Rightarrow> int list" where
  "cpuset_List c = sorted_list_of_set c"

section \<open>Parse\<close>

text \<open>
  The three errors carry the trimmed input and the offending part, as the Go messages do.
\<close>

datatype parse_error =
    BadElement string string
  | BadRangeEnd string string
  | DescendingRange string string

text \<open>
  \<^verbatim>\<open>for i := start; i <= end; i++\<close> over a machine integer: \<^verbatim>\<open>i++\<close> wraps, so with
  the largest \<^verbatim>\<open>int\<close> as end the loop never leaves. \<^const>\<open>None\<close> is not returning.
\<close>

partial_function (option) add_range :: "int \<Rightarrow> int \<Rightarrow> CPUSet \<Rightarrow> CPUSet option" where
  [code]: "add_range i hi out =
     (if i \<le> hi then add_range (i64 (i + 1)) hi (insert i out) else Some out)"

definition parse_part :: "string \<Rightarrow> string \<Rightarrow> CPUSet \<Rightarrow> (parse_error + CPUSet) option" where
  "parse_part s part out =
     (case cut CHR ''-'' part of (lo, hi, found) \<Rightarrow>
       case atoi (trim_space lo) of
         None \<Rightarrow> Some (Inl (BadElement s part))
       | Some start \<Rightarrow>
           (case (if found then atoi (trim_space hi) else Some start) of
              None \<Rightarrow> Some (Inl (BadRangeEnd s part))
            | Some stop \<Rightarrow>
                if stop < start then Some (Inl (DescendingRange s part))
                else map_option Inr (add_range start stop out)))"

fun parse_parts :: "string \<Rightarrow> string list \<Rightarrow> CPUSet \<Rightarrow> (parse_error + CPUSet) option" where
  "parse_parts s [] out = Some (Inr out)"
| "parse_parts s (p # ps) out =
     (let part = trim_space p
      in if part = [] then parse_parts s ps out
         else case parse_part s part out of
             None \<Rightarrow> None
           | Some (Inl e) \<Rightarrow> Some (Inl e)
           | Some (Inr out') \<Rightarrow> parse_parts s ps out')"

definition cpuset_Parse :: "string \<Rightarrow> (parse_error + CPUSet) option" where
  "cpuset_Parse s0 =
     (let s = trim_space s0
      in if s = [] then Some (Inr {}) else parse_parts s (split_on CHR '','' s) {})"

text \<open>
  \<^verbatim>\<open>MustParse\<close>: the outer \<^const>\<open>None\<close> is a call that does not return, the inner one a panic.
\<close>

definition cpuset_MustParse :: "string \<Rightarrow> CPUSet option option" where
  "cpuset_MustParse s =
     (case cpuset_Parse s of None \<Rightarrow> None | Some (Inl err) \<Rightarrow> Some None | Some (Inr c) \<Rightarrow> Some (Some c))"

section \<open>String\<close>

text \<open>
  The inner loop of \<^verbatim>\<open>String\<close> advances \<^verbatim>\<open>j\<close> over a run of consecutive ids:
  \<open>run_of\<close> returns \<^verbatim>\<open>j - i\<close>, \<^verbatim>\<open>ids[j]\<close> and the ids after \<^verbatim>\<open>j\<close>. The ids
  ascend, so \<^verbatim>\<open>ids[j]+1\<close> cannot wrap where there is a next id. The outer loop
  appends to the builder \<open>b\<close>.
\<close>

fun run_of :: "int \<Rightarrow> int list \<Rightarrow> nat \<times> int \<times> int list" where
  "run_of x [] = (0, x, [])"
| "run_of x (y # ys) =
     (if y = x + 1 then (case run_of y ys of (k, z, r) \<Rightarrow> (Suc k, z, r)) else (0, x, y # ys))"

definition run_text :: "nat \<Rightarrow> int \<Rightarrow> int \<Rightarrow> string" where
  "run_text k x y =
     (if k = 0 then itoa x
      else if k = 1 then itoa x @ CHR '','' # itoa y
      else itoa x @ CHR ''-'' # itoa y)"

lemma run_of_spec: "run_of x xs = (k, y, r) \<Longrightarrow> y = x + int k \<and> x # xs = [x..y] @ r"
proof (induction x xs arbitrary: k y r rule: run_of.induct)
  case (1 x)
  then show ?case by simp
next
  case (2 x z zs)
  show ?case
  proof (cases "z = x + 1")
    case True
    obtain k' y' r' where rest: "run_of z zs = (k', y', r')" by (cases "run_of z zs")
    with 2 True have IH: "y' = z + int k'" "z # zs = [z..y'] @ r'" by blast+
    from "2.prems" True rest have kyr: "k = Suc k'" "y = y'" "r = r'" by simp_all
    have "[x..y] = x # [z..y]" using True IH(1) kyr by (simp add: upto_rec1)
    with IH kyr True show ?thesis by simp
  next
    case False
    with "2.prems" show ?thesis by auto
  qed
qed

lemma run_of_length: "run_of x xs = (k, y, r) \<Longrightarrow> length r \<le> length xs"
proof -
  assume run: "run_of x xs = (k, y, r)"
  have "x # xs = [x..y] @ r" and "x \<le> y" using run_of_spec [OF run] by auto
  then have "length (x # xs) = nat (y - x + 1) + length r" and "x \<le> y" by (metis length_append length_upto)+
  then show ?thesis by simp
qed

function render_runs :: "string \<Rightarrow> int list \<Rightarrow> string" where
  "render_runs b [] = b"
| "render_runs b (x # xs) =
     (case run_of x xs of (k, y, r) \<Rightarrow>
       render_runs ((if b \<noteq> [] then b @ '','' else b) @ run_text k x y) r)"
  by pat_completeness auto
termination
  by (relation "measure (\<lambda>(b, xs). length xs)") (auto dest!: run_of_length [OF sym])

declare render_runs.simps [simp del]

definition cpuset_String :: "CPUSet \<Rightarrow> string" where
  "cpuset_String c = render_runs [] (cpuset_List c)"

section \<open>Set algebra\<close>

definition cpuset_Union :: "CPUSet \<Rightarrow> CPUSet \<Rightarrow> CPUSet" where
  "cpuset_Union c other = c \<union> other"

definition cpuset_Intersection :: "CPUSet \<Rightarrow> CPUSet \<Rightarrow> CPUSet" where
  "cpuset_Intersection c other = {i \<in> c. cpuset_Contains other i}"

definition cpuset_Difference :: "CPUSet \<Rightarrow> CPUSet \<Rightarrow> CPUSet" where
  "cpuset_Difference c other = {i \<in> c. \<not> cpuset_Contains other i}"

definition cpuset_Equals :: "CPUSet \<Rightarrow> CPUSet \<Rightarrow> bool" where
  "cpuset_Equals c other \<longleftrightarrow> card c = card other \<and> (\<forall>i \<in> c. cpuset_Contains other i)"

definition cpuset_Take :: "CPUSet \<Rightarrow> int \<Rightarrow> CPUSet \<times> CPUSet" where
  "cpuset_Take c n =
     (let ids = cpuset_List c;
          n1 = (if n > int (length ids) then int (length ids) else n);
          n2 = (if n1 < 0 then 0 else n1)
      in (cpuset_New (take (nat n2) ids), cpuset_New (drop (nat n2) ids)))"

definition cpuset_TakeFrom :: "CPUSet \<Rightarrow> int \<Rightarrow> CPUSet \<Rightarrow> CPUSet \<times> CPUSet" where
  "cpuset_TakeFrom c n preferred =
     (let from_preferred = fst (cpuset_Take (cpuset_Intersection c preferred) n);
          taken =
            (if cpuset_Size from_preferred < n
             then cpuset_Union from_preferred
                    (fst (cpuset_Take (cpuset_Difference c from_preferred)
                            (n - cpuset_Size from_preferred)))
             else from_preferred)
      in (taken, cpuset_Difference c taken))"

section \<open>The algebra is set algebra\<close>

named_theorems cpuset_simps \<open>the cpuset operations as operations on sets\<close>

lemma cpuset_ops [cpuset_simps]:
  "cpuset_New ids = set ids"
  "cpuset_Contains c i \<longleftrightarrow> i \<in> c"
  "cpuset_Union c d = c \<union> d"
  "cpuset_Intersection c d = c \<inter> d"
  "cpuset_Difference c d = c - d"
  by (auto simp: cpuset_New_def cpuset_Contains_def cpuset_Union_def cpuset_Intersection_def
      cpuset_Difference_def)

lemma cpuset_NewRange_eq [cpuset_simps]: "cpuset_NewRange a b = {a..<b}"
  by (auto simp: cpuset_NewRange_def)

lemma cpuset_Size_nonneg [simp]: "0 \<le> cpuset_Size c"
  by (simp add: cpuset_Size_def)

lemma cpuset_IsEmpty_iff: "finite c \<Longrightarrow> cpuset_IsEmpty c \<longleftrightarrow> c = {}"
  by (simp add: cpuset_IsEmpty_def)

text \<open>
  \<^verbatim>\<open>Equals\<close>, which compares sizes and then membership one way only, decides set
  equality, for all the sets a program can build (finite ones).
\<close>

theorem cpuset_Equals_iff:
  assumes "finite c" and "finite d"
  shows "cpuset_Equals c d \<longleftrightarrow> c = d"
  using assms by (auto simp: cpuset_Equals_def cpuset_simps dest: card_subset_eq [of d c])

theorem cpuset_Equals_iff_witness:
  "\<not> cpuset_Equals (cpuset_New [1, 2, 3]) (cpuset_New [3, 2, 4])"
proof -
  have "cpuset_Equals (cpuset_New [1, 2, 3]) (cpuset_New [3, 2, 4])
      \<longleftrightarrow> cpuset_New [1, 2, 3] = cpuset_New [3, 2, 4]"
    by (rule cpuset_Equals_iff) (simp_all add: cpuset_New_def)
  moreover have "cpuset_New [1, 2, 3] \<noteq> cpuset_New [3, 2, 4]"
    by code_simp
  ultimately show ?thesis by simp
qed

section \<open>Parsing\<close>

lemma add_range_stops:
  assumes "hi < max_i64" and "min_i64 \<le> i"
  shows "add_range i hi out = Some (out \<union> {i..hi})"
  using assms
proof (induction "nat (hi + 1 - i)" arbitrary: i out)
  case 0
  then show ?case by (subst add_range.simps) simp
next
  case (Suc n)
  then have i: "i \<le> hi" by simp
  with Suc.prems have w: "i64 (i + 1) = i + 1"
    by (intro i64_id) (simp add: in_i64_def)
  have "add_range (i + 1) hi (insert i out) = Some (insert i out \<union> {i + 1..hi})"
    using Suc i by (intro Suc.hyps(1)) auto
  moreover have "insert i out \<union> {i + 1..hi} = out \<union> {i..hi}" using i by auto
  ultimately show ?case using i by (subst add_range.simps) (simp add: w)
qed

text \<open>With the largest \<^verbatim>\<open>int\<close> as its end the loop does not return.\<close>

lemma add_range_returns_bound:
  assumes "add_range i hi out = Some r"
  shows "in_i64 i \<longrightarrow> hi < max_i64"
proof (rule add_range.raw_induct [where P = "\<lambda>i hi out r. in_i64 i \<longrightarrow> hi < max_i64", OF _ assms])
  fix f :: "int \<Rightarrow> int \<Rightarrow> CPUSet \<Rightarrow> CPUSet option" and i hi out r
  assume IH: "\<And>i hi out r. f i hi out = Some r \<Longrightarrow> in_i64 i \<longrightarrow> hi < max_i64"
    and eq: "(if i \<le> hi then f (i64 (i + 1)) hi (insert i out) else Some out) = Some r"
  show "in_i64 i \<longrightarrow> hi < max_i64"
  proof (cases "i \<le> hi")
    case True
    with eq IH [of "i64 (i + 1)" hi "insert i out" r] show ?thesis by simp
  next
    case False
    then show ?thesis by (auto simp: in_i64_def)
  qed
qed

text \<open>What a successful parse of one part added.\<close>

lemma parse_part_result:
  assumes "parse_part s part out = Some (Inr c)"
  shows "\<exists>a b. 0 \<le> a \<and> a \<le> b \<and> b < max_i64 \<and> c = out \<union> {a..b}"
proof -
  obtain lo hi found where cut: "cut CHR ''-'' part = (lo, hi, found)" by (cases "cut CHR ''-'' part")
  have lo_chars: "CHR ''-'' \<notin> set lo"
    using cut by (induction part arbitrary: lo hi found) (auto split: if_splits prod.splits)
  have "set (trim_space lo) \<subseteq> set lo"
    by (auto simp: trim_space_def trim_left_def dest!: set_dropWhileD)
  with lo_chars have no_minus: "CHR ''-'' \<notin> set (trim_space lo)" by blast
  from assms cut obtain a b where
    a: "atoi (trim_space lo) = Some a"
    and b: "(if found then atoi (trim_space hi) else Some a) = Some b"
    and ab: "a \<le> b" and r: "add_range a b out = Some c"
    by (auto simp: parse_part_def split: option.splits if_splits)
  have "0 \<le> a" by (rule atoi_no_minus [OF a no_minus])
  moreover from a have "in_i64 a" by (rule atoi_range)
  with r have "b < max_i64" using add_range_returns_bound by blast
  moreover from \<open>0 \<le> a\<close> have "min_i64 \<le> a" by (simp add: min_i64_def)
  with \<open>b < max_i64\<close> r have "c = out \<union> {a..b}" by (simp add: add_range_stops)
  ultimately show ?thesis using ab by blast
qed

lemma parse_parts_result:
  assumes "parse_parts s ps out = Some (Inr c)" and "finite out" and "\<forall>i \<in> out. 0 \<le> i \<and> i < max_i64"
  shows "finite c \<and> (\<forall>i \<in> c. 0 \<le> i \<and> i < max_i64)"
  using assms
proof (induction s ps out rule: parse_parts.induct)
  case (2 s p ps out)
  show ?case
  proof (cases "trim_space p = []")
    case True
    with 2 show ?thesis by simp
  next
    case False
    with "2.prems"(1) obtain out' where part: "parse_part s (trim_space p) out = Some (Inr out')"
      and rest: "parse_parts s ps out' = Some (Inr c)"
      by (auto simp: Let_def split: option.splits sum.splits)
    from parse_part_result [OF part] "2.prems" have "finite out'" "\<forall>i \<in> out'. 0 \<le> i \<and> i < max_i64"
      by force+
    with "2.IH"(2) [OF refl False part refl rest] show ?thesis by blast
  qed
qed simp

lemma parse_ids:
  assumes "cpuset_Parse s = Some (Inr c)"
  shows "finite c \<and> (\<forall>i \<in> c. 0 \<le> i \<and> i < max_i64)"
proof (cases "trim_space s = []")
  case True
  with assms show ?thesis by (simp add: cpuset_Parse_def)
next
  case False
  with assms have "parse_parts (trim_space s) (split_on CHR '','' (trim_space s)) {} = Some (Inr c)"
    by (simp add: cpuset_Parse_def Let_def)
  then show ?thesis by (rule parse_parts_result) simp_all
qed

text \<open>
  The range a part denotes, where both of its numbers parse and they do not descend; a part the
  loop passes, being blank or a range that ends below the largest \<^verbatim>\<open>int\<close>; and one it is stuck in.
\<close>

definition part_range :: "string \<Rightarrow> (int \<times> int) option" where
  "part_range part =
     (case cut CHR ''-'' part of (lo, hi, found) \<Rightarrow>
       case (atoi (trim_space lo), if found then atoi (trim_space hi) else atoi (trim_space lo)) of
         (Some a, Some b) \<Rightarrow> if b < a then None else Some (a, b)
       | _ \<Rightarrow> None)"

definition part_passed :: "string \<Rightarrow> bool" where
  "part_passed p \<longleftrightarrow>
     trim_space p = [] \<or> (case part_range (trim_space p) of None \<Rightarrow> False | Some (a, b) \<Rightarrow> b < max_i64)"

definition part_stuck :: "string \<Rightarrow> bool" where
  "part_stuck p \<longleftrightarrow>
     trim_space p \<noteq> [] \<and> (case part_range (trim_space p) of None \<Rightarrow> False | Some (a, b) \<Rightarrow> b = max_i64)"

lemma part_range_bounds: "part_range part = Some (a, b) \<Longrightarrow> in_i64 a \<and> in_i64 b \<and> a \<le> b"
  by (auto simp: part_range_def atoi_range split: prod.splits option.splits if_splits)

lemma parse_part_denotes:
  "case part_range part of
     None \<Rightarrow> \<exists>e. parse_part s part out = Some (Inl e)
   | Some (a, b) \<Rightarrow> parse_part s part out = map_option Inr (add_range a b out)"
  by (auto simp: part_range_def parse_part_def split: prod.splits option.splits)

lemma add_range_None_iff: "in_i64 i \<Longrightarrow> in_i64 j \<Longrightarrow> add_range i j out = None \<longleftrightarrow> j = max_i64"
  using add_range_stops [of j i out] add_range_returns_bound [of i j out]
  by (cases "add_range i j out"; cases "j < max_i64") (auto simp: in_i64_def)

lemma parse_part_passed:
  assumes "trim_space p \<noteq> []"
  shows "part_passed p \<longleftrightarrow> (\<exists>out'. parse_part s (trim_space p) out = Some (Inr out'))"
    and "part_stuck p \<longleftrightarrow> parse_part s (trim_space p) out = None"
  using assms parse_part_denotes [where part = "trim_space p" and s = s and out = out] part_range_bounds [of "trim_space p"]
    add_range_None_iff [of _ _ out]
  by (fastforce simp: part_passed_def part_stuck_def in_i64_def split: option.splits prod.splits)+

lemma parse_parts_None_iff:
  "parse_parts s ps out = None \<longleftrightarrow> (\<exists>us p vs. ps = us @ p # vs \<and> list_all part_passed us \<and> part_stuck p)"
proof (induction s ps out rule: parse_parts.induct)
  case (2 s p ps out)
  have cons: "(\<exists>us q vs. p # ps = us @ q # vs \<and> list_all part_passed us \<and> part_stuck q) \<longleftrightarrow>
      part_stuck p \<or> part_passed p \<and> (\<exists>us q vs. ps = us @ q # vs \<and> list_all part_passed us \<and> part_stuck q)"
    by (auto simp: Cons_eq_append_conv) (metis list.pred_inject append_Cons append_Nil)+
  show ?case
  proof (cases "trim_space p = []")
    case True
    then have "part_passed p" "\<not> part_stuck p" by (simp_all add: part_passed_def part_stuck_def)
    then show ?thesis using "2.IH"(1) [OF refl True] cons True by simp
  next
    case False
    note pp = parse_part_passed [OF False, of s out]
    show ?thesis
    proof (cases "parse_part s (trim_space p) out")
      case None
      then show ?thesis using False pp cons by (simp add: Let_def)
    next
      case (Some res)
      then show ?thesis using False pp cons "2.IH"(2) [OF refl False Some] by (cases res) (simp_all add: Let_def)
    qed
  qed
qed simp

text \<open>
  C38. When \<^verbatim>\<open>Parse\<close> does not return. The loop over a range counts up a machine integer with \<^verbatim>\<open><=\<close>,
  so it never leaves a range that ends at the largest \<^verbatim>\<open>int\<close>. \<^verbatim>\<open>Parse\<close> fails to return exactly when
  some part of the list is such a range, each of its numbers one that \<^verbatim>\<open>Atoi\<close> accepts, and every part
  before it is blank or a well-formed range ending lower; on every other text it returns a set or an error.
\<close>

theorem cpuset_Parse_diverges:
  "cpuset_Parse s = None \<longleftrightarrow>
     (\<exists>us p vs. split_on CHR '','' (trim_space s) = us @ p # vs \<and> list_all part_passed us \<and> part_stuck p)"
proof (cases "trim_space s = []")
  case True
  moreover have "trim_space [] = []" "split_on CHR '','' [] = [[]]" by (simp_all add: trim_space_def trim_left_def)
  ultimately show ?thesis by (simp add: cpuset_Parse_def Cons_eq_append_conv part_stuck_def)
next
  case False
  then show ?thesis by (simp add: cpuset_Parse_def parse_parts_None_iff Let_def)
qed

theorem cpuset_Parse_diverges_witness:
  "cpuset_Parse ''0-3, 7-9223372036854775807,x'' = None \<and> cpuset_Parse ''9-4,0-9223372036854775807'' \<noteq> None"
proof -
  have s: "split_on CHR '','' (trim_space ''0-3, 7-9223372036854775807,x'') = [''0-3''] @ '' 7-9223372036854775807'' # [''x'']"
    and p: "part_passed ''0-3''" "part_stuck '' 7-9223372036854775807''" by code_simp+
  then have "cpuset_Parse ''0-3, 7-9223372036854775807,x'' = None"
    unfolding cpuset_Parse_diverges by (metis list.pred_inject)
  moreover have "cpuset_Parse ''9-4,0-9223372036854775807'' \<noteq> None" by code_simp
  ultimately show ?thesis by blast
qed

section \<open>Printing and parsing back\<close>

definition run_tokens :: "nat \<Rightarrow> int \<Rightarrow> int \<Rightarrow> string list" where
  "run_tokens k x y =
     (if k = 0 then [itoa x] else if k = 1 then [itoa x, itoa y] else [itoa x @ CHR ''-'' # itoa y])"

function all_tokens :: "int list \<Rightarrow> string list" where
  "all_tokens [] = []"
| "all_tokens (x # xs) = (case run_of x xs of (k, y, r) \<Rightarrow> run_tokens k x y @ all_tokens r)"
  by pat_completeness auto
termination
  by (relation "measure length") (auto dest!: run_of_length [OF sym])

declare all_tokens.simps [simp del]

lemma run_tokens_nonempty [simp]: "run_tokens k x y \<noteq> []"
  by (simp add: run_tokens_def)

lemma join_run_tokens: "join_on CHR '','' (run_tokens k x y) = run_text k x y"
  by (simp add: run_tokens_def run_text_def)

lemma join_on_append:
  "us \<noteq> [] \<Longrightarrow> vs \<noteq> [] \<Longrightarrow> join_on c (us @ vs) = join_on c us @ c # join_on c vs"
  by (induction c us rule: join_on.induct) (auto simp: neq_Nil_conv)

lemma run_text_nonempty [simp]: "run_text k x y \<noteq> []"
  by (simp add: run_text_def)

lemma render_runs_join:
  "render_runs b ids =
     (if ids = [] then b
      else (if b \<noteq> [] then b @ '','' else b) @ join_on CHR '','' (all_tokens ids))"
proof (induction "length ids" arbitrary: b ids rule: less_induct)
  case less
  show ?case
  proof (cases ids)
    case Nil
    then show ?thesis by (simp add: render_runs.simps)
  next
    case (Cons x xs)
    obtain k y r where run: "run_of x xs = (k, y, r)" by (cases "run_of x xs")
    let ?b = "(if b \<noteq> [] then b @ '','' else b) @ run_text k x y"
    have "length r < length ids" using run_of_length [OF run] Cons by simp
    note IH = less [OF this, of ?b]
    have tok: "all_tokens ids = run_tokens k x y @ all_tokens r"
      using run Cons by (simp add: all_tokens.simps)
    show ?thesis
    proof (cases "r = []")
      case True
      then show ?thesis using Cons run tok
        by (simp add: render_runs.simps all_tokens.simps join_run_tokens)
    next
      case False
      then have "all_tokens r \<noteq> []"
        by (cases r) (auto simp: all_tokens.simps split: prod.splits)
      with False show ?thesis using Cons run tok IH
        by (simp add: render_runs.simps join_on_append join_run_tokens)
    qed
  qed
qed

lemma token_chars:
  assumes "0 \<le> x" and "0 \<le> y" and "w \<in> set (run_tokens k x y)" and "c \<in> set w"
  shows "is_digit c \<or> c = CHR ''-''"
  using assms by (auto simp: run_tokens_def dest: itoa_digits split: if_splits)

lemma run_of_bounds:
  "run_of x xs = (k, y, r) \<Longrightarrow> \<forall>i \<in> set (x # xs). P i \<Longrightarrow> P x \<and> P y \<and> (\<forall>i \<in> set r. P i) \<and> x \<le> y"
proof -
  assume run: "run_of x xs = (k, y, r)" and P: "\<forall>i \<in> set (x # xs). P i"
  from run_of_spec [OF run] have e: "x # xs = [x..y] @ r" and le: "x \<le> y" by auto
  from P have "\<forall>i \<in> set ([x..y] @ r). P i" unfolding e .
  with le show ?thesis by auto
qed

lemma all_tokens_chars:
  "\<forall>i \<in> set ids. 0 \<le> i \<Longrightarrow> w \<in> set (all_tokens ids) \<Longrightarrow> c \<in> set w \<Longrightarrow> is_digit c \<or> c = CHR ''-''"
proof (induction "length ids" arbitrary: ids rule: less_induct)
  case less
  show ?case
  proof (cases ids)
    case Nil
    with less.prems show ?thesis by (simp add: all_tokens.simps)
  next
    case (Cons x xs)
    obtain k y r where run: "run_of x xs = (k, y, r)" by (cases "run_of x xs")
    have b: "0 \<le> x \<and> 0 \<le> y \<and> (\<forall>i \<in> set r. 0 \<le> i) \<and> x \<le> y"
      by (rule run_of_bounds [OF run]) (use less.prems Cons in simp)
    have "length r < length ids" using run_of_length [OF run] Cons by simp
    with less.hyps b less.prems Cons run token_chars [of x y w k c] show ?thesis
      by (auto simp: all_tokens.simps)
  qed
qed

lemma not_special_simps [simp]: "\<not> is_digit CHR '',''" "\<not> is_space CHR ''-''" "\<not> is_digit CHR ''-''"
  by code_simp+

lemma token_char_not_space: "is_digit c \<or> c = CHR ''-'' \<Longrightarrow> \<not> is_space c"
  using is_digit_not_space by auto

lemma parse_part_number:
  assumes "0 \<le> x" and "x < max_i64"
  shows "parse_part s (itoa x) out = Some (Inr (out \<union> {x..x}))"
proof -
  have "CHR ''-'' \<notin> set (itoa x)" using itoa_digits [OF assms(1), of "CHR ''-''"] by auto
  then have "cut CHR ''-'' (itoa x) = (itoa x, [], False)" by (rule cut_no_sep)
  moreover have "min_i64 \<le> x" using assms by (simp add: min_i64_def)
  ultimately show ?thesis
    using assms by (simp add: parse_part_def trim_space_itoa atoi_itoa add_range_stops)
qed

lemma parse_part_range:
  assumes "0 \<le> x" and "x \<le> y" and "y < max_i64"
  shows "parse_part s (itoa x @ CHR ''-'' # itoa y) out = Some (Inr (out \<union> {x..y}))"
proof -
  have "CHR ''-'' \<notin> set (itoa x)" using itoa_digits [OF assms(1), of "CHR ''-''"] by auto
  then have "cut CHR ''-'' (itoa x @ CHR ''-'' # itoa y) = (itoa x, itoa y, True)" by (rule cut_append_sep)
  moreover have "min_i64 \<le> x" using assms by (simp add: min_i64_def)
  ultimately show ?thesis
    using assms by (simp add: parse_part_def trim_space_itoa atoi_itoa add_range_stops)
qed

lemma token_trim:
  assumes "0 \<le> x" and "0 \<le> y" and "w \<in> set (run_tokens k x y)"
  shows "trim_space w = w" and "w \<noteq> []"
proof -
  show "trim_space w = w"
  proof (rule trim_space_no_space, rule ballI)
    fix c assume "c \<in> set w"
    then show "\<not> is_space c" by (rule token_char_not_space [OF token_chars [OF assms]])
  qed
  show "w \<noteq> []" using assms(3) itoa_nonempty by (auto simp: run_tokens_def split: if_splits)
qed

lemma parse_parts_run:
  assumes "0 \<le> x" and "y = x + int k" and "y < max_i64"
  shows "parse_parts s (run_tokens k x y @ ts) out = parse_parts s ts (out \<union> {x..y})"
proof -
  have y: "0 \<le> y" using assms by simp
  note tt = token_trim [OF assms(1) y]
  consider "k = 0" | "k = 1" | "k > 1" by linarith
  then show ?thesis
  proof cases
    case 1
    then show ?thesis using assms tt [of "itoa x" k]
      by (simp add: run_tokens_def parse_part_number)
  next
    case 2
    have "{x..y} = {x..x} \<union> {y..y}" using 2 assms by auto
    then show ?thesis using 2 assms y tt [of "itoa x" k] tt [of "itoa y" k]
      by (simp add: run_tokens_def parse_part_number Un_assoc)
  next
    case 3
    then show ?thesis using assms tt [of "itoa x @ CHR ''-'' # itoa y" k]
      by (simp add: run_tokens_def parse_part_range)
  qed
qed

lemma parse_parts_all_tokens:
  "\<forall>i \<in> set ids. 0 \<le> i \<and> i < max_i64 \<Longrightarrow>
     parse_parts s (all_tokens ids) out = Some (Inr (out \<union> set ids))"
proof (induction "length ids" arbitrary: ids out rule: less_induct)
  case less
  show ?case
  proof (cases ids)
    case Nil
    then show ?thesis by (simp add: all_tokens.simps)
  next
    case (Cons x xs)
    obtain k y r where run: "run_of x xs = (k, y, r)" by (cases "run_of x xs")
    have b: "(0 \<le> x \<and> x < max_i64) \<and> (0 \<le> y \<and> y < max_i64) \<and> (\<forall>i \<in> set r. 0 \<le> i \<and> i < max_i64) \<and> x \<le> y"
      by (rule run_of_bounds [OF run]) (use less.prems Cons in simp)
    from run_of_spec [OF run] have y: "y = x + int k" and e: "ids = [x..y] @ r" using Cons by simp_all
    have "length r < length ids" using run_of_length [OF run] Cons by simp
    then have IH: "parse_parts s (all_tokens r) (out \<union> {x..y}) = Some (Inr (out \<union> {x..y} \<union> set r))"
      using less.hyps b by blast
    have "parse_parts s (all_tokens ids) out = parse_parts s (all_tokens r) (out \<union> {x..y})"
      using Cons run b y by (simp add: all_tokens.simps parse_parts_run)
    also have "\<dots> = Some (Inr (out \<union> {x..y} \<union> set r))" by (rule IH)
    also have "out \<union> {x..y} \<union> set r = out \<union> set ids" using e by auto
    finally show ?thesis .
  qed
qed

lemma set_join_on: "c \<in> set (join_on d ws) \<Longrightarrow> c = d \<or> (\<exists>w \<in> set ws. c \<in> set w)"
  by (induction d ws rule: join_on.induct) auto

lemma parse_printed:
  assumes "finite c" and "\<forall>i \<in> c. 0 \<le> i \<and> i < max_i64"
  shows "cpuset_Parse (cpuset_String c) = Some (Inr c)"
proof (cases "c = {}")
  case True
  then show ?thesis
    by (simp add: cpuset_String_def cpuset_List_def cpuset_Parse_def render_runs.simps
        trim_space_def trim_left_def)
next
  case False
  let ?ids = "cpuset_List c"
  have ids: "set ?ids = c" "?ids \<noteq> []" using assms False by (auto simp: cpuset_List_def)
  have s: "cpuset_String c = join_on CHR '','' (all_tokens ?ids)"
    using ids by (simp add: cpuset_String_def render_runs_join)
  have tok: "all_tokens ?ids \<noteq> []"
    using ids by (cases ?ids) (auto simp: all_tokens.simps split: prod.splits)
  have nonneg: "\<forall>i \<in> set ?ids. 0 \<le> i" using ids assms by simp
  note chars = all_tokens_chars [OF nonneg]
  have comma: "\<forall>w \<in> set (all_tokens ?ids). CHR '','' \<notin> set w"
  proof (intro ballI notI)
    fix w assume "w \<in> set (all_tokens ?ids)" and "CHR '','' \<in> set w"
    from chars [OF this] show False by simp
  qed
  have "\<not> is_space d" if "d \<in> set (cpuset_String c)" for d
  proof (cases "d = CHR '',''")
    case True
    then show ?thesis by (simp add: is_space_def)
  next
    case False
    with set_join_on [OF that [unfolded s]] chars have "is_digit d \<or> d = CHR ''-''" by blast
    then show ?thesis by (rule token_char_not_space)
  qed
  then have "trim_space (cpuset_String c) = cpuset_String c"
    by (intro trim_space_no_space) blast
  moreover have "split_on CHR '','' (cpuset_String c) = all_tokens ?ids"
    unfolding s by (rule split_on_join [OF tok comma])
  moreover have "cpuset_String c \<noteq> []"
  proof
    assume "cpuset_String c = []"
    with calculation(2) have t: "all_tokens ?ids = [[]]" by simp
    from ids obtain x xs where x: "?ids = x # xs" by (cases ?ids) auto
    obtain k y r where run: "run_of x xs = (k, y, r)" by (cases "run_of x xs")
    have "run_tokens k x y @ all_tokens r = [[]]" using t x run by (simp add: all_tokens.simps)
    then have "set (run_tokens k x y @ all_tokens r) = {[]}" by simp
    moreover have "hd (run_tokens k x y) \<in> set (run_tokens k x y)" by (rule hd_in_set) simp
    ultimately have "[] \<in> set (run_tokens k x y)" by (metis Un_iff set_append singletonD)
    with itoa_nonempty show False by (auto simp: run_tokens_def split: if_splits)
  qed
  moreover have "parse_parts (cpuset_String c) (all_tokens ?ids) {} = Some (Inr c)"
    using parse_parts_all_tokens [of ?ids] ids assms by simp
  ultimately show ?thesis by (simp only: cpuset_Parse_def Let_def if_False simp_thms)
qed

lemma parse_trim: "trim_space s = trim_space t \<Longrightarrow> cpuset_Parse s = cpuset_Parse t"
  by (simp add: cpuset_Parse_def)

text \<open>
  C20. Round trip: what \<^verbatim>\<open>String\<close> prints, with runs collapsed into ranges and pairs written
  as two elements, \<^verbatim>\<open>Parse\<close> reads back to the same set, whatever white space (the
  kernel's line break) comes around it.
\<close>

theorem cpuset_Parse_String:
  assumes "finite c" and "\<forall>i \<in> c. 0 \<le> i \<and> i < max_i64"
    and "\<forall>x \<in> set before. is_space x" and "\<forall>x \<in> set after. is_space x"
  shows "cpuset_Parse (before @ cpuset_String c @ after) = Some (Inr c)"
proof -
  have "cpuset_Parse (before @ cpuset_String c @ after) = cpuset_Parse (cpuset_String c)"
    by (rule parse_trim, rule trim_space_pad [OF assms(3,4)])
  then show ?thesis using parse_printed [OF assms(1,2)] by simp
qed

theorem cpuset_Parse_String_witness:
  "cpuset_String {0, 1, 2, 3, 8, 12, 13} = ''0-3,8,12,13'' \<and>
   cpuset_Parse ('' '' @ cpuset_String {0, 1, 2, 3, 8, 12, 13} @ [CHR 0x0A]) = Some (Inr {0, 1, 2, 3, 8, 12, 13})"
proof
  show "cpuset_String {0, 1, 2, 3, 8, 12, 13} = ''0-3,8,12,13''" by code_simp
  show "cpuset_Parse ('' '' @ cpuset_String {0, 1, 2, 3, 8, 12, 13} @ [CHR 0x0A]) = Some (Inr {0, 1, 2, 3, 8, 12, 13})"
    by (rule cpuset_Parse_String) (simp_all add: max_i64_def is_space_def)
qed

text \<open>
  Whatever text it is given, a \<^verbatim>\<open>Parse\<close> that returns a set returns a finite set of
  non-negative ids below the largest \<^verbatim>\<open>int\<close> (a negative id cannot be written), and one
  that survives being printed: reordered, overlapping and padded input all normalise.
\<close>

theorem cpuset_Parse_ids:
  assumes "cpuset_Parse s = Some (Inr c)"
  shows "finite c \<and> (\<forall>i \<in> c. 0 \<le> i \<and> i < max_i64) \<and> cpuset_Parse (cpuset_String c) = Some (Inr c)"
  using parse_ids [OF assms] by (simp add: parse_printed)

theorem cpuset_Parse_ids_witness:
  "cpuset_Parse '' 7,0-2, 1 '' = Some (Inr {0, 1, 2, 7}) \<and> finite {0, 1, 2, 7 :: int} \<and>
   cpuset_Parse (cpuset_String {0, 1, 2, 7}) = Some (Inr {0, 1, 2, 7})"
proof -
  have p: "cpuset_Parse '' 7,0-2, 1 '' = Some (Inr {0, 1, 2, 7})"
    by code_simp
  show ?thesis using p cpuset_Parse_ids [OF p] by blast
qed

section \<open>Allocation\<close>

text \<open>
  The contract of an allocator of CPUs, as the pool manager relies on it: it splits the free
  set into what was taken and what is left, and takes exactly as many as asked where there
  are that many.
\<close>

locale cpu_allocator =
  fixes alloc :: "CPUSet \<Rightarrow> int \<Rightarrow> CPUSet \<times> CPUSet"
  assumes alloc_split: "finite c \<Longrightarrow> alloc c n = (t, r) \<Longrightarrow> t \<union> r = c \<and> t \<inter> r = {}"
    and alloc_size: "finite c \<Longrightarrow> alloc c n = (t, r) \<Longrightarrow> cpuset_Size t = max 0 (min n (cpuset_Size c))"
begin

lemma alloc_finite: "finite c \<Longrightarrow> alloc c n = (t, r) \<Longrightarrow> finite t \<and> finite r"
  using alloc_split [of c n t r] by (auto intro: finite_subset)

lemma alloc_rest: "finite c \<Longrightarrow> alloc c n = (t, r) \<Longrightarrow> r = c - t \<and> t \<subseteq> c"
  using alloc_split [of c n t r] by auto

lemma alloc_exact:
  "finite c \<Longrightarrow> alloc c n = (t, r) \<Longrightarrow> 0 \<le> n \<Longrightarrow> n \<le> cpuset_Size c \<Longrightarrow>
     cpuset_Size t = n \<and> cpuset_Size r = cpuset_Size c - n"
proof -
  assume c: "finite c" and a: "alloc c n = (t, r)" and n: "0 \<le> n" "n \<le> cpuset_Size c"
  have t: "cpuset_Size t = n" using alloc_size [OF c a] n by simp
  have "card c = card t + card r"
    using alloc_split [OF c a] alloc_finite [OF c a] by (metis card_Un_disjoint)
  with t show ?thesis by (simp add: cpuset_Size_def)
qed

end

lemma cpuset_List_props [simp]:
  "finite c \<Longrightarrow> set (cpuset_List c) = c"
  "sorted (cpuset_List c)" "distinct (cpuset_List c)"
  "length (cpuset_List c) = card c"
  by (simp_all add: cpuset_List_def)

lemma cpuset_Take_eq:
  "cpuset_Take c n = (set (take (nat n) (cpuset_List c)), set (drop (nat n) (cpuset_List c)))"
  by (auto simp: cpuset_Take_def Let_def cpuset_simps)

lemma cpuset_Take_split:
  assumes "finite c" and "cpuset_Take c n = (t, r)"
  shows "t \<union> r = c" and "t \<inter> r = {}"
proof -
  let ?ids = "cpuset_List c"
  have tr: "t = set (take (nat n) ?ids)" "r = set (drop (nat n) ?ids)"
    using assms(2) by (simp_all add: cpuset_Take_eq)
  have "t \<union> r = set ?ids" unfolding tr by (metis append_take_drop_id set_append)
  then show "t \<union> r = c" using assms(1) by simp
  show "t \<inter> r = {}" unfolding tr by (rule set_take_disj_set_drop_if_distinct) simp_all
qed

lemma cpuset_Take_size:
  assumes "cpuset_Take c n = (t, r)"
  shows "cpuset_Size t = max 0 (min n (cpuset_Size c))"
proof -
  have "t = set (take (nat n) (cpuset_List c))" using assms by (simp add: cpuset_Take_eq)
  then have "card t = min (card c) (nat n)" by (simp add: distinct_card)
  then show ?thesis by (simp add: cpuset_Size_def)
qed

interpretation take_alloc: cpu_allocator cpuset_Take
  by unfold_locales (auto simp: cpuset_Take_size dest: cpuset_Take_split)

text \<open>
  \<^verbatim>\<open>Take\<close> splits the set, takes as many as asked where there are that many, and
  prefers the lowest ids: every id taken is below every id left.
\<close>

theorem cpuset_Take_correct:
  assumes "finite c" and "cpuset_Take c n = (taken, rest)"
  shows "taken \<union> rest = c \<and> taken \<inter> rest = {} \<and>
    cpuset_Size taken = max 0 (min n (cpuset_Size c)) \<and> (\<forall>i \<in> taken. \<forall>j \<in> rest. i < j)"
proof -
  have "sorted_wrt (<) (take (nat n) (cpuset_List c) @ drop (nat n) (cpuset_List c))"
    by (simp add: strict_sorted_iff)
  then have "\<forall>i \<in> taken. \<forall>j \<in> rest. i < j"
    using assms(2) unfolding sorted_wrt_append by (auto simp: cpuset_Take_eq)
  with cpuset_Take_size [OF assms(2)] cpuset_Take_split [OF assms] show ?thesis by simp
qed

theorem cpuset_Take_correct_witness:
  "cpuset_Take {5, 1, 9, 3} 2 = ({1, 3}, {5, 9}) \<and> {1, 3} \<union> {5, 9} = {5, 1, 9, 3 :: int}"
proof -
  have t: "cpuset_Take {5, 1, 9, 3} 2 = ({1, 3}, {5, 9})" by code_simp
  with cpuset_Take_correct [OF _ t] show ?thesis by simp
qed

lemma card_Int_Diff_int: "finite c \<Longrightarrow> cpuset_Size (c - t) = cpuset_Size c - cpuset_Size (c \<inter> t)"
  unfolding cpuset_Size_def
  by (metis card_Diff_subset_Int card_mono finite_Int inf_le1 of_nat_diff)

lemma cpuset_TakeFrom_cases:
  assumes fin: "finite c" and tf: "cpuset_TakeFrom c n p = (t, r)"
  obtains f x where "fst (cpuset_Take (c \<inter> p) n) = f" and "r = c - t" and "f \<subseteq> c \<inter> p"
    and "cpuset_Size f = max 0 (min n (cpuset_Size (c \<inter> p)))"
    and "t = f \<union> x" and "x \<subseteq> c - f"
    and "cpuset_Size x = (if cpuset_Size f < n then min (n - cpuset_Size f) (cpuset_Size (c - f)) else 0)"
proof -
  obtain f f' where f: "cpuset_Take (c \<inter> p) n = (f, f')" by (cases "cpuset_Take (c \<inter> p) n")
  obtain x x' where x: "cpuset_Take (c - f) (n - cpuset_Size f) = (x, x')"
    by (cases "cpuset_Take (c - f) (n - cpuset_Size f)")
  let ?x = "if cpuset_Size f < n then x else {}"
  have "f \<subseteq> c \<inter> p" using cpuset_Take_split [OF _ f] fin by auto
  moreover have "x \<subseteq> c - f" using cpuset_Take_split [OF _ x] fin by auto
  moreover have "t = f \<union> ?x" "r = c - t"
    using tf f x by (auto simp: cpuset_TakeFrom_def Let_def cpuset_simps split: if_splits)
  ultimately show ?thesis
    using cpuset_Take_size [OF f] cpuset_Take_size [OF x] f
    by (intro that [of f ?x]) (auto simp: cpuset_Size_def)
qed

lemma cpuset_Size_Un:
  "finite c \<Longrightarrow> f \<subseteq> c \<Longrightarrow> x \<subseteq> c - f \<Longrightarrow> cpuset_Size (f \<union> x) = cpuset_Size f + cpuset_Size x"
  unfolding cpuset_Size_def
  by (subst card_Un_disjoint) (auto intro: finite_subset)

lemma cpuset_Size_mono: "finite d \<Longrightarrow> c \<subseteq> d \<Longrightarrow> cpuset_Size c \<le> cpuset_Size d"
  by (simp add: cpuset_Size_def card_mono)

lemma cpuset_TakeFrom_alloc:
  assumes fin: "finite c" and tf: "cpuset_TakeFrom c n p = (t, r)"
  shows "t \<union> r = c \<and> t \<inter> r = {}"
    and "cpuset_Size t = max 0 (min n (cpuset_Size c))"
    and "cpuset_Size (t \<inter> p) \<ge> max 0 (min n (cpuset_Size (c \<inter> p)))"
proof -
  from cpuset_TakeFrom_cases [OF fin tf] obtain f x where
    r: "r = c - t" and f: "f \<subseteq> c \<inter> p" and fs: "cpuset_Size f = max 0 (min n (cpuset_Size (c \<inter> p)))"
    and t: "t = f \<union> x" and x: "x \<subseteq> c - f"
    and xs: "cpuset_Size x = (if cpuset_Size f < n then min (n - cpuset_Size f) (cpuset_Size (c - f)) else 0)"
    by metis
  show "t \<union> r = c \<and> t \<inter> r = {}" using r t f x by auto
  have "cpuset_Size t = cpuset_Size f + cpuset_Size x"
    unfolding t using fin f x by (intro cpuset_Size_Un) auto
  moreover have "cpuset_Size (c - f) = cpuset_Size c - cpuset_Size f"
    using fin f by (simp add: card_Int_Diff_int Int_absorb1)
  moreover have "cpuset_Size (c \<inter> p) \<le> cpuset_Size c" using fin by (intro cpuset_Size_mono) auto
  ultimately show "cpuset_Size t = max 0 (min n (cpuset_Size c))"
    using fs xs cpuset_Size_nonneg [of c] cpuset_Size_nonneg [of "c \<inter> p"] by (auto simp: max_def min_def)
  have "finite t" using fin f x t by (auto intro: finite_subset)
  then have "cpuset_Size f \<le> cpuset_Size (t \<inter> p)" using f t by (intro cpuset_Size_mono) auto
  then show "cpuset_Size (t \<inter> p) \<ge> max 0 (min n (cpuset_Size (c \<inter> p)))" using fs by simp
qed

interpretation take_from_alloc: cpu_allocator "\<lambda>c n. cpuset_TakeFrom c n preferred"
  for preferred
  by unfold_locales (fact cpuset_TakeFrom_alloc)+

text \<open>
  \<^verbatim>\<open>TakeFrom\<close>, the primitive of NUMA placement, exhausts the preferred zone before it
  spills over, and still takes exactly what was asked where the whole set has it.
\<close>

theorem cpuset_TakeFrom_correct:
  assumes "finite c" and "cpuset_TakeFrom c n preferred = (taken, rest)"
  shows "taken \<union> rest = c \<and> taken \<inter> rest = {} \<and>
    cpuset_Size taken = max 0 (min n (cpuset_Size c)) \<and>
    max 0 (min n (cpuset_Size (c \<inter> preferred))) \<le> cpuset_Size (taken \<inter> preferred)"
  using cpuset_TakeFrom_alloc [OF assms] by (intro conjI) simp_all

theorem cpuset_TakeFrom_correct_witness:
  "cpuset_TakeFrom {0, 1, 2, 3, 8, 9, 10, 11} 6 {8, 9, 10, 11, 12} = ({8, 9, 10, 11, 0, 1}, {2, 3}) \<and>
   4 \<le> cpuset_Size ({8, 9, 10, 11, 0, 1} \<inter> {8, 9, 10, 11, 12})"
proof -
  have t: "cpuset_TakeFrom {0, 1, 2, 3, 8, 9, 10, 11} 6 {8, 9, 10, 11, 12} = ({8, 9, 10, 11, 0, 1}, {2, 3})"
    by code_simp
  have "max 0 (min 6 (cpuset_Size ({0, 1, 2, 3, 8, 9, 10, 11} \<inter> {8, 9, 10, 11, 12}))) = 4"
    by code_simp
  with t cpuset_TakeFrom_correct [OF _ t] show ?thesis by simp
qed

end
