(* ===== verification/Cgroup.thy ===== *)
theory Cgroup
  imports CPUSet Go_Float
begin

text \<open>
  The cgroup v2 reader and writer (\<^verbatim>\<open>pkg/agent/cgroup/cgroup.go\<close>) over an explicit file
  system. Files are addressed by the absolute path the code builds with
  \<^verbatim>\<open>filepath.Join\<close>; whether the kernel accepts a write is a component of the state. No
  caller looks at which error a file operation returned, so \<^const>\<open>None\<close> is a non-nil
  error.
\<close>

section \<open>filepath\<close>

text \<open>
  \<^verbatim>\<open>filepath.Clean\<close> and \<^verbatim>\<open>filepath.Join\<close> of the standard library: empty and
  \<^verbatim>\<open>.\<close> elements go, \<^verbatim>\<open>..\<close> removes the element before it, and at the root it
  goes too.
\<close>

definition clean_step :: "bool \<Rightarrow> string \<Rightarrow> string list \<Rightarrow> string list" where
  "clean_step rooted e stack =
     (if e = [] \<or> e = ''.'' then stack
      else if e = ''..'' then
        (case stack of
           [] \<Rightarrow> if rooted then [] else [''..'']
         | s # rest \<Rightarrow> if s = ''..'' then ''..'' # stack else rest)
      else e # stack)"

definition clean_elems :: "bool \<Rightarrow> string \<Rightarrow> string list" where
  "clean_elems rooted p = rev (fold (clean_step rooted) (split_on CHR ''/'' p) [])"

definition filepath_Clean :: "string \<Rightarrow> string" where
  "filepath_Clean p =
     (if p = [] then ''.''
      else if hd p = CHR ''/'' then CHR ''/'' # join_on CHR ''/'' (clean_elems True p)
      else (let body = join_on CHR ''/'' (clean_elems False p) in if body = [] then ''.'' else body))"

definition filepath_Join :: "string list \<Rightarrow> string" where
  "filepath_Join es =
     (case dropWhile (\<lambda>e. e = []) es of [] \<Rightarrow> [] | es' \<Rightarrow> filepath_Clean (join_on CHR ''/'' es'))"

section \<open>The file system\<close>

text \<open>
  Files, directories, which writes the kernel accepts, and the writes performed so far in their order:
  a write of the content a file already has is one too.
\<close>

record os_fs =
  fs_files :: "string \<Rightarrow> string option"
  fs_dirs :: "string \<Rightarrow> (string \<times> bool) list option"
  fs_accepts :: "string \<Rightarrow> string \<Rightarrow> bool"
  fs_writes :: "(string \<times> string) list"

definition os_WriteFile :: "os_fs \<Rightarrow> string \<Rightarrow> string \<Rightarrow> os_fs option" where
  "os_WriteFile fs p text =
     (if fs_accepts fs p text then
        Some (fs\<lparr>fs_files := (fs_files fs)(p \<mapsto> text), fs_writes := fs_writes fs @ [(p, text)]\<rparr>)
      else None)"

text \<open>
  \<^verbatim>\<open>bufio.Scanner\<close> by lines: a final line break ends the last line, and a carriage
  return before a line break is dropped. The scanner's limit of 64 KB on a line is not
  modelled.
\<close>

definition drop_cr :: "string \<Rightarrow> string" where
  "drop_cr l = (if l \<noteq> [] \<and> last l = CHR 0x0D then butlast l else l)"

definition scan_lines :: "string \<Rightarrow> string list" where
  "scan_lines b =
     (let ls = split_on CHR 0x0A b in map drop_cr (if last ls = [] then butlast ls else ls))"

section \<open>Paths of a hierarchy\<close>

definition DefaultRoot :: string where "DefaultRoot = ''/sys/fs/cgroup''"

definition cgroup_New :: "string \<Rightarrow> string" where
  "cgroup_New base = (if base = [] then DefaultRoot else base)"

definition cg_Available :: "os_fs \<Rightarrow> string \<Rightarrow> bool" where
  "cg_Available fs base \<longleftrightarrow>
     (let p = filepath_Join [base, ''cgroup.controllers''] in fs_files fs p \<noteq> None \<or> fs_dirs fs p \<noteq> None)"

definition cg_path :: "string \<Rightarrow> string \<Rightarrow> string \<Rightarrow> string" where
  "cg_path base rel fname = filepath_Join [base, filepath_Clean (CHR ''/'' # rel), fname]"

definition cg_Exists :: "os_fs \<Rightarrow> string \<Rightarrow> string \<Rightarrow> bool" where
  "cg_Exists fs base rel \<longleftrightarrow> fs_dirs fs (filepath_Join [base, filepath_Clean (CHR ''/'' # rel)]) \<noteq> None"

definition cg_Controllers :: "os_fs \<Rightarrow> string \<Rightarrow> string \<Rightarrow> string list option" where
  "cg_Controllers fs base rel = map_option Go_Strings.fields (fs_files fs (cg_path base rel ''cgroup.controllers''))"

definition cg_ListChildren :: "os_fs \<Rightarrow> string \<Rightarrow> string \<Rightarrow> string list option" where
  "cg_ListChildren fs base rel =
     map_option (\<lambda>entries. map fst (filter snd entries))
       (fs_dirs fs (filepath_Join [base, filepath_Clean (CHR ''/'' # rel)]))"

section \<open>Reading\<close>

definition keyed_line :: "string \<Rightarrow> (string \<Rightarrow> int option) \<Rightarrow> (string \<Rightarrow> int option)" where
  "keyed_line line out =
     (case cut CHR '' '' (trim_space line) of (k, v, ok) \<Rightarrow>
        if \<not> ok then out
        else case parse_uint (trim_space v) of None \<Rightarrow> out | Some n \<Rightarrow> out(k \<mapsto> n))"

definition readKeyedFile :: "os_fs \<Rightarrow> string \<Rightarrow> (string \<Rightarrow> int option) option" where
  "readKeyedFile fs p =
     (case fs_files fs p of None \<Rightarrow> None | Some b \<Rightarrow> Some (fold keyed_line (scan_lines b) Map.empty))"

definition readUintFile :: "os_fs \<Rightarrow> string \<Rightarrow> int option" where
  "readUintFile fs p =
     (case fs_files fs p of
        None \<Rightarrow> None
      | Some b \<Rightarrow> (let s = trim_space b in if s = ''max'' then Some 0 else parse_uint s))"

text \<open>Reading a Go map: an absent key gives the zero value.\<close>

definition kv_get :: "('k \<Rightarrow> 'v option) \<Rightarrow> 'k \<Rightarrow> 'v \<Rightarrow> 'v" where
  "kv_get m k z = (case m k of None \<Rightarrow> z | Some v \<Rightarrow> v)"

record cpu_stat =
  cs_usage :: int
  cs_user :: int
  cs_system :: int
  cs_nr_periods :: int
  cs_nr_throttled :: int
  cs_throttled :: int

definition cg_CPUStat :: "os_fs \<Rightarrow> string \<Rightarrow> string \<Rightarrow> cpu_stat option" where
  "cg_CPUStat fs base rel =
     (case readKeyedFile fs (cg_path base rel ''cpu.stat'') of
        None \<Rightarrow> None
      | Some kv \<Rightarrow> Some \<lparr>cs_usage = kv_get kv ''usage_usec'' 0, cs_user = kv_get kv ''user_usec'' 0,
          cs_system = kv_get kv ''system_usec'' 0, cs_nr_periods = kv_get kv ''nr_periods'' 0,
          cs_nr_throttled = kv_get kv ''nr_throttled'' 0, cs_throttled = kv_get kv ''throttled_usec'' 0\<rparr>)"

record memory_stat =
  ms_current :: int
  ms_peak :: int
  ms_max :: int
  ms_anon :: int
  ms_file :: int
  ms_inactive_file :: int
  ms_slab :: int

definition Workload :: "memory_stat \<Rightarrow> int" where
  "Workload m =
     (if ms_anon m = 0 \<and> ms_slab m = 0 then ms_current m
      else (let active = (if ms_inactive_file m > ms_file m then 0 else u64 (ms_file m - ms_inactive_file m))
            in u64 (u64 (ms_anon m + ms_slab m) + active)))"

definition cg_MemoryStat :: "os_fs \<Rightarrow> string \<Rightarrow> string \<Rightarrow> memory_stat option" where
  "cg_MemoryStat fs base rel =
     (case readUintFile fs (cg_path base rel ''memory.current'') of
        None \<Rightarrow> None
      | Some cur \<Rightarrow>
        (let st0 = \<lparr>ms_current = cur, ms_peak = 0, ms_max = 0, ms_anon = 0, ms_file = 0,
                    ms_inactive_file = 0, ms_slab = 0\<rparr>;
             st1 = (case readUintFile fs (cg_path base rel ''memory.peak'') of
                      Some peak \<Rightarrow> st0\<lparr>ms_peak := peak\<rparr> | None \<Rightarrow> st0);
             st2 = (case fs_files fs (cg_path base rel ''memory.max'') of
                      None \<Rightarrow> st1
                    | Some raw \<Rightarrow>
                        (let s = trim_space raw
                         in if s \<noteq> ''max'' then (case parse_uint s of Some v \<Rightarrow> st1\<lparr>ms_max := v\<rparr> | None \<Rightarrow> st1)
                            else st1));
             st3 = (case readKeyedFile fs (cg_path base rel ''memory.stat'') of
                      None \<Rightarrow> st2
                    | Some kv \<Rightarrow> st2\<lparr>ms_anon := kv_get kv ''anon'' 0, ms_file := kv_get kv ''file'' 0,
                        ms_inactive_file := kv_get kv ''inactive_file'' 0, ms_slab := kv_get kv ''slab'' 0\<rparr>)
         in Some st3))"

section \<open>Pressure stall information\<close>

record psi =
  some_avg10 :: f64
  some_avg60 :: f64
  some_avg300 :: f64
  full_avg10 :: f64
  full_avg60 :: f64
  full_avg300 :: f64

definition no_psi :: psi where
  "no_psi = \<lparr>some_avg10 = 0, some_avg60 = 0, some_avg300 = 0, full_avg10 = 0, full_avg60 = 0, full_avg300 = 0\<rparr>"

text \<open>
  \<^verbatim>\<open>strconv.ParseFloat\<close> on decimal text: an optional sign, digits with an optional
  point and at least one digit. Exponents, hexadecimal floats, infinities and NaN, which the
  kernel does not print in a pressure file, are errors here.
\<close>

definition parse_decimal :: "string \<Rightarrow> rat option" where
  "parse_decimal s =
     (case cut CHR ''.'' s of (a, b, _) \<Rightarrow>
        if a = [] \<and> b = [] then None
        else (case (digits_val 0 a, digits_val 0 b) of
                (Some m, Some f) \<Rightarrow> Some (of_int m + of_int f / 10 ^ length b)
              | _ \<Rightarrow> None))"

definition parse_float :: "string \<Rightarrow> f64 option" where
  "parse_float s =
     (case s of
        [] \<Rightarrow> None
      | c # cs \<Rightarrow>
          if c = CHR ''-'' then map_option (\<lambda>r. fl (- r)) (parse_decimal cs)
          else map_option fl (parse_decimal (if c = CHR ''+'' then cs else s)))"

definition psi_pair :: "string \<Rightarrow> (string \<Rightarrow> f64 option) \<Rightarrow> (string \<Rightarrow> f64 option)" where
  "psi_pair kvp vals =
     (case cut CHR ''='' kvp of (k, v, ok) \<Rightarrow>
        if \<not> ok then vals
        else case parse_float v of None \<Rightarrow> vals | Some pv \<Rightarrow> vals(k \<mapsto> pv))"

definition psi_line :: "string \<Rightarrow> psi \<Rightarrow> psi" where
  "psi_line line p =
     (let fs = Go_Strings.fields line
      in if length fs < 4 then p
         else (let vals = fold psi_pair (tl fs) Map.empty
           in if hd fs = ''some'' then
                p\<lparr>some_avg10 := kv_get vals ''avg10'' 0, some_avg60 := kv_get vals ''avg60'' 0,
                  some_avg300 := kv_get vals ''avg300'' 0\<rparr>
              else if hd fs = ''full'' then
                p\<lparr>full_avg10 := kv_get vals ''avg10'' 0, full_avg60 := kv_get vals ''avg60'' 0,
                  full_avg300 := kv_get vals ''avg300'' 0\<rparr>
              else p))"

definition cg_Pressure :: "os_fs \<Rightarrow> string \<Rightarrow> string \<Rightarrow> string \<Rightarrow> psi option" where
  "cg_Pressure fs base rel controller =
     (case fs_files fs (cg_path base rel (controller @ ''.pressure'')) of
        None \<Rightarrow> None
      | Some b \<Rightarrow> Some (fold psi_line (scan_lines b) no_psi))"

section \<open>Controls\<close>

definition cg_CPUSetEffective :: "os_fs \<Rightarrow> string \<Rightarrow> string \<Rightarrow> string option" where
  "cg_CPUSetEffective fs base rel = map_option trim_space (fs_files fs (cg_path base rel ''cpuset.cpus.effective''))"

definition cg_CPUSetCPUs :: "os_fs \<Rightarrow> string \<Rightarrow> string \<Rightarrow> string option" where
  "cg_CPUSetCPUs fs base rel = map_option trim_space (fs_files fs (cg_path base rel ''cpuset.cpus''))"

definition cg_SetCPUSetCPUs :: "os_fs \<Rightarrow> string \<Rightarrow> string \<Rightarrow> string \<Rightarrow> os_fs option" where
  "cg_SetCPUSetCPUs fs base rel cpus = os_WriteFile fs (cg_path base rel ''cpuset.cpus'') cpus"

definition cg_SetCPUWeight :: "os_fs \<Rightarrow> string \<Rightarrow> string \<Rightarrow> int \<Rightarrow> os_fs option" where
  "cg_SetCPUWeight fs base rel weight =
     (let w1 = (if weight < 1 then 1 else weight);
          w2 = (if w1 > 10000 then 10000 else w1)
      in os_WriteFile fs (cg_path base rel ''cpu.weight'') (itoa w2))"

definition cg_CPUWeight :: "os_fs \<Rightarrow> string \<Rightarrow> string \<Rightarrow> int option" where
  "cg_CPUWeight fs base rel = readUintFile fs (cg_path base rel ''cpu.weight'')"

definition cg_SetCPUMax :: "os_fs \<Rightarrow> string \<Rightarrow> string \<Rightarrow> int \<Rightarrow> int \<Rightarrow> os_fs option" where
  "cg_SetCPUMax fs base rel quotaUsec periodUsec0 =
     (let periodUsec = (if periodUsec0 \<le> 0 then 100000 else periodUsec0);
          q = (if quotaUsec \<ge> 0 then itoa quotaUsec else ''max'')
      in os_WriteFile fs (cg_path base rel ''cpu.max'') (q @ '' '' @ itoa periodUsec))"

section \<open>No path leaves the hierarchy\<close>

definition plain_elem :: "string \<Rightarrow> bool" where
  "plain_elem e \<longleftrightarrow> e \<noteq> [] \<and> e \<noteq> ''.'' \<and> e \<noteq> ''..'' \<and> CHR ''/'' \<notin> set e"

lemma split_on_elems: "e \<in> set (split_on c s) \<Longrightarrow> c \<notin> set e"
  by (induction s arbitrary: e) (auto split: if_splits list.splits)

lemma split_on_append: "split_on c (a @ c # b) = split_on c a @ split_on c b"
  by (induction a) (auto split: list.splits)

lemma clean_step_plain: "plain_elem e \<Longrightarrow> clean_step r e st = e # st"
  by (simp add: clean_step_def plain_elem_def)

lemma clean_fold_plain: "\<forall>e \<in> set es. plain_elem e \<Longrightarrow> fold (clean_step r) es st = rev es @ st"
  by (induction es arbitrary: st) (simp_all add: clean_step_plain)

lemma clean_step_keeps:
  "\<forall>s \<in> set st. plain_elem s \<Longrightarrow> CHR ''/'' \<notin> set e \<Longrightarrow> \<forall>s \<in> set (clean_step True e st). plain_elem s"
  by (cases "e = [] \<or> e = ''.''"; cases "e = ''..''"; cases st)
    (auto simp: clean_step_def plain_elem_def [of e] plain_elem_def [of "''..''"])

lemma clean_elems_plain: "\<forall>s \<in> set (clean_elems True p). plain_elem s"
proof -
  have keeps: "\<forall>s \<in> set (fold (clean_step True) es st). plain_elem s"
    if "\<forall>s \<in> set st. plain_elem s" "\<forall>e \<in> set es. CHR ''/'' \<notin> set e" for es st
    using that
  proof (induction es arbitrary: st)
    case (Cons e es)
    then show ?case using clean_step_keeps [of st e] by simp
  qed simp
  have "\<forall>e \<in> set (split_on CHR ''/'' p). CHR ''/'' \<notin> set e" using split_on_elems by blast
  from keeps [OF _ this, of "[]"] show ?thesis unfolding clean_elems_def by simp
qed

lemma filepath_Clean_rooted: "filepath_Clean (CHR ''/'' # p) = CHR ''/'' # join_on CHR ''/'' (clean_elems True p)"
  by (simp add: filepath_Clean_def clean_elems_def clean_step_def)

text \<open>The elements of a cleaned relative path, and of a path built below a clean root.\<close>

definition rel_elems :: "string \<Rightarrow> string list" where
  "rel_elems rel = clean_elems True rel"

definition clean_root :: "string list \<Rightarrow> string \<Rightarrow> bool" where
  "clean_root es base \<longleftrightarrow> es \<noteq> [] \<and> (\<forall>e \<in> set es. plain_elem e) \<and> base = CHR ''/'' # join_on CHR ''/'' es"

lemma clean_elems_below:
  assumes "clean_root es base" and "plain_elem fname"
  shows "clean_elems True (join_on CHR ''/'' es @ CHR ''/'' # filepath_Clean (CHR ''/'' # rel) @ CHR ''/'' # fname)
    = es @ rel_elems rel @ [fname]"
proof -
  have es: "es \<noteq> []" "\<forall>e \<in> set es. plain_elem e" using assms(1) by (simp_all add: clean_root_def)
  then have s1: "split_on CHR ''/'' (join_on CHR ''/'' es) = es" by (intro split_on_join) (auto simp: plain_elem_def)
  have s3: "split_on CHR ''/'' fname = [fname]" using assms(2) by (simp add: split_on_no_sep plain_elem_def)
  let ?r = "rel_elems rel"
  have r: "\<forall>e \<in> set ?r. plain_elem e" unfolding rel_elems_def by (rule clean_elems_plain)
  have s2: "split_on CHR ''/'' (filepath_Clean (CHR ''/'' # rel)) = [] # (if ?r = [] then [[]] else ?r)"
    unfolding filepath_Clean_rooted rel_elems_def [symmetric] using r
    by (simp add: split_on_join plain_elem_def)
  have k: "fold (clean_step True) (if ?r = [] then [[]] else ?r) st = rev ?r @ st" for st
    using r by (simp add: clean_fold_plain clean_step_def)
  show ?thesis
    unfolding clean_elems_def split_on_append s1 s2 s3 using es(2) assms(2) k
    by (simp add: clean_fold_plain clean_step_plain) (simp add: clean_step_def clean_step_plain assms(2))
qed

lemma cg_path_elems:
  assumes "clean_root es base" and "plain_elem fname"
  shows "cg_path base rel fname = CHR ''/'' # join_on CHR ''/'' (es @ rel_elems rel @ [fname])"
proof -
  have "base \<noteq> []" and b: "base = CHR ''/'' # join_on CHR ''/'' es" using assms(1) by (simp_all add: clean_root_def)
  then have "cg_path base rel fname
      = filepath_Clean (CHR ''/'' # join_on CHR ''/'' es @ CHR ''/'' # filepath_Clean (CHR ''/'' # rel) @ CHR ''/'' # fname)"
    by (simp add: cg_path_def filepath_Join_def)
  then show ?thesis unfolding filepath_Clean_rooted [of "join_on _ _ @ _"] by (simp only: clean_elems_below [OF assms])
qed

text \<open>
  Whatever relative path it is handed, \<^verbatim>\<open>..\<close> elements included, the path of a
  control file lies under the hierarchy's root and ends in the file's name.
\<close>

theorem cg_path_confined:
  assumes "clean_root es base" and "plain_elem fname"
  shows "\<exists>below. (\<forall>e \<in> set below. plain_elem e) \<and>
    cg_path base rel fname = base @ concat (map (\<lambda>e. CHR ''/'' # e) (below @ [fname]))"
proof -
  have j: "join_on CHR ''/'' (x # ys) = x @ concat (map (\<lambda>e. CHR ''/'' # e) ys)" for x ys
    by (induction ys arbitrary: x) simp_all
  have es: "es \<noteq> []" "base = CHR ''/'' # join_on CHR ''/'' es" using assms(1) by (simp_all add: clean_root_def)
  then obtain x xs where x: "es = x # xs" by (cases es) simp_all
  have "cg_path base rel fname = base @ concat (map (\<lambda>e. CHR ''/'' # e) (rel_elems rel @ [fname]))"
    unfolding cg_path_elems [OF assms] using es(2) by (simp add: x j)
  moreover have "\<forall>e \<in> set (rel_elems rel). plain_elem e" unfolding rel_elems_def by (rule clean_elems_plain)
  ultimately show ?thesis by blast
qed

theorem cg_path_confined_witness:
  "\<exists>below. cg_path ''/sys/fs/cgroup'' ''../../etc/./x/..'' ''cpu.max''
     = ''/sys/fs/cgroup'' @ concat (map (\<lambda>e. CHR ''/'' # e) (below @ [''cpu.max'']))"
proof -
  have "clean_root [''sys'', ''fs'', ''cgroup''] ''/sys/fs/cgroup''" "plain_elem ''cpu.max''" by code_simp+
  from cg_path_confined [OF this] show ?thesis by blast
qed

section \<open>Reading back what is written\<close>

lemma os_WriteFile_read:
  "os_WriteFile fs p text = Some fs' \<Longrightarrow> fs_files fs' p = Some text"
  by (auto simp: os_WriteFile_def split: if_splits)

lemma parse_uint_itoa: "0 \<le> n \<Longrightarrow> n < 2 ^ 64 \<Longrightarrow> parse_uint (itoa n) = Some n"
  using digits_val_nat_str [of "nat n"] by (simp add: parse_uint_def itoa_def)

lemma itoa_not_max: "0 \<le> n \<Longrightarrow> itoa n \<noteq> ''max''"
proof
  assume "0 \<le> n" and m: "itoa n = ''max''"
  then have "is_digit CHR ''m''" using itoa_digits [of n "CHR ''m''"] by simp
  then show False by (simp add: is_digit_def digit_val_def)
qed

lemma readUintFile_itoa:
  "fs_files fs p = Some (itoa n) \<Longrightarrow> 0 \<le> n \<Longrightarrow> n < 2 ^ 64 \<Longrightarrow> readUintFile fs p = Some n"
  by (simp add: readUintFile_def trim_space_itoa itoa_not_max parse_uint_itoa)

text \<open>
  Controls round trip through the files: a weight the kernel accepted reads back as the
  weight clamped to the kernel's range, and a CPU set written with \<^verbatim>\<open>String\<close> reads
  back, through \<^verbatim>\<open>Parse\<close>, as the same set.
\<close>

theorem controls_read_back:
  assumes "cg_SetCPUWeight fs base rel w = Some fs1"
    and "finite c" "\<forall>i \<in> c. 0 \<le> i \<and> i < max_i64"
    and "cg_SetCPUSetCPUs fs base rel (cpuset_String c) = Some fs2"
  shows "cg_CPUWeight fs1 base rel = Some (max 1 (min 10000 w)) \<and>
    (\<exists>t. cg_CPUSetCPUs fs2 base rel = Some t \<and> cpuset_Parse t = Some (Inr c))"
proof
  let ?w = "max 1 (min 10000 w)"
  have "os_WriteFile fs (cg_path base rel ''cpu.weight'') (itoa ?w) = Some fs1"
    using assms(1) by (auto simp: cg_SetCPUWeight_def Let_def max_def min_def split: if_splits)
  from os_WriteFile_read [OF this] show "cg_CPUWeight fs1 base rel = Some ?w"
    unfolding cg_CPUWeight_def by (rule readUintFile_itoa) auto
  have "fs_files fs2 (cg_path base rel ''cpuset.cpus'') = Some (cpuset_String c)"
    using assms(4) unfolding cg_SetCPUSetCPUs_def by (rule os_WriteFile_read)
  moreover have "cpuset_Parse (trim_space (cpuset_String c)) = cpuset_Parse (cpuset_String c)"
    by (rule parse_trim) (rule trim_space_idem)
  ultimately show "\<exists>t. cg_CPUSetCPUs fs2 base rel = Some t \<and> cpuset_Parse t = Some (Inr c)"
    using parse_printed [OF assms(2,3)] by (simp add: cg_CPUSetCPUs_def)
qed

definition accepting_fs :: os_fs where
  "accepting_fs = \<lparr>fs_files = Map.empty, fs_dirs = Map.empty, fs_accepts = (\<lambda>_ _. True), fs_writes = []\<rparr>"

theorem controls_read_back_witness:
  "cg_CPUWeight (the (cg_SetCPUWeight accepting_fs ''/cg'' ''kubepods/pod1'' 20000)) ''/cg'' ''kubepods/pod1'' = Some 10000 \<and>
   (\<exists>t. cg_CPUSetCPUs (the (cg_SetCPUSetCPUs accepting_fs ''/cg'' ''kubepods/pod1'' (cpuset_String {0, 1, 2, 5})))
      ''/cg'' ''kubepods/pod1'' = Some t \<and> cpuset_Parse t = Some (Inr {0, 1, 2, 5}))"
  using controls_read_back [of accepting_fs "''/cg''" "''kubepods/pod1''" 20000
      "the (cg_SetCPUWeight accepting_fs ''/cg'' ''kubepods/pod1'' 20000)" "{0, 1, 2, 5}"
      "the (cg_SetCPUSetCPUs accepting_fs ''/cg'' ''kubepods/pod1'' (cpuset_String {0, 1, 2, 5}))"]
  by (simp add: cg_SetCPUWeight_def cg_SetCPUSetCPUs_def os_WriteFile_def accepting_fs_def max_i64_def)

section \<open>Keyed files\<close>

text \<open>
  The lines of a keyed file: an entry, or a line the kernel added in a format the reader does
  not know, which has no separator.
\<close>

datatype keyed = Entry string int | Noise string

fun keyed_text :: "keyed \<Rightarrow> string" where
  "keyed_text (Entry k n) = k @ CHR '' '' # itoa n"
| "keyed_text (Noise t) = t"

fun keyed_entry :: "keyed \<Rightarrow> (string \<times> int) list" where
  "keyed_entry (Entry k n) = [(k, n)]"
| "keyed_entry (Noise t) = []"

fun keyed_ok :: "keyed \<Rightarrow> bool" where
  "keyed_ok (Entry k n) = (k \<noteq> [] \<and> (\<forall>c \<in> set k. \<not> is_space c) \<and> 0 \<le> n \<and> n < 2 ^ 64)"
| "keyed_ok (Noise t) = (\<forall>c \<in> set t. \<not> is_space c)"

lemma scan_lines_concat:
  assumes "\<forall>l \<in> set ls. CHR 0x0A \<notin> set l \<and> CHR 0x0D \<notin> set l"
  shows "scan_lines (concat (map (\<lambda>l. l @ [CHR 0x0A]) ls)) = ls"
proof -
  have "split_on CHR 0x0A (concat (map (\<lambda>l. l @ [CHR 0x0A]) ls)) = ls @ [[]]"
    using assms by (induction ls) (simp_all add: split_on_append_sep)
  moreover have "map drop_cr ls = ls"
    using assms by (intro map_idI) (metis drop_cr_def last_in_set)
  ultimately show ?thesis by (simp add: scan_lines_def)
qed

lemma digit_not_blank: "is_digit c \<Longrightarrow> c \<noteq> CHR '' '' \<and> \<not> is_space c"
  using is_digit_not_space [of c] by (auto simp: is_space_def)

lemma keyed_line_text:
  assumes "keyed_ok l"
  shows "keyed_line (keyed_text l) m = fold (\<lambda>(k, n) m. m(k \<mapsto> n)) (keyed_entry l) m"
proof (cases l)
  case (Entry k n)
  with assms have k: "k \<noteq> []" "\<forall>c \<in> set k. \<not> is_space c" "0 \<le> n" "n < 2 ^ 64" by simp_all
  have dig: "\<forall>c \<in> set (itoa n). is_digit c" using itoa_digits k(3) by blast
  have "\<not> is_space (hd (k @ CHR '' '' # itoa n))" using k by simp
  moreover have "\<not> is_space (last (k @ CHR '' '' # itoa n))" using dig digit_not_blank by simp
  ultimately have "trim_space (k @ CHR '' '' # itoa n) = k @ CHR '' '' # itoa n"
    by (intro trim_space_id) simp
  moreover have "CHR '' '' \<notin> set k" using k(2) by (auto simp: is_space_def)
  ultimately show ?thesis
    using Entry k by (simp add: keyed_line_def cut_append_sep trim_space_itoa parse_uint_itoa)
next
  case (Noise t)
  with assms have t: "\<forall>c \<in> set t. \<not> is_space c" by simp
  then have "CHR '' '' \<notin> set t" by (auto simp: is_space_def)
  with Noise t show ?thesis by (simp add: keyed_line_def trim_space_no_space cut_no_sep)
qed

lemma keyed_text_lines: "keyed_ok l \<Longrightarrow> CHR 0x0A \<notin> set (keyed_text l) \<and> CHR 0x0D \<notin> set (keyed_text l)"
proof (cases l)
  case (Entry k n)
  assume "keyed_ok l"
  with Entry have "\<forall>c \<in> set k. \<not> is_space c" "0 \<le> n" by simp_all
  moreover have "\<forall>c \<in> set (itoa n). \<not> is_space c" using calculation(2) itoa_digits digit_not_blank by blast
  ultimately show ?thesis using Entry by (auto simp: is_space_def)
qed (auto simp: is_space_def)

text \<open>
  A keyed file reads as the map of its entries, the last one winning, and the lines in
  an unknown format are skipped rather than failing the read.
\<close>

theorem readKeyedFile_entries:
  assumes "\<forall>l \<in> set ls. keyed_ok l"
    and "fs_files fs p = Some (concat (map (\<lambda>l. keyed_text l @ [CHR 0x0A]) ls))"
  shows "readKeyedFile fs p = Some (map_of (rev (concat (map keyed_entry ls))))"
proof -
  have "scan_lines (concat (map (\<lambda>l. l @ [CHR 0x0A]) (map keyed_text ls))) = map keyed_text ls"
    by (rule scan_lines_concat) (use assms(1) keyed_text_lines in auto)
  then have lines: "scan_lines (concat (map (\<lambda>l. keyed_text l @ [CHR 0x0A]) ls)) = map keyed_text ls"
    by (simp add: o_def)
  have "fold keyed_line (map keyed_text ls) m = fold (\<lambda>(k, n) m. m(k \<mapsto> n)) (concat (map keyed_entry ls)) m" for m
    using assms(1) by (induction ls arbitrary: m) (simp_all add: keyed_line_text)
  moreover have "fold (\<lambda>(k, n) m. m(k \<mapsto> n)) es m = m ++ map_of (rev es)" for es :: "(string \<times> int) list" and m
    by (induction es arbitrary: m) (auto simp: map_add_def fun_eq_iff split: option.splits)
  ultimately show ?thesis using assms(2) lines by (simp add: readKeyedFile_def)
qed

theorem readKeyedFile_entries_witness:
  "readKeyedFile (accepting_fs\<lparr>fs_files := [''/s'' \<mapsto> ''usage_usec 12'' @ [CHR 0x0A] @ ''core_sched'' @ [CHR 0x0A]]\<rparr>) ''/s''
     = Some [''usage_usec'' \<mapsto> 12]"
proof -
  have t: "itoa 12 = ''12''" by code_simp
  show ?thesis
    using readKeyedFile_entries [of "[Entry ''usage_usec'' 12, Noise ''core_sched'']"
      "accepting_fs\<lparr>fs_files := [''/s'' \<mapsto> ''usage_usec 12'' @ [CHR 0x0A] @ ''core_sched'' @ [CHR 0x0A]]\<rparr>" "''/s''"]
    by (simp add: t is_space_def)
qed

section \<open>Workload memory\<close>

lemma Workload_bounds:
  assumes "0 \<le> ms_anon m" "0 \<le> ms_slab m" "0 \<le> ms_inactive_file m" "0 \<le> ms_current m"
    and "0 \<le> ms_file m" "ms_anon m + ms_slab m + ms_file m < 2 ^ 64"
  shows "Workload m =
    (if ms_anon m = 0 \<and> ms_slab m = 0 then ms_current m
     else ms_anon m + ms_slab m + max 0 (ms_file m - ms_inactive_file m))"
  using assms by (auto simp: Workload_def Let_def u64_def)

end
