(* ===== verification/Resolver.thy ===== *)
theory Resolver
  imports Cgroup "HOL-Library.Multiset"
begin

text \<open>
  Finding a pod's cgroup (\<^verbatim>\<open>pkg/agent/cgroup/resolver.go\<close>): a breadth-first search of
  bounded depth over the directories of the hierarchy, behind a cache. The locks only
  serialise access, so the resolver is a state that each operation returns updated.
\<close>

section \<open>The search\<close>

type_synonym search_item = "string \<times> nat"

text \<open>The loop over one directory's entries: a hit ends the search, otherwise the queue grows.\<close>

fun scan_entries ::
  "(string \<Rightarrow> bool) \<Rightarrow> nat \<Rightarrow> string \<Rightarrow> nat \<Rightarrow> (string \<times> bool) list \<Rightarrow> search_item list \<Rightarrow> string + search_item list"
where
  "scan_entries mt maxDepth rel depth [] queue = Inr queue"
| "scan_entries mt maxDepth rel depth ((name, isDir) # es) queue =
     (if \<not> isDir then scan_entries mt maxDepth rel depth es queue
      else if mt name then Inl (filepath_Join [rel, name])
      else scan_entries mt maxDepth rel depth es
             (if depth + 1 < maxDepth then queue @ [(filepath_Join [rel, name], depth + 1)] else queue))"

definition child_dirs :: "nat \<Rightarrow> string \<Rightarrow> nat \<Rightarrow> (string \<times> bool) list \<Rightarrow> search_item list" where
  "child_dirs maxDepth rel depth es =
     (if depth + 1 < maxDepth then map (\<lambda>e. (filepath_Join [rel, fst e], depth + 1)) (filter snd es) else [])"

lemma scan_entries_eq:
  "scan_entries mt D rel d es q =
     (case filter (\<lambda>e. snd e \<and> mt (fst e)) es of
        [] \<Rightarrow> Inr (q @ child_dirs D rel d es)
      | e # _ \<Rightarrow> Inl (filepath_Join [rel, fst e]))"
  by (induction mt D rel d es q rule: scan_entries.induct) (auto simp: child_dirs_def split: list.splits)

lemma scan_entries_queue:
  "scan_entries mt D rel d es q = Inr q' \<Longrightarrow> q' = q @ child_dirs D rel d es"
  by (simp add: scan_entries_eq split: list.splits)

lemma child_dirs_smaller:
  "(mset (map (\<lambda>i. D - snd i) (q @ child_dirs D rel d es)), mset (map (\<lambda>i. D - snd i) ((rel, d) # q))) \<in> mult less_than"
proof -
  have "\<forall>k \<in># mset (map (\<lambda>i. D - snd i) (child_dirs D rel d es)). \<exists>j \<in># {#D - d#}. (k, j) \<in> less_than"
    by (auto simp: child_dirs_def)
  from one_step_implies_mult [OF _ this, of "mset (map (\<lambda>i. D - snd i) q)"]
  show ?thesis by simp
qed

lemma drop_smaller:
  "(mset (map (\<lambda>i. D - snd i) q), mset (map (\<lambda>i. D - snd i) (i # q))) \<in> mult less_than"
  using one_step_implies_mult [of "{#D - snd i#}" "{#}" less_than "mset (map (\<lambda>i. D - snd i) q)"] by simp

text \<open>
  The queue loses its first item and gains items one level deeper, so the multiset of the
  depths still allowed below each item decreases.
\<close>

function bfs :: "os_fs \<Rightarrow> string \<Rightarrow> (string \<Rightarrow> bool) \<Rightarrow> nat \<Rightarrow> search_item list \<Rightarrow> string" where
  "bfs fs base mt maxDepth [] = []"
| "bfs fs base mt maxDepth ((rel, depth) # queue) =
     (case fs_dirs fs (filepath_Join [base, rel]) of
        None \<Rightarrow> bfs fs base mt maxDepth queue
      | Some es \<Rightarrow>
          (case scan_entries mt maxDepth rel depth es queue of
             Inl found \<Rightarrow> found
           | Inr queue' \<Rightarrow> bfs fs base mt maxDepth queue'))"
  by pat_completeness auto
termination
proof (relation "inv_image (mult less_than) (\<lambda>(fs, base, mt, D, q). mset (map (\<lambda>i. D - snd i) q))")
  show "wf (inv_image (mult less_than) (\<lambda>(fs, base, mt, D, q). mset (map (\<lambda>i. D - snd i) (q :: search_item list))))"
    by (intro wf_inv_image wf_mult) simp
qed (auto simp: drop_smaller dest!: scan_entries_queue intro: child_dirs_smaller simp del: list.map mset_map map_append)

declare bfs.simps(2) [simp del]

section \<open>The resolver\<close>

record resolver =
  r_base :: string
  r_max_depth :: nat
  r_cache :: "string \<Rightarrow> string option"
  r_kubepods :: "string option"

definition NewResolver :: "string \<Rightarrow> resolver" where
  "NewResolver base = \<lparr>r_base = base, r_max_depth = 6, r_cache = Map.empty, r_kubepods = None\<rparr>"

definition resolver_search :: "os_fs \<Rightarrow> resolver \<Rightarrow> (string \<Rightarrow> bool) \<Rightarrow> string" where
  "resolver_search fs r mt = bfs fs (r_base r) mt (r_max_depth r) [([], 0)]"

definition normalizeUID :: "string \<Rightarrow> string" where
  "normalizeUID uid = replace_all CHR ''-'' CHR ''_'' uid"

definition pod_match :: "string \<Rightarrow> string \<Rightarrow> bool" where
  "pod_match uid name \<longleftrightarrow> str_contains name (''pod'' @ uid) \<or> str_contains name (''pod'' @ normalizeUID uid)"

text \<open>\<^const>\<open>None\<close> is the error "no cgroup found"; the search itself returns none.\<close>

definition find_pod :: "os_fs \<Rightarrow> resolver \<Rightarrow> string \<Rightarrow> string option \<times> resolver" where
  "find_pod fs r uid =
     (let found = resolver_search fs r (pod_match uid)
      in if found = [] then (None, r) else (Some found, r\<lparr>r_cache := (r_cache r)(uid \<mapsto> found)\<rparr>))"

definition PodPath :: "os_fs \<Rightarrow> resolver \<Rightarrow> string \<Rightarrow> string option \<times> resolver" where
  "PodPath fs r uid =
     (case r_cache r uid of
        Some p \<Rightarrow> if cg_Exists fs (r_base r) p then (Some p, r)
                  else find_pod fs (r\<lparr>r_cache := (r_cache r)(uid := None)\<rparr>) uid
      | None \<Rightarrow> find_pod fs r uid)"

definition ContainerPaths :: "os_fs \<Rightarrow> resolver \<Rightarrow> string \<Rightarrow> string list option \<times> resolver" where
  "ContainerPaths fs r uid =
     (case PodPath fs r uid of
        (None, r') \<Rightarrow> (None, r')
      | (Some p, r') \<Rightarrow>
          (map_option (map (\<lambda>c. filepath_Join [p, c])) (cg_ListChildren fs (r_base r') p), r'))"

definition kubepods_match :: "string \<Rightarrow> bool" where
  "kubepods_match name \<longleftrightarrow> name = ''kubepods'' \<or> name = ''kubepods.slice'' \<or> name = ''kubelet-kubepods.slice''"

text \<open>\<^verbatim>\<open>sync.Once\<close>: the first call's result, the empty one included, is kept for good.\<close>

definition KubepodsPath :: "os_fs \<Rightarrow> resolver \<Rightarrow> string \<times> resolver" where
  "KubepodsPath fs r =
     (case r_kubepods r of
        Some p \<Rightarrow> (p, r)
      | None \<Rightarrow> (let found = resolver_search fs r kubepods_match in (found, r\<lparr>r_kubepods := Some found\<rparr>)))"

definition resolver_Forget :: "resolver \<Rightarrow> string \<Rightarrow> resolver" where
  "resolver_Forget r uid = r\<lparr>r_cache := (r_cache r)(uid := None)\<rparr>"

definition CachedCount :: "resolver \<Rightarrow> nat" where
  "CachedCount r = card (dom (r_cache r))"

section \<open>The search is complete and finds the shallowest match\<close>

text \<open>The directories the search visits, with their depths.\<close>

inductive below :: "os_fs \<Rightarrow> string \<Rightarrow> nat \<Rightarrow> search_item \<Rightarrow> search_item \<Rightarrow> bool"
  for fs base D where
  below_refl: "below fs base D i i"
| below_step: "fs_dirs fs (filepath_Join [base, rel]) = Some es \<Longrightarrow> j \<in> set (child_dirs D rel d es) \<Longrightarrow>
    below fs base D j k \<Longrightarrow> below fs base D (rel, d) k"

definition hit :: "os_fs \<Rightarrow> string \<Rightarrow> (string \<Rightarrow> bool) \<Rightarrow> search_item \<Rightarrow> string \<Rightarrow> bool" where
  "hit fs base mt i name \<longleftrightarrow>
     (case fs_dirs fs (filepath_Join [base, fst i]) of None \<Rightarrow> False | Some es \<Rightarrow> (name, True) \<in> set es \<and> mt name)"

lemma below_depth: "below fs base D i k \<Longrightarrow> snd i \<le> snd k"
  by (induction rule: below.induct) (auto simp: child_dirs_def split: if_splits)

lemma filter_dirs_Nil: "filter (\<lambda>e. snd e \<and> mt (fst e)) es = [] \<longleftrightarrow> (\<forall>name. (name, True) \<in> set es \<longrightarrow> \<not> mt name)"
  by (force simp: filter_empty_conv)

definition level_sorted :: "search_item list \<Rightarrow> bool" where
  "level_sorted q \<longleftrightarrow> sorted (map snd q) \<and> (q \<noteq> [] \<longrightarrow> snd (last q) \<le> snd (hd q) + 1)"

lemma level_sorted_tl: "level_sorted (i # q) \<Longrightarrow> level_sorted q"
  by (cases q) (auto simp: level_sorted_def)

lemma level_sorted_hd: "level_sorted (i # q) \<Longrightarrow> j \<in> set q \<Longrightarrow> snd i \<le> snd j \<and> snd j \<le> snd i + 1"
proof -
  assume s: "level_sorted (i # q)" and j: "j \<in> set q"
  have "snd j \<le> snd (last q)"
  proof -
    from j obtain n where n: "n < length q" "q ! n = j" by (auto simp: in_set_conv_nth)
    have "map snd q ! n \<le> map snd q ! (length q - 1)"
      using s n by (intro sorted_nth_mono) (auto simp: level_sorted_def)
    moreover have "q \<noteq> []" using j by auto
    ultimately show ?thesis using n by (simp add: last_conv_nth)
  qed
  then show ?thesis using s j by (cases "q = []") (auto simp: level_sorted_def)
qed

lemma level_sorted_next:
  assumes "level_sorted ((rel, d) # q)"
  shows "level_sorted (q @ child_dirs D rel d es)"
proof -
  note h = level_sorted_hd [OF assms]
  have c: "\<forall>k \<in> set (child_dirs D rel d es). snd k = d + 1" by (auto simp: child_dirs_def)
  have "sorted (map snd (child_dirs D rel d es))"
    by (auto simp: child_dirs_def sorted_iff_nth_mono)
  moreover have "sorted (map snd q)" using assms by (simp add: level_sorted_def)
  moreover have "\<forall>x \<in> set (map snd q). \<forall>y \<in> set (map snd (child_dirs D rel d es)). x \<le> y"
    using h c by fastforce
  ultimately have "sorted (map snd (q @ child_dirs D rel d es))" by (simp add: sorted_append)
  moreover have "snd k \<le> d + 1 \<and> d \<le> snd k" if "k \<in> set (q @ child_dirs D rel d es)" for k
    using that h c by fastforce
  then have "snd (last (q @ child_dirs D rel d es)) \<le> snd (hd (q @ child_dirs D rel d es)) + 1"
    if "q @ child_dirs D rel d es \<noteq> []"
    using that by (meson add_mono_thms_linordered_semiring(3) hd_in_set last_in_set le_trans)
  ultimately show ?thesis by (simp add: level_sorted_def)
qed

definition named_entries :: "os_fs \<Rightarrow> bool" where
  "named_entries fs \<longleftrightarrow> (\<forall>p es. fs_dirs fs p = Some es \<longrightarrow> (\<forall>e \<in> set es. fst e \<noteq> []))"

lemma filepath_Join_nonempty: "name \<noteq> [] \<Longrightarrow> filepath_Join [rel, name] \<noteq> []"
  by (auto simp: filepath_Join_def filepath_Clean_def Let_def)

lemma bfs_step:
  "bfs fs base mt D ((rel, d) # q) =
     (case fs_dirs fs (filepath_Join [base, rel]) of
        None \<Rightarrow> bfs fs base mt D q
      | Some es \<Rightarrow>
          (case filter (\<lambda>e. snd e \<and> mt (fst e)) es of
             [] \<Rightarrow> bfs fs base mt D (q @ child_dirs D rel d es)
           | e # _ \<Rightarrow> filepath_Join [rel, fst e]))"
  by (auto simp: bfs.simps(2) scan_entries_eq split: option.splits list.splits)

lemma bfs_queue_induct [case_names Empty Unreadable Descend Hit]:
  fixes fs :: os_fs
  assumes "P []"
    and "\<And>rel d q. fs_dirs fs (filepath_Join [base, rel]) = None \<Longrightarrow> P q \<Longrightarrow> P ((rel, d) # q)"
    and "\<And>rel d q es. fs_dirs fs (filepath_Join [base, rel]) = Some es \<Longrightarrow>
      filter (\<lambda>e. snd e \<and> mt (fst e)) es = [] \<Longrightarrow> P (q @ child_dirs D rel d es) \<Longrightarrow> P ((rel, d) # q)"
    and "\<And>rel d q es e es'. fs_dirs fs (filepath_Join [base, rel]) = Some es \<Longrightarrow>
      filter (\<lambda>e. snd e \<and> mt (fst e)) es = e # es' \<Longrightarrow> P ((rel, d) # q)"
  shows "P q"
  using assms
proof (induction fs base mt D q rule: bfs.induct)
  case (2 fs base mt D rel d q)
  show ?case
  proof (cases "fs_dirs fs (filepath_Join [base, rel])")
    case None
    have "P q" by (rule "2.IH"(1) [OF None]) (fact "2.prems")+
    then show ?thesis by (rule "2.prems"(2) [OF None])
  next
    case (Some es)
    show ?thesis
    proof (cases "filter (\<lambda>e. snd e \<and> mt (fst e)) es")
      case Nil
      then have sc: "scan_entries mt D rel d es q = Inr (q @ child_dirs D rel d es)" by (simp add: scan_entries_eq)
      have "P (q @ child_dirs D rel d es)"
        by (rule "2.IH"(2) [OF Some sc]) (fact "2.prems")+
      then show ?thesis by (rule "2.prems"(3) [OF Some Nil])
    qed (rule "2.prems"(4) [OF Some])
  qed
qed

lemma below_first:
  assumes "below fs base D (rel, d) k"
  shows "k = (rel, d) \<or>
    (\<exists>es. fs_dirs fs (filepath_Join [base, rel]) = Some es \<and> (\<exists>j \<in> set (child_dirs D rel d es). below fs base D j k))"
  using assms by (cases rule: below.cases) auto

lemma no_hit_unreadable:
  "fs_dirs fs (filepath_Join [base, rel]) = None \<Longrightarrow> below fs base D (rel, d) k \<Longrightarrow> \<not> hit fs base mt k name"
  by (drule below_first) (auto simp: hit_def)

lemma no_hit_below:
  assumes "fs_dirs fs (filepath_Join [base, rel]) = Some es"
    and "filter (\<lambda>e. snd e \<and> mt (fst e)) es = []"
    and "below fs base D (rel, d) k" "hit fs base mt k name"
  shows "\<exists>j \<in> set (child_dirs D rel d es). below fs base D j k"
proof -
  have "\<not> hit fs base mt (rel, d) name" using assms(1,2) unfolding filter_dirs_Nil by (simp add: hit_def)
  with assms(4) have "k \<noteq> (rel, d)" by blast
  with below_first [OF assms(3)] assms(1) show ?thesis by auto
qed

lemma bfs_complete:
  assumes "named_entries fs"
  shows "bfs fs base mt D q = [] \<Longrightarrow> i \<in> set q \<Longrightarrow> below fs base D i k \<Longrightarrow> \<not> hit fs base mt k name"
proof (induction q arbitrary: i rule: bfs_queue_induct [where fs = fs and base = base and mt = mt and D = D])
  case (Unreadable rel d q)
  then have "bfs fs base mt D q = []" by (simp add: bfs_step)
  with Unreadable(2,4,5) no_hit_unreadable [OF Unreadable(1), of D d k mt name] show ?case
    by (cases "i = (rel, d)") auto
next
  case (Descend rel d q es)
  then have b: "bfs fs base mt D (q @ child_dirs D rel d es) = []" by (simp add: bfs_step)
  show ?case
  proof (cases "i = (rel, d)")
    case True
    then show ?thesis using no_hit_below [OF Descend(1,2)] Descend(3) [OF b] Descend(6) by (metis Un_iff set_append)
  next
    case False
    then show ?thesis using Descend(3) [OF b, of i] Descend(5,6) by simp
  qed
next
  case (Hit rel d q es e es')
  have "e \<in> set (filter (\<lambda>e. snd e \<and> mt (fst e)) es)" unfolding Hit(2) by simp
  then have "fst e \<noteq> []" using assms Hit(1) unfolding named_entries_def by simp
  with Hit show ?case by (simp add: bfs_step filepath_Join_nonempty)
qed simp

definition shallowest :: "os_fs \<Rightarrow> string \<Rightarrow> (string \<Rightarrow> bool) \<Rightarrow> nat \<Rightarrow> search_item list \<Rightarrow> string \<Rightarrow> bool" where
  "shallowest fs base mt D q r \<longleftrightarrow>
     (\<exists>k name. (\<exists>i \<in> set q. below fs base D i k) \<and> hit fs base mt k name \<and> r = filepath_Join [fst k, name] \<and>
       (\<forall>j \<in> set q. \<forall>k' n'. below fs base D j k' \<longrightarrow> hit fs base mt k' n' \<longrightarrow> snd k \<le> snd k'))"

lemma shallowest_transfer:
  assumes "shallowest fs base mt D q r"
    and "\<And>i k. i \<in> set q \<Longrightarrow> below fs base D i k \<Longrightarrow> \<exists>i' \<in> set q'. below fs base D i' k"
    and "\<And>i k name. i \<in> set q' \<Longrightarrow> below fs base D i k \<Longrightarrow> hit fs base mt k name \<Longrightarrow> \<exists>i' \<in> set q. below fs base D i' k"
  shows "shallowest fs base mt D q' r"
proof -
  from assms(1) obtain i k name where k: "i \<in> set q" "below fs base D i k" "hit fs base mt k name"
      "r = filepath_Join [fst k, name]"
    and least: "\<And>j k' n'. j \<in> set q \<Longrightarrow> below fs base D j k' \<Longrightarrow> hit fs base mt k' n' \<Longrightarrow> snd k \<le> snd k'"
    unfolding shallowest_def by blast
  have "snd k \<le> snd k'" if "j \<in> set q'" "below fs base D j k'" "hit fs base mt k' n'" for j k' n'
    using assms(3) [OF that] least that(3) by blast
  then show ?thesis unfolding shallowest_def using assms(2) [OF k(1,2)] k(3,4) by blast
qed

lemma bfs_shallowest:
  "bfs fs base mt D q \<noteq> [] \<Longrightarrow> level_sorted q \<Longrightarrow> shallowest fs base mt D q (bfs fs base mt D q)"
proof (induction q rule: bfs_queue_induct [where fs = fs and base = base and mt = mt and D = D])
  case (Unreadable rel d q)
  then have b: "bfs fs base mt D ((rel, d) # q) = bfs fs base mt D q" by (simp add: bfs_step)
  have "shallowest fs base mt D q (bfs fs base mt D q)"
    using Unreadable(2) Unreadable(3,4) level_sorted_tl unfolding b by blast
  then show ?case unfolding b
    by (rule shallowest_transfer) (use no_hit_unreadable [OF Unreadable(1)] in \<open>auto 0 3\<close>)
next
  case (Descend rel d q es)
  then have b: "bfs fs base mt D ((rel, d) # q) = bfs fs base mt D (q @ child_dirs D rel d es)"
    by (simp add: bfs_step)
  have "shallowest fs base mt D (q @ child_dirs D rel d es) (bfs fs base mt D (q @ child_dirs D rel d es))"
    using Descend(3) Descend(4) level_sorted_next [OF Descend(5)] unfolding b by blast
  then show ?case unfolding b
  proof (rule shallowest_transfer)
    show "\<exists>i' \<in> set ((rel, d) # q). below fs base D i' k"
      if "i \<in> set (q @ child_dirs D rel d es)" "below fs base D i k" for i k
      using that below_step [OF Descend(1), of i D d k] by (cases "i \<in> set q") auto
    show "\<exists>i' \<in> set (q @ child_dirs D rel d es). below fs base D i' k"
      if "i \<in> set ((rel, d) # q)" "below fs base D i k" "hit fs base mt k name" for i k name
      using that no_hit_below [OF Descend(1,2), of D d k name] by auto
  qed
next
  case (Hit rel d q es e es')
  have "e \<in> set (filter (\<lambda>e. snd e \<and> mt (fst e)) es)" unfolding Hit(2) by simp
  then have e: "(fst e, True) \<in> set es" "mt (fst e)" by (auto simp: prod_eq_iff intro: back_subst [of "\<lambda>e. e \<in> set es"])
  then have h: "hit fs base mt (rel, d) (fst e)" using Hit(1) by (simp add: hit_def)
  have "bfs fs base mt D ((rel, d) # q) = filepath_Join [rel, fst e]" using Hit by (simp add: bfs_step)
  moreover have "snd (rel, d) \<le> snd k'" if "j \<in> set ((rel, d) # q)" "below fs base D j k'" for j k'
  proof -
    have "snd (rel, d) \<le> snd j" using that(1) level_sorted_hd [OF Hit(4), of j] by (cases "j \<in> set q") auto
    with below_depth [OF that(2)] show ?thesis by simp
  qed
  ultimately show ?case unfolding shallowest_def
    using h below_refl [of fs base D "(rel, d)"] by (metis fst_conv list.set_intros(1))
qed simp

text \<open>
  C23. The search of a pod's cgroup ends on every hierarchy; it returns nothing only where no
  directory within the depth bound matches, and otherwise a matching directory at the least
  depth of all: the pod's own cgroup rather than one of its containers.
\<close>

theorem resolver_search_shallowest:
  fixes r :: resolver
  assumes "named_entries fs"
  defines "visited \<equiv> below fs (r_base r) (r_max_depth r) ([], 0)"
  shows "(resolver_search fs r mt = [] \<longleftrightarrow> (\<forall>k name. visited k \<longrightarrow> \<not> hit fs (r_base r) mt k name)) \<and>
    (resolver_search fs r mt \<noteq> [] \<longrightarrow>
      (\<exists>k name. visited k \<and> hit fs (r_base r) mt k name \<and> resolver_search fs r mt = filepath_Join [fst k, name] \<and>
        (\<forall>k' n'. visited k' \<longrightarrow> hit fs (r_base r) mt k' n' \<longrightarrow> snd k \<le> snd k')))"
proof -
  have "level_sorted [([], 0)]" by (simp add: level_sorted_def)
  then have "resolver_search fs r mt \<noteq> [] \<Longrightarrow>
      shallowest fs (r_base r) mt (r_max_depth r) [([], 0)] (resolver_search fs r mt)"
    unfolding resolver_search_def by (rule bfs_shallowest [rotated])
  then have some: "resolver_search fs r mt \<noteq> [] \<Longrightarrow>
      (\<exists>k name. visited k \<and> hit fs (r_base r) mt k name \<and> resolver_search fs r mt = filepath_Join [fst k, name] \<and>
        (\<forall>k' n'. visited k' \<longrightarrow> hit fs (r_base r) mt k' n' \<longrightarrow> snd k \<le> snd k'))"
    by (simp add: shallowest_def visited_def)
  have "\<not> hit fs (r_base r) mt k name" if "resolver_search fs r mt = []" "visited k" for k name
    using bfs_complete [OF assms(1) that(1) [unfolded resolver_search_def]] that(2) unfolding visited_def by simp
  with some show ?thesis by blast
qed

definition example_fs :: os_fs where
  "example_fs = accepting_fs\<lparr>fs_dirs :=
     [''/cg'' \<mapsto> [(''cgroup.controllers'', False), (''kubepods'', True)],
      ''/cg/kubepods'' \<mapsto> [(''burstable'', True), (''podaa-bb'', True)],
      ''/cg/kubepods/burstable'' \<mapsto> [(''podcc'', True)],
      ''/cg/kubepods/podaa-bb'' \<mapsto> [(''podaa-bb-app'', True)]]\<rparr>"

lemma named_entries_example: "named_entries example_fs"
  by (simp add: named_entries_def example_fs_def)

lemma search_example:
  "resolver_search example_fs (NewResolver ''/cg'') (pod_match ''aa-bb'') = ''kubepods/podaa-bb''"
  by code_simp

theorem resolver_search_shallowest_witness:
  "\<exists>k name. below example_fs ''/cg'' 6 ([], 0) k \<and> hit example_fs ''/cg'' (pod_match ''aa-bb'') k name \<and>
     ''kubepods/podaa-bb'' = filepath_Join [fst k, name]"
  using resolver_search_shallowest [OF named_entries_example, of "NewResolver ''/cg''" "pod_match ''aa-bb''"]
  unfolding search_example by (auto simp: NewResolver_def)

section \<open>The cache\<close>

lemma find_pod_cache:
  "find_pod fs r uid = (res, r') \<Longrightarrow> r_cache r uid = None \<Longrightarrow>
   r_cache r' uid = res \<and> (\<forall>u. u \<noteq> uid \<longrightarrow> r_cache r' u = r_cache r u)"
  by (auto simp: find_pod_def Let_def split: if_splits)

text \<open>
  A call leaves the cache with exactly its answer for the pod and touches no other pod; the
  answer is a cached path that still exists, or a fresh search's.
\<close>

lemma PodPath_cache:
  assumes "PodPath fs r uid = (res, r')"
  shows "r_cache r' uid = res" and "u \<noteq> uid \<Longrightarrow> r_cache r' u = r_cache r u"
    and "res = Some p \<Longrightarrow> cg_Exists fs (r_base r) p \<or> p = resolver_search fs r (pod_match uid) \<and> p \<noteq> []"
    and "r_base r' = r_base r" "r_kubepods r' = r_kubepods r"
proof -
  have search: "resolver_search fs (r\<lparr>r_cache := c\<rparr>) mt = resolver_search fs r mt" for c mt
    by (simp add: resolver_search_def)
  show "r_cache r' uid = res" and "u \<noteq> uid \<Longrightarrow> r_cache r' u = r_cache r u"
    using assms find_pod_cache by (auto simp: PodPath_def find_pod_def Let_def split: option.splits if_splits)
  show "res = Some p \<Longrightarrow> cg_Exists fs (r_base r) p \<or> p = resolver_search fs r (pod_match uid) \<and> p \<noteq> []"
    using assms search by (auto simp: PodPath_def find_pod_def Let_def split: option.splits if_splits)
  show "r_base r' = r_base r" "r_kubepods r' = r_kubepods r"
    using assms by (auto simp: PodPath_def find_pod_def Let_def split: option.splits if_splits)
qed

text \<open>
  The \<^verbatim>\<open>sync.Once\<close> around the kubepods lookup also remembers a miss: an agent
  whose first lookup precedes the kubelet's creation of the kubepods cgroup never sees it,
  whatever the file system holds later.
\<close>

theorem KubepodsPath_sticky:
  "fst (KubepodsPath fs' (snd (KubepodsPath fs r))) = fst (KubepodsPath fs r)"
  by (simp add: KubepodsPath_def Let_def split: option.splits)

end
