(* ===== verification/CPUPool.thy ===== *)
theory CPUPool
  imports QoS Resolver
begin

text \<open>
  Enforcing the levels on the node's CPUs (\<^verbatim>\<open>pkg/agent/cpupool\<close>): the NUMA topology,
  the layout of pools computed from the pods, and the reconciliation that writes weights and
  CPU sets into cgroup files. A layout is \<^const>\<open>None\<close> when parsing the reserved CPUs does
  not return.
\<close>

section \<open>Topology\<close>

record zone =
  z_id :: int
  z_cpus :: CPUSet

record topology =
  t_zones :: "zone list"
  t_online :: CPUSet

definition TotalCPUs :: "topology \<Rightarrow> int" where
  "TotalCPUs t = cpuset_Size (t_online t)"

fun zone_of :: "zone list \<Rightarrow> int \<Rightarrow> int" where
  "zone_of [] cpu = -1"
| "zone_of (z # zs) cpu = (if cpuset_Contains (z_cpus z) cpu then z_id z else zone_of zs cpu)"

definition ZoneOf :: "topology \<Rightarrow> int \<Rightarrow> int" where
  "ZoneOf t cpu = zone_of (t_zones t) cpu"

text \<open>The loop's state is \<^verbatim>\<open>best\<close> with \<^verbatim>\<open>bestFree\<close>; \<^const>\<open>None\<close> is \<^verbatim>\<open>bestFree = -1\<close>.\<close>

definition zone_step :: "CPUSet \<Rightarrow> int \<Rightarrow> zone \<Rightarrow> (zone \<times> int) option \<Rightarrow> (zone \<times> int) option" where
  "zone_step free want z best =
     (let n = cpuset_Size (cpuset_Intersection (z_cpus z) free)
      in if n \<ge> want \<and> (case best of None \<Rightarrow> True | Some (_, bestFree) \<Rightarrow> n < bestFree) then Some (z, n) else best)"

definition ZoneFor :: "topology \<Rightarrow> CPUSet \<Rightarrow> int \<Rightarrow> zone option" where
  "ZoneFor t free want = map_option fst (fold (zone_step free want) (t_zones t) None)"

definition SysNodePath :: string where "SysNodePath = ''/sys/devices/system/node''"

fun detect_zones :: "os_fs \<Rightarrow> string \<Rightarrow> int list \<Rightarrow> topology \<Rightarrow> topology option" where
  "detect_zones fs sysPath [] t = Some t"
| "detect_zones fs sysPath (nid # ids) t =
     (case fs_files fs (filepath_Join [sysPath, ''node'' @ itoa nid, ''cpulist'']) of
        None \<Rightarrow> detect_zones fs sysPath ids t
      | Some raw \<Rightarrow>
          (case cpuset_Parse (trim_space raw) of
             None \<Rightarrow> None
           | Some (Inl _) \<Rightarrow> detect_zones fs sysPath ids t
           | Some (Inr cpus) \<Rightarrow>
               if cpuset_IsEmpty cpus then detect_zones fs sysPath ids t
               else detect_zones fs sysPath ids
                      \<lparr>t_zones = t_zones t @ [\<lparr>z_id = nid, z_cpus = cpus\<rparr>], t_online = cpuset_Union (t_online t) cpus\<rparr>))"

definition DetectTopology :: "os_fs \<Rightarrow> string \<Rightarrow> int \<Rightarrow> topology option" where
  "DetectTopology fs sysPath0 fallbackCPUs0 =
     (let sysPath = (if sysPath0 = [] then SysNodePath else sysPath0);
          empty = \<lparr>t_zones = [], t_online = {}\<rparr>;
          detected = (case fs_files fs (filepath_Join [sysPath, ''online'']) of
             None \<Rightarrow> Some empty
           | Some online \<Rightarrow>
               (case cpuset_Parse (trim_space online) of
                  None \<Rightarrow> None
                | Some (Inl _) \<Rightarrow> Some empty
                | Some (Inr nodeIDs) \<Rightarrow> detect_zones fs sysPath (cpuset_List nodeIDs) empty))
      in case detected of
           None \<Rightarrow> None
         | Some t \<Rightarrow>
             (let t1 = (if t_zones t = [] then
                          (let n = (if fallbackCPUs0 < 1 then 1 else fallbackCPUs0);
                               all = cpuset_NewRange 0 n
                           in \<lparr>t_zones = [\<lparr>z_id = 0, z_cpus = all\<rparr>], t_online = all\<rparr>)
                        else t)
              in Some (t1\<lparr>t_zones := sort_key z_id (t_zones t1)\<rparr>)))"

section \<open>Pools\<close>

definition WeightFor :: "QoSLevel \<Rightarrow> int" where
  "WeightFor level =
     (if level = QoSSystemCores then 10000
      else if level = QoSDedicatedCores then 5000
      else if level = QoSReclaimedCores then 10
      else 1000)"

record pool =
  pl_name :: string
  pl_level :: QoSLevel
  pl_cpus :: CPUSet
  pl_uids :: "string list"

record pool_config =
  kp_enabled :: bool
  kp_reserved :: string
  kp_shared_min :: int
  kp_reclaimed_min :: int

definition wholeCoresFor :: "'q quantity_ops \<Rightarrow> 'q pod \<Rightarrow> int" where
  "wholeCoresFor Q pod =
     (case EffectiveRequests Q pod ResourceCPU of
        None \<Rightarrow> 0
      | Some q \<Rightarrow>
          (let milli = q_milli Q q; cores = go_div milli 1000
           in if go_mod milli 1000 \<noteq> 0 then cores + 1 else cores))"

text \<open>
  \<^verbatim>\<open>sortPodsByCPUDesc\<close>: the inner loop swaps an element to the left past every smaller
  neighbour. The sorted prefix is kept reversed, its right end first.
\<close>

fun swap_left :: "('a \<Rightarrow> int) \<Rightarrow> 'a \<Rightarrow> 'a list \<Rightarrow> 'a list" where
  "swap_left key x [] = [x]"
| "swap_left key x (y # ys) = (if key x > key y then y # swap_left key x ys else x # y # ys)"

definition sort_desc :: "('a \<Rightarrow> int) \<Rightarrow> 'a list \<Rightarrow> 'a list" where
  "sort_desc key xs = rev (fold (swap_left key) xs [])"

definition sortPodsByCPUDesc :: "'q quantity_ops \<Rightarrow> 'q pod list \<Rightarrow> 'q pod list" where
  "sortPodsByCPUDesc Q pods = sort_desc (wholeCoresFor Q) pods"

text \<open>One dedicated pod: the state is the free CPUs and the pools so far.\<close>

definition place_dedicated ::
  "'q quantity_ops \<Rightarrow> topology \<Rightarrow> int \<Rightarrow> 'q pod \<Rightarrow> CPUSet \<times> pool list \<Rightarrow> CPUSet \<times> pool list"
where
  "place_dedicated Q t minShared pod = (\<lambda>(free, pools).
     let want = wholeCoresFor Q pod
     in if want < 1 then (free, pools)
        else if cpuset_Size free - want < minShared then (free, pools)
        else
          (case (if WantsNUMABinding Q pod then
                   (case ZoneFor t free want of
                      Some z \<Rightarrow> cpuset_TakeFrom free want (z_cpus z)
                    | None \<Rightarrow> cpuset_Take free want)
                 else cpuset_Take free want) of
             (taken, free') \<Rightarrow>
               if cpuset_Size taken = 0 then (free', pools)
               else (free', pools @ [\<lparr>pl_name = p_uid pod, pl_level = QoSDedicatedCores, pl_cpus = taken,
                                      pl_uids = [p_uid pod]\<rparr>])))"

definition reserved_cpus :: "pool_config \<Rightarrow> CPUSet \<Rightarrow> CPUSet option" where
  "reserved_cpus cfg online =
     (if kp_reserved cfg = [] then Some {}
      else case cpuset_Parse (kp_reserved cfg) of
             None \<Rightarrow> None
           | Some (Inl _) \<Rightarrow> Some {}
           | Some (Inr parsed) \<Rightarrow> Some (cpuset_Intersection parsed online))"

definition add_members :: "'q quantity_ops \<Rightarrow> 'q pod list \<Rightarrow> pool \<Rightarrow> pool" where
  "add_members Q pods p =
     (if pl_level p = QoSDedicatedCores then p
      else p\<lparr>pl_uids := pl_uids p @ map p_uid (filter (\<lambda>pod. level_of Q pod = pl_level p) pods)\<rparr>)"

definition at_least_one :: "int \<Rightarrow> int" where
  "at_least_one n = (if n < 1 then 1 else n)"

definition computePools :: "'q quantity_ops \<Rightarrow> topology \<Rightarrow> pool_config \<Rightarrow> 'q pod list \<Rightarrow> pool list option" where
  "computePools Q t cfg pods =
     (case reserved_cpus cfg (t_online t) of
        None \<Rightarrow> None
      | Some reserved \<Rightarrow>
          (let free0 = cpuset_Difference (t_online t) reserved;
               pools0 = (if \<not> cpuset_IsEmpty reserved
                         then [\<lparr>pl_name = ''reserved'', pl_level = QoSSystemCores, pl_cpus = reserved, pl_uids = []\<rparr>]
                         else []);
               dedicated = sortPodsByCPUDesc Q (filter (\<lambda>pod. level_of Q pod = QoSDedicatedCores) pods);
               minShared = at_least_one (kp_shared_min cfg)
           in case fold (place_dedicated Q t minShared) dedicated (free0, pools0) of
                (free, pools1) \<Rightarrow>
                  (let shared = (if cpuset_Size free < minShared then cpuset_Difference (t_online t) reserved else free);
                       minReclaimed = at_least_one (kp_reclaimed_min cfg);
                       reclaimed = (if cpuset_Size shared < minReclaimed
                                    then cpuset_Difference (t_online t) reserved else shared);
                       pools2 = pools1 @
                         [\<lparr>pl_name = ''shared'', pl_level = QoSSharedCores, pl_cpus = shared, pl_uids = []\<rparr>,
                          \<lparr>pl_name = ''reclaimed'', pl_level = QoSReclaimedCores, pl_cpus = reclaimed, pl_uids = []\<rparr>]
                   in Some (map (add_members Q pods) pools2))))"

text \<open>\<^verbatim>\<open>for _, p := range pools { if p.Name == name { return p.CPUs, true } }\<close>\<close>

definition pool_named :: "pool list \<Rightarrow> string \<Rightarrow> CPUSet option" where
  "pool_named pools name = map_option pl_cpus (find (\<lambda>p. pl_name p = name) pools)"

definition cpusForPod :: "pool list \<Rightarrow> string \<Rightarrow> QoSLevel \<Rightarrow> CPUSet option" where
  "cpusForPod pools uid level =
     (let name = (if level = QoSReclaimedCores then ''reclaimed''
                  else if level = QoSSystemCores then ''reserved'' else ''shared'')
      in if level = QoSDedicatedCores \<and> pool_named pools uid \<noteq> None then pool_named pools uid
         else pool_named pools name)"

section \<open>Reconciliation\<close>

record pool_manager =
  pm_base :: string
  pm_topology :: topology
  pm_cfg :: pool_config
  pm_weight :: "string \<Rightarrow> int option"
  pm_cpuset :: "string \<Rightarrow> string option"
  pm_pools :: "pool list"

definition NewManager :: "string \<Rightarrow> topology \<Rightarrow> pool_config \<Rightarrow> pool_manager" where
  "NewManager base t cfg =
     \<lparr>pm_base = base, pm_topology = t, pm_cfg = cfg, pm_weight = Map.empty, pm_cpuset = Map.empty, pm_pools = []\<rparr>"

definition pool_SetConfig :: "pool_config \<Rightarrow> pool_manager \<Rightarrow> pool_manager" where
  "pool_SetConfig cfg m = m\<lparr>pm_cfg := cfg\<rparr>"

text \<open>The two writes of one pod, each skipped where the value applied last is the wanted one.\<close>

definition apply_weight :: "string \<Rightarrow> string \<Rightarrow> int \<Rightarrow> pool_manager \<times> os_fs \<Rightarrow> pool_manager \<times> os_fs" where
  "apply_weight path uid weight = (\<lambda>(m, fs).
     if kv_get (pm_weight m) uid 0 \<noteq> weight then
       (case cg_SetCPUWeight fs (pm_base m) path weight of
          None \<Rightarrow> (m, fs)
        | Some fs' \<Rightarrow> (m\<lparr>pm_weight := (pm_weight m)(uid \<mapsto> weight)\<rparr>, fs'))
     else (m, fs))"

definition apply_cpuset :: "string \<Rightarrow> string \<Rightarrow> CPUSet option \<Rightarrow> pool_manager \<times> os_fs \<Rightarrow> pool_manager \<times> os_fs" where
  "apply_cpuset path uid cpus = (\<lambda>(m, fs).
     case cpus of
       None \<Rightarrow> (m, fs)
     | Some c \<Rightarrow>
         (let want = cpuset_String c
          in if want \<noteq> [] \<and> kv_get (pm_cpuset m) uid [] \<noteq> want then
               (case cg_SetCPUSetCPUs fs (pm_base m) path want of
                  None \<Rightarrow> (m, fs)
                | Some fs' \<Rightarrow> (m\<lparr>pm_cpuset := (pm_cpuset m)(uid \<mapsto> want)\<rparr>, fs'))
             else (m, fs)))"

type_synonym pool_state = "pool_manager \<times> resolver \<times> os_fs"

definition reconcile_pod :: "'q quantity_ops \<Rightarrow> pool list \<Rightarrow> 'q pod \<Rightarrow> pool_state \<Rightarrow> pool_state" where
  "reconcile_pod Q pools pod = (\<lambda>(m, r, fs).
     let uid = p_uid pod; level = level_of Q pod
     in case PodPath fs r uid of
          (None, r') \<Rightarrow> (m, r', fs)
        | (Some path, r') \<Rightarrow>
            (case apply_weight path uid (WeightFor level) (m, fs) of
               (m1, fs1) \<Rightarrow>
                 if \<not> kp_enabled (pm_cfg m1) then (m1, r', fs1)
                 else (case apply_cpuset path uid (cpusForPod pools uid level) (m1, fs1) of
                         (m2, fs2) \<Rightarrow> (m2, r', fs2))))"

definition drop_gone :: "string set \<Rightarrow> pool_manager \<Rightarrow> pool_manager" where
  "drop_gone alive m =
     (let gone = (\<lambda>uid. pm_weight m uid \<noteq> None \<and> uid \<notin> alive)
      in m\<lparr>pm_weight := (\<lambda>uid. if gone uid then None else pm_weight m uid),
           pm_cpuset := (\<lambda>uid. if gone uid then None else pm_cpuset m uid)\<rparr>)"

datatype reconcile_error = CgroupUnsupported

definition pool_Reconcile ::
  "'q quantity_ops \<Rightarrow> 'q pod list \<Rightarrow> pool_state \<Rightarrow> ((reconcile_error + unit) \<times> pool_state) option"
where
  "pool_Reconcile Q pods = (\<lambda>(m, r, fs).
     if \<not> cg_Available fs (pm_base m) then Some (Inl CgroupUnsupported, (m, r, fs))
     else
       (case computePools Q (pm_topology m) (pm_cfg m) pods of
          None \<Rightarrow> None
        | Some pools \<Rightarrow>
            (case fold (reconcile_pod Q pools) pods (m\<lparr>pm_pools := pools\<rparr>, r, fs) of
               (m1, r1, fs1) \<Rightarrow> Some (Inr (), (drop_gone (p_uid ` set pods) m1, r1, fs1)))))"

section \<open>Status\<close>

record cpuset_pool_status =
  cps_name :: string
  cps_level :: QoSLevel
  cps_cpus :: string
  cps_size :: int

definition StatusPools :: "pool_manager \<Rightarrow> cpuset_pool_status list" where
  "StatusPools m =
     map (\<lambda>p. \<lparr>cps_name = pl_name p, cps_level = pl_level p, cps_cpus = cpuset_String (pl_cpus p),
               cps_size = i32 (cpuset_Size (pl_cpus p))\<rparr>) (pm_pools m)"

record zone_status =
  zs_id :: int
  zs_cpus :: string
  zs_allocatable :: int

definition StatusZones :: "pool_manager \<Rightarrow> zone_status list" where
  "StatusZones m =
     (let dedicated = fold (\<lambda>p d. if pl_level p = QoSDedicatedCores \<and> pl_name p \<noteq> ''reserved''
                                  then cpuset_Union d (pl_cpus p) else d) (pm_pools m) {}
      in map (\<lambda>z. \<lparr>zs_id = i32 (z_id z), zs_cpus = cpuset_String (z_cpus z),
                   zs_allocatable = i32 (cpuset_Size (cpuset_Difference (z_cpus z) dedicated))\<rparr>)
           (t_zones (pm_topology m)))"

section \<open>Sorting\<close>

lemma swap_left_mset: "mset (swap_left key x ys) = add_mset x (mset ys)"
  by (induction ys) simp_all

lemma swap_left_sorted:
  "sorted_wrt (\<lambda>a b. key a \<le> key b) ys \<Longrightarrow> sorted_wrt (\<lambda>a b. key a \<le> key b) (swap_left key x ys)"
proof (induction ys)
  case (Cons y ys)
  have "set (swap_left key x ys) = insert x (set ys)"
    using arg_cong [OF swap_left_mset [of key x ys], of set_mset] by simp
  with Cons show ?case by auto
qed simp

lemma swap_left_stable:
  "sorted_wrt (\<lambda>a b. key a \<le> key b) ys \<Longrightarrow>
   filter (\<lambda>z. key z = k) (swap_left key x ys) = filter (\<lambda>z. key z = k) (x # ys)"
  by (induction ys) (auto simp: filter_empty_conv)

text \<open>The swapping sort is the stable sort by descending size.\<close>

lemma sort_desc_eq: "sort_desc key xs = sort_key (\<lambda>x. - key x) xs"
proof -
  have "mset (fold (swap_left key) xs ys) = mset xs + mset ys \<and>
      sorted_wrt (\<lambda>a b. key a \<le> key b) (fold (swap_left key) xs ys) \<and>
      (\<forall>k. filter (\<lambda>z. key z = k) (fold (swap_left key) xs ys) = rev (filter (\<lambda>z. key z = k) xs) @ filter (\<lambda>z. key z = k) ys)"
    if "sorted_wrt (\<lambda>a b. key a \<le> key b) ys" for ys
    using that
  proof (induction xs arbitrary: ys)
    case (Cons x xs)
    show ?case using Cons.IH [OF swap_left_sorted [OF Cons.prems, of x]] swap_left_stable [OF Cons.prems]
      by (simp add: swap_left_mset)
  qed simp
  from this [of "[]"] have f: "mset (fold (swap_left key) xs []) = mset xs"
    "sorted_wrt (\<lambda>a b. key a \<le> key b) (fold (swap_left key) xs [])"
    "\<And>k. filter (\<lambda>z. key z = k) (fold (swap_left key) xs []) = rev (filter (\<lambda>z. key z = k) xs)" by simp_all
  show ?thesis
  proof (rule properties_for_sort_key [symmetric])
    show "mset (sort_desc key xs) = mset xs" using f(1) by (simp add: sort_desc_def)
    show "sorted (map (\<lambda>x. - key x) (sort_desc key xs))"
      using f(2) by (simp add: sort_desc_def sorted_wrt_rev sorted_wrt_map)
    show "filter (\<lambda>x. - key k = - key x) (sort_desc key xs) = filter (\<lambda>x. - key k = - key x) xs" for k
      using f(3) [of "key k"] by (simp add: sort_desc_def rev_filter [symmetric] eq_commute [of "key k"])
  qed
qed

lemma sort_desc_set [simp]: "set (sort_desc key xs) = set xs"
  by (simp add: sort_desc_eq)

section \<open>Zones\<close>

lemma zone_fold:
  "fold (zone_step free want) zs best = r \<Longrightarrow>
   (case r of
      None \<Rightarrow> best = None \<and> (\<forall>z \<in> set zs. \<not> want \<le> cpuset_Size (z_cpus z \<inter> free))
    | Some (z, n) \<Rightarrow>
        ((z \<in> set zs \<and> n = cpuset_Size (z_cpus z \<inter> free) \<and> want \<le> n) \<or> best = Some (z, n)) \<and>
        (\<forall>z' \<in> set zs. want \<le> cpuset_Size (z_cpus z' \<inter> free) \<longrightarrow> n \<le> cpuset_Size (z_cpus z' \<inter> free)) \<and>
        (case best of None \<Rightarrow> True | Some (_, b) \<Rightarrow> n \<le> b))"
proof (induction zs arbitrary: best)
  case (Cons z zs)
  define best' where "best' = zone_step free want z best"
  from Cons.IH [of best'] Cons.prems show ?case
    unfolding best'_def by (auto simp: zone_step_def cpuset_simps Let_def split: option.splits if_splits)
qed (auto split: option.splits)

lemma ZoneFor_Some:
  assumes "ZoneFor t free want = Some z"
  shows "z \<in> set (t_zones t)" "want \<le> cpuset_Size (z_cpus z \<inter> free)"
    and "z' \<in> set (t_zones t) \<Longrightarrow> want \<le> cpuset_Size (z_cpus z' \<inter> free) \<Longrightarrow>
      cpuset_Size (z_cpus z \<inter> free) \<le> cpuset_Size (z_cpus z' \<inter> free)"
proof -
  obtain n where "fold (zone_step free want) (t_zones t) None = Some (z, n)"
    using assms by (auto simp: ZoneFor_def)
  from zone_fold [OF this] show "z \<in> set (t_zones t)" "want \<le> cpuset_Size (z_cpus z \<inter> free)"
    and "z' \<in> set (t_zones t) \<Longrightarrow> want \<le> cpuset_Size (z_cpus z' \<inter> free) \<Longrightarrow>
      cpuset_Size (z_cpus z \<inter> free) \<le> cpuset_Size (z_cpus z' \<inter> free)" by auto
qed

lemma ZoneFor_None:
  "ZoneFor t free want = None \<Longrightarrow> z \<in> set (t_zones t) \<Longrightarrow> \<not> want \<le> cpuset_Size (z_cpus z \<inter> free)"
  using zone_fold [of free want "t_zones t" None None] by (simp add: ZoneFor_def)

section \<open>Placement\<close>

text \<open>What one placement takes, by whichever of the three calls.\<close>

definition placement :: "'q quantity_ops \<Rightarrow> topology \<Rightarrow> 'q pod \<Rightarrow> CPUSet \<Rightarrow> int \<Rightarrow> CPUSet \<times> CPUSet" where
  "placement Q t pod free want =
     (if WantsNUMABinding Q pod then
        (case ZoneFor t free want of
           Some z \<Rightarrow> cpuset_TakeFrom free want (z_cpus z)
         | None \<Rightarrow> cpuset_Take free want)
      else cpuset_Take free want)"

interpretation placing: cpu_allocator "placement Q t pod" for Q t pod
proof
  fix c n taken rest assume c: "finite c" and p: "placement Q t pod c n = (taken, rest)"
  consider "cpuset_Take c n = (taken, rest)" | p where "cpuset_TakeFrom c n p = (taken, rest)"
    using p by (cases "WantsNUMABinding Q pod"; cases "ZoneFor t c n") (auto simp: placement_def)
  then have "(taken \<union> rest = c \<and> taken \<inter> rest = {}) \<and> cpuset_Size taken = max 0 (min n (cpuset_Size c))"
  proof cases
    case 1
    then show ?thesis using take_alloc.alloc_split [OF c 1] take_alloc.alloc_size [OF c 1] by simp
  next
    case (2 p)
    then show ?thesis using take_from_alloc.alloc_split [OF c 2] take_from_alloc.alloc_size [OF c 2] by simp
  qed
  then show "taken \<union> rest = c \<and> taken \<inter> rest = {}" "cpuset_Size taken = max 0 (min n (cpuset_Size c))"
    by simp_all
qed

lemma place_dedicated_eq:
  "place_dedicated Q t minShared pod (free, pools) =
     (let want = wholeCoresFor Q pod
      in if want < 1 \<or> cpuset_Size free - want < minShared then (free, pools)
         else case placement Q t pod free want of
           (taken, free') \<Rightarrow>
             if cpuset_Size taken = 0 then (free', pools)
             else (free', pools @ [\<lparr>pl_name = p_uid pod, pl_level = QoSDedicatedCores, pl_cpus = taken,
                                    pl_uids = [p_uid pod]\<rparr>]))"
  by (simp add: place_dedicated_def placement_def Let_def)

definition dedicated_pool :: "'q pod \<times> CPUSet \<Rightarrow> pool" where
  "dedicated_pool a = \<lparr>pl_name = p_uid (fst a), pl_level = QoSDedicatedCores, pl_cpus = snd a, pl_uids = [p_uid (fst a)]\<rparr>"

text \<open>
  The exclusive assignments so far: disjoint, of the size asked, and together with what is
  free exactly the set the placement started from, which keeps its floor.
\<close>

definition placed ::
  "'q quantity_ops \<Rightarrow> 'q pod set \<Rightarrow> int \<Rightarrow> CPUSet \<Rightarrow> ('q pod \<times> CPUSet) list \<Rightarrow> CPUSet \<Rightarrow> bool"
where
  "placed Q pods minShared all asg free \<longleftrightarrow>
     pairwise (\<lambda>i j. snd (asg ! i) \<inter> snd (asg ! j) = {}) {..<length asg} \<and>
     (\<forall>a \<in> set asg. fst a \<in> pods \<and> cpuset_Size (snd a) = wholeCoresFor Q (fst a) \<and> snd a \<noteq> {} \<and> snd a \<inter> free = {}) \<and>
     free \<union> (\<Union>a \<in> set asg. snd a) = all \<and> min minShared (cpuset_Size all) \<le> cpuset_Size free"

lemma disjoint_snoc:
  assumes "pairwise (\<lambda>i j. snd (xs ! i) \<inter> snd (xs ! j) = {}) {..<length xs}" "\<forall>a \<in> set xs. snd a \<inter> snd x = {}"
  shows "pairwise (\<lambda>i j. snd ((xs @ [x]) ! i) \<inter> snd ((xs @ [x]) ! j) = {}) {..<length (xs @ [x])}"
proof (rule pairwiseI)
  fix i j assume "i \<in> {..<length (xs @ [x])}" "j \<in> {..<length (xs @ [x])}" "i \<noteq> j"
  then consider "i < length xs" "j < length xs" | "i < length xs" "j = length xs" | "i = length xs" "j < length xs"
    by fastforce
  then show "snd ((xs @ [x]) ! i) \<inter> snd ((xs @ [x]) ! j) = {}"
    using assms \<open>i \<noteq> j\<close> by cases (auto simp: nth_append pairwise_def Int_commute)
qed

lemma placed_step:
  assumes "placed Q pods minShared all asg free" "finite all" "pod \<in> pods" "0 \<le> minShared"
    and "place_dedicated Q t minShared pod (free, pools @ map dedicated_pool asg) = (free', pools')"
  shows "\<exists>asg'. pools' = pools @ map dedicated_pool asg' \<and> placed Q pods minShared all asg' free'"
proof -
  let ?w = "wholeCoresFor Q pod"
  have fin: "finite free" using assms(1,2) by (auto simp: placed_def intro: finite_subset)
  show ?thesis
  proof (cases "?w < 1 \<or> cpuset_Size free - ?w < minShared")
    case True
    then show ?thesis using assms(1,5) by (auto simp: place_dedicated_eq Let_def)
  next
    case False
    obtain taken rest where p: "placement Q t pod free ?w = (taken, rest)" by (cases "placement Q t pod free ?w")
    note sp = placing.alloc_split [OF fin p] and sz = placing.alloc_exact [OF fin p]
    have w: "1 \<le> ?w" "?w \<le> cpuset_Size free" "minShared \<le> cpuset_Size free - ?w" using False assms(4) by linarith+
    with sz have t: "cpuset_Size taken = ?w" "cpuset_Size rest = cpuset_Size free - ?w" by simp_all
    then have ne: "taken \<noteq> {}" using w(1) by (auto simp: cpuset_Size_def)
    have out: "free' = rest" "pools' = pools @ map dedicated_pool (asg @ [(pod, taken)])"
      using assms(5) False p t w(1) by (simp_all add: place_dedicated_eq Let_def dedicated_pool_def)
    have "\<forall>a \<in> set asg. snd a \<inter> taken = {}" using assms(1) sp by (fastforce simp: placed_def)
    then have "placed Q pods minShared all (asg @ [(pod, taken)]) rest"
      using assms(1,3) disjoint_snoc [of asg "(pod, taken)"] sp t ne w by (auto simp: placed_def)
    with out show ?thesis by blast
  qed
qed

lemma placed_fold:
  "placed Q pods minShared all asg free \<Longrightarrow> finite all \<Longrightarrow> set ds \<subseteq> pods \<Longrightarrow> 0 \<le> minShared \<Longrightarrow>
   fold (place_dedicated Q t minShared) ds (free, pools @ map dedicated_pool asg) = (free', pools') \<Longrightarrow>
   \<exists>asg'. pools' = pools @ map dedicated_pool asg' \<and> placed Q pods minShared all asg' free'"
proof (induction ds arbitrary: asg free)
  case (Cons d ds)
  obtain f p where s: "place_dedicated Q t minShared d (free, pools @ map dedicated_pool asg) = (f, p)"
    by (cases "place_dedicated Q t minShared d (free, pools @ map dedicated_pool asg)")
  from placed_step [OF Cons.prems(1,2) _ Cons.prems(4) s] Cons.prems(3)
  obtain asg' where "p = pools @ map dedicated_pool asg'" "placed Q pods minShared all asg' f" by auto
  with Cons.IH [of asg' f] Cons.prems s show ?case by simp
qed auto

section \<open>The layout\<close>

abbreviation pool_core :: "pool \<Rightarrow> string \<times> QoSLevel \<times> CPUSet" where
  "pool_core p \<equiv> (pl_name p, pl_level p, pl_cpus p)"

lemma pool_core_members [simp]: "pool_core (add_members Q pods p) = pool_core p"
  by (simp add: add_members_def)

text \<open>
  What the layout promises, for the reserved set and the exclusive assignments: the tiers'
  CPUs are carved out of what is online and not reserved, exclusively for the dedicated pods,
  and the shared pool keeps the rest and its floor.
\<close>

definition layout_ok ::
  "'q quantity_ops \<Rightarrow> topology \<Rightarrow> pool_config \<Rightarrow> 'q pod list \<Rightarrow> CPUSet \<Rightarrow> ('q pod \<times> CPUSet) list \<Rightarrow> CPUSet \<Rightarrow> CPUSet \<Rightarrow> bool"
where
  "layout_ok Q t cfg pods reserved asg shared reclaimed \<longleftrightarrow>
     reserved \<subseteq> t_online t \<and>
     (\<forall>a \<in> set asg. fst a \<in> set pods \<and> level_of Q (fst a) = QoSDedicatedCores) \<and>
     placed Q (set pods) (at_least_one (kp_shared_min cfg)) (t_online t - reserved) asg shared \<and>
     (reclaimed = shared \<or> reclaimed = t_online t - reserved) \<and>
     (kp_reclaimed_min cfg \<le> at_least_one (kp_shared_min cfg) \<longrightarrow> reclaimed = shared)"

lemma cpuset_Size_0: "finite c \<Longrightarrow> cpuset_Size c \<le> 0 \<longleftrightarrow> c = {}"
  by (simp add: cpuset_Size_def)

text \<open>The floor of the shared pool is never missed by what placing leaves, so its fallback changes nothing.\<close>

lemma placed_shared:
  assumes "placed Q pods minShared all asg free" "finite online" "all = online - reserved"
  shows "(if cpuset_Size free < minShared then all else free) = free"
proof (cases "cpuset_Size free < minShared")
  case True
  then have "cpuset_Size all \<le> cpuset_Size free" using assms(1) by (simp add: placed_def min_def split: if_splits)
  moreover have "free \<subseteq> all" using assms(1) by (auto simp: placed_def)
  ultimately have "free = all" using assms(2,3) by (intro card_seteq) (simp_all add: cpuset_Size_def)
  then show ?thesis by simp
qed simp

lemma computePools_layout:
  assumes "computePools Q t cfg pods = Some pools" and fin: "finite (t_online t)"
  shows "\<exists>reserved asg shared reclaimed. layout_ok Q t cfg pods reserved asg shared reclaimed \<and>
    map pool_core pools =
      (if reserved = {} then [] else [(''reserved'', QoSSystemCores, reserved)]) @
      map (\<lambda>a. (p_uid (fst a), QoSDedicatedCores, snd a)) asg @
      [(''shared'', QoSSharedCores, shared), (''reclaimed'', QoSReclaimedCores, reclaimed)]"
proof -
  from assms(1) obtain reserved where r: "reserved_cpus cfg (t_online t) = Some reserved"
    by (cases "reserved_cpus cfg (t_online t)") (simp_all add: computePools_def)
  have rs: "reserved \<subseteq> t_online t"
    using r by (auto simp: reserved_cpus_def cpuset_simps split: if_splits option.splits sum.splits)
  let ?all = "t_online t - reserved" and ?min = "at_least_one (kp_shared_min cfg)"
  let ?ds = "sortPodsByCPUDesc Q (filter (\<lambda>pod. level_of Q pod = QoSDedicatedCores) pods)"
  let ?ded = "{pod \<in> set pods. level_of Q pod = QoSDedicatedCores}"
  define pools0 where "pools0 = (if \<not> cpuset_IsEmpty reserved
      then [\<lparr>pl_name = ''reserved'', pl_level = QoSSystemCores, pl_cpus = reserved, pl_uids = []\<rparr>] else [])"
  obtain free pools1 where f: "fold (place_dedicated Q t ?min) ?ds (?all, pools0) = (free, pools1)"
    by (cases "fold (place_dedicated Q t ?min) ?ds (?all, pools0)")
  have min1: "1 \<le> ?min" by (simp add: at_least_one_def)
  have start: "placed Q ?ded ?min ?all [] ?all" by (simp add: placed_def)
  have "\<exists>asg. pools1 = pools0 @ map dedicated_pool asg \<and> placed Q ?ded ?min ?all asg free"
    by (rule placed_fold [OF start, of ?ds]) (use fin f min1 in \<open>auto simp: sortPodsByCPUDesc_def\<close>)
  then obtain asg where p1: "pools1 = pools0 @ map dedicated_pool asg" and pl: "placed Q ?ded ?min ?all asg free" by blast
  note shared = placed_shared [OF pl fin refl]
  define reclaimed where "reclaimed = (if cpuset_Size free < at_least_one (kp_reclaimed_min cfg) then ?all else free)"
  have rec: "kp_reclaimed_min cfg \<le> ?min \<longrightarrow> reclaimed = free"
    using shared by (auto simp: reclaimed_def at_least_one_def split: if_splits)
  have pools: "pools = map (add_members Q pods) (pools1 @
      [\<lparr>pl_name = ''shared'', pl_level = QoSSharedCores, pl_cpus = free, pl_uids = []\<rparr>,
       \<lparr>pl_name = ''reclaimed'', pl_level = QoSReclaimedCores, pl_cpus = reclaimed, pl_uids = []\<rparr>])"
    using assms(1) unfolding computePools_def r option.case Let_def cpuset_simps pools0_def [symmetric]
      f prod.case shared reclaimed_def [symmetric]
    by (simp only: option.inject)
  have "placed Q (set pods) ?min ?all asg free" using pl by (auto simp: placed_def)
  moreover have "\<forall>a \<in> set asg. fst a \<in> set pods \<and> level_of Q (fst a) = QoSDedicatedCores"
    using pl by (auto simp: placed_def)
  ultimately have "layout_ok Q t cfg pods reserved asg free reclaimed"
    using rs rec by (auto simp: layout_ok_def reclaimed_def)
  moreover have "map pool_core pools =
      (if reserved = {} then [] else [(''reserved'', QoSSystemCores, reserved)]) @
      map (\<lambda>a. (p_uid (fst a), QoSDedicatedCores, snd a)) asg @
      [(''shared'', QoSSharedCores, free), (''reclaimed'', QoSReclaimedCores, reclaimed)]"
    using finite_subset [OF rs fin]
    unfolding pools p1 pools0_def by (simp add: cpuset_IsEmpty_iff o_def dedicated_pool_def)
  ultimately show ?thesis by blast
qed

text \<open>
  C8. Exclusivity of the layout. The CPUs of a dedicated pod's pool belong to no other
  dedicated pool, not to the shared pool and not to the reserved set; there are exactly as
  many as its request rounded up; the shared pool is everything that remains and keeps its
  floor wherever the node has it; and with a reclaimed floor no higher than the shared one
  the reclaimed pool stays off the exclusive CPUs too.
\<close>

theorem computePools_exclusive:
  assumes "computePools Q t cfg pods = Some pools" and "finite (t_online t)"
  shows "\<exists>reserved asg shared reclaimed. layout_ok Q t cfg pods reserved asg shared reclaimed \<and>
    map pool_core pools =
      (if reserved = {} then [] else [(''reserved'', QoSSystemCores, reserved)]) @
      map (\<lambda>a. (p_uid (fst a), QoSDedicatedCores, snd a)) asg @
      [(''shared'', QoSSharedCores, shared), (''reclaimed'', QoSReclaimedCores, reclaimed)] \<and>
    (\<forall>a \<in> set asg. snd a \<inter> shared = {} \<and> snd a \<inter> reserved = {} \<and>
      (kp_reclaimed_min cfg \<le> at_least_one (kp_shared_min cfg) \<longrightarrow> snd a \<inter> reclaimed = {}))"
proof -
  from computePools_layout [OF assms] obtain reserved asg shared reclaimed where
    l: "layout_ok Q t cfg pods reserved asg shared reclaimed" and m: "map pool_core pools =
      (if reserved = {} then [] else [(''reserved'', QoSSystemCores, reserved)]) @
      map (\<lambda>a. (p_uid (fst a), QoSDedicatedCores, snd a)) asg @
      [(''shared'', QoSSharedCores, shared), (''reclaimed'', QoSReclaimedCores, reclaimed)]" by blast
  have "\<forall>a \<in> set asg. snd a \<inter> shared = {} \<and> snd a \<inter> reserved = {} \<and>
      (kp_reclaimed_min cfg \<le> at_least_one (kp_shared_min cfg) \<longrightarrow> snd a \<inter> reclaimed = {})"
    using l by (fastforce simp: layout_ok_def placed_def)
  with l m show ?thesis by blast
qed

text \<open>A four-CPU node and a dedicated pod that wants two of them.\<close>

definition four_cpus :: topology where
  "four_cpus = \<lparr>t_zones = [\<lparr>z_id = 0, z_cpus = {0, 1, 2, 3}\<rparr>], t_online = {0, 1, 2, 3}\<rparr>"

definition dedicated_pod :: "rat pod" where
  "dedicated_pod = example_pod\<lparr>p_uid := ''db'', p_annotations := [AnnotationQoSLevel \<mapsto> ''dedicated_cores''],
     p_containers := [example_container\<lparr>c_requests := [ResourceCPU \<mapsto> 3 / 2]\<rparr>]\<rparr>"

definition pool_cfg :: "int \<Rightarrow> pool_config" where
  "pool_cfg recl = \<lparr>kp_enabled = True, kp_reserved = [], kp_shared_min = 1, kp_reclaimed_min = recl\<rparr>"

lemma computePools_example:
  "map_option (map pool_core) (computePools rat_quantity four_cpus (pool_cfg 1) [dedicated_pod]) =
     Some [(''db'', QoSDedicatedCores, {0, 1}), (''shared'', QoSSharedCores, {2, 3}), (''reclaimed'', QoSReclaimedCores, {2, 3})]"
  by code_simp

theorem computePools_exclusive_witness:
  "\<exists>pools. computePools rat_quantity four_cpus (pool_cfg 1) [dedicated_pod] = Some pools \<and>
     (\<exists>reserved asg shared reclaimed. layout_ok rat_quantity four_cpus (pool_cfg 1) [dedicated_pod] reserved asg shared reclaimed \<and>
        map pool_core pools = (if reserved = {} then [] else [(''reserved'', QoSSystemCores, reserved)]) @
          map (\<lambda>a. (p_uid (fst a), QoSDedicatedCores, snd a)) asg @
          [(''shared'', QoSSharedCores, shared), (''reclaimed'', QoSReclaimedCores, reclaimed)])"
proof -
  from computePools_example obtain pools where p: "computePools rat_quantity four_cpus (pool_cfg 1) [dedicated_pod] = Some pools"
    by auto
  have "finite (t_online four_cpus)" by (simp add: four_cpus_def)
  from computePools_exclusive [OF p this] show ?thesis using p by blast
qed

text \<open>
  Above the shared floor the reclaimed floor breaks the exclusivity: the fallback takes
  every unreserved CPU, the dedicated pod's two included, and pins the reclaimed pods on them.
\<close>

theorem computePools_reclaimed_overlap:
  "map_option (map pool_core) (computePools rat_quantity four_cpus (pool_cfg 4) [dedicated_pod]) =
     Some [(''db'', QoSDedicatedCores, {0, 1}), (''shared'', QoSSharedCores, {2, 3}),
           (''reclaimed'', QoSReclaimedCores, {0, 1, 2, 3})]"
  by code_simp

text \<open>
  A NUMA-bound dedicated pod is never split while some zone has room for it whole: it is
  placed entirely inside a zone, and in the tightest that fits.
\<close>

theorem place_dedicated_numa:
  assumes "WantsNUMABinding Q pod" and "finite free" and "1 \<le> wholeCoresFor Q pod" and "0 \<le> minShared"
    and "minShared \<le> cpuset_Size free - wholeCoresFor Q pod"
    and "z0 \<in> set (t_zones t)" "wholeCoresFor Q pod \<le> cpuset_Size (z_cpus z0 \<inter> free)"
  shows "\<exists>z taken. z \<in> set (t_zones t) \<and> taken \<subseteq> z_cpus z \<and>
    cpuset_Size (z_cpus z \<inter> free) \<le> cpuset_Size (z_cpus z0 \<inter> free) \<and>
    place_dedicated Q t minShared pod (free, pools) =
      (free - taken, pools @ [dedicated_pool (pod, taken)])"
proof -
  let ?w = "wholeCoresFor Q pod"
  obtain z where z: "ZoneFor t free ?w = Some z" using ZoneFor_None [OF _ assms(6)] assms(7) by blast
  note best = ZoneFor_Some [OF z]
  obtain taken rest where p: "cpuset_TakeFrom free ?w (z_cpus z) = (taken, rest)"
    by (cases "cpuset_TakeFrom free ?w (z_cpus z)")
  note al = cpuset_TakeFrom_alloc [OF assms(2) p]
  have w: "?w \<le> cpuset_Size free" using assms(4,5) by linarith
  have t: "cpuset_Size taken = ?w" using al(2) assms(3) w by simp
  have fin: "finite taken" using al(1) assms(2) by (auto intro: finite_subset)
  have "?w \<le> cpuset_Size (taken \<inter> z_cpus z)" using al(3) best(2) assms(3) by (simp add: Int_commute)
  then have "taken \<inter> z_cpus z = taken" using t fin by (intro card_seteq) (auto simp: cpuset_Size_def)
  moreover have "rest = free - taken" using al(1) by auto
  moreover have "place_dedicated Q t minShared pod (free, pools) = (rest, pools @ [dedicated_pool (pod, taken)])"
    using assms(1,3,5) z p t by (simp add: place_dedicated_eq placement_def Let_def dedicated_pool_def)
  ultimately show ?thesis using best(1) best(3) [OF assms(6,7)] by blast
qed

text \<open>
  Contention is settled by privilege: weights fall strictly from system to dedicated to
  shared to reclaimed, the reclaimed tier gets a hundredth of a shared pod's share, every
  weight is inside the kernel's range, and an unknown level weighs as a shared one.
\<close>

theorem WeightFor_order:
  "sorted_wrt (>) (map WeightFor KnownQoSLevels) \<and> WeightFor QoSSharedCores = 100 * WeightFor QoSReclaimedCores \<and>
   1 \<le> WeightFor level \<and> WeightFor level \<le> 10000 \<and> (IsValid level \<or> WeightFor level = WeightFor QoSSharedCores)"
  by (auto simp: KnownQoSLevels_def WeightFor_def)

definition numa_pod :: "rat pod" where
  "numa_pod = dedicated_pod\<lparr>p_annotations := [AnnotationQoSLevel \<mapsto> ''dedicated_cores'', AnnotationNUMABinding \<mapsto> ''true'']\<rparr>"

definition two_zones :: topology where
  "two_zones = \<lparr>t_zones = [\<lparr>z_id = 0, z_cpus = {0, 1, 2, 3}\<rparr>, \<lparr>z_id = 1, z_cpus = {4, 5}\<rparr>], t_online = {0, 1, 2, 3, 4, 5}\<rparr>"

theorem place_dedicated_numa_witness:
  "place_dedicated rat_quantity two_zones 1 numa_pod ({1, 2, 3, 4, 5}, []) =
     ({1, 2, 3}, [dedicated_pool (numa_pod, {4, 5})]) \<and>
   (\<exists>z taken. z \<in> set (t_zones two_zones) \<and> taken \<subseteq> z_cpus z \<and>
     place_dedicated rat_quantity two_zones 1 numa_pod ({1, 2, 3, 4, 5}, []) =
       ({1, 2, 3, 4, 5} - taken, [] @ [dedicated_pool (numa_pod, taken)]))"
proof
  have "WantsNUMABinding rat_quantity numa_pod" "wholeCoresFor rat_quantity numa_pod = 2" by code_simp+
  moreover have "cpuset_Size {1, 2, 3, 4, 5} = 5" "cpuset_Size ({0, 1, 2, 3} \<inter> {1, 2, 3, 4, 5}) = 3" by code_simp+
  ultimately show "\<exists>z taken. z \<in> set (t_zones two_zones) \<and> taken \<subseteq> z_cpus z \<and>
     place_dedicated rat_quantity two_zones 1 numa_pod ({1, 2, 3, 4, 5}, []) =
       ({1, 2, 3, 4, 5} - taken, [] @ [dedicated_pool (numa_pod, taken)])"
    using place_dedicated_numa [of rat_quantity numa_pod "{1, 2, 3, 4, 5}" 1 "\<lparr>z_id = 0, z_cpus = {0, 1, 2, 3}\<rparr>" two_zones "[]"]
    by (auto simp: two_zones_def)
  show "place_dedicated rat_quantity two_zones 1 numa_pod ({1, 2, 3, 4, 5}, []) =
     ({1, 2, 3}, [dedicated_pool (numa_pod, {4, 5})])" by code_simp
qed

section \<open>A steady state writes nothing\<close>

definition same_env :: "pool_state \<Rightarrow> pool_state \<Rightarrow> bool" where
  "same_env = (\<lambda>(m, r, fs) (m', r', fs').
     pm_base m' = pm_base m \<and> pm_topology m' = pm_topology m \<and> pm_cfg m' = pm_cfg m \<and> pm_pools m' = pm_pools m \<and>
     r_base r' = r_base r \<and> r_max_depth r' = r_max_depth r \<and>
     fs_dirs fs' = fs_dirs fs \<and> fs_accepts fs' = fs_accepts fs \<and> dom (fs_files fs) \<subseteq> dom (fs_files fs'))"

text \<open>Two states that agree on what belongs to one pod.\<close>

definition same_pod :: "string \<Rightarrow> pool_state \<Rightarrow> pool_state \<Rightarrow> bool" where
  "same_pod u = (\<lambda>(m, r, fs) (m', r', fs').
     pm_weight m' u = pm_weight m u \<and> pm_cpuset m' u = pm_cpuset m u \<and> r_cache r' u = r_cache r u)"

definition settled :: "'q quantity_ops \<Rightarrow> pool list \<Rightarrow> 'q pod \<Rightarrow> pool_state \<Rightarrow> bool" where
  "settled Q pools pod = (\<lambda>(m, r, fs).
     (r_cache r (p_uid pod) = None \<and> resolver_search fs r (pod_match (p_uid pod)) = []) \<or>
     (pm_weight m (p_uid pod) = Some (WeightFor (level_of Q pod)) \<and>
      (kp_enabled (pm_cfg m) \<longrightarrow>
        (\<forall>c. cpusForPod pools (p_uid pod) (level_of Q pod) = Some c \<longrightarrow>
           cpuset_String c = [] \<or> pm_cpuset m (p_uid pod) = Some (cpuset_String c)))))"

lemma bfs_dirs: "fs_dirs fs' = fs_dirs fs \<Longrightarrow> bfs fs' base mt D q = bfs fs base mt D q"
proof (induction q rule: bfs_queue_induct [where fs = fs and base = base and mt = mt and D = D])
  case (Unreadable rel d q)
  then show ?case by (simp add: bfs_step)
next
  case (Descend rel d q es)
  then show ?case by (simp add: bfs_step)
next
  case (Hit rel d q es e es')
  then show ?case by (simp add: bfs_step)
qed simp

lemma search_env:
  "same_env (m, r, fs) (m', r', fs') \<Longrightarrow> resolver_search fs' r' mt = resolver_search fs r mt"
  by (simp add: resolver_search_def same_env_def bfs_dirs [of fs' fs])

lemma same_env_refl [simp]: "same_env s s"
  by (cases s) (simp add: same_env_def)

lemma same_env_trans: "same_env a b \<Longrightarrow> same_env b c \<Longrightarrow> same_env a c"
  by (cases a; cases b; cases c) (auto simp: same_env_def)

lemma settled_env:
  "settled Q pools pod s \<Longrightarrow> same_env s s' \<Longrightarrow> same_pod (p_uid pod) s s' \<Longrightarrow> settled Q pools pod s'"
  using search_env by (cases s; cases s') (simp add: settled_def same_pod_def, simp add: same_env_def)

lemma PodPath_max_depth: "PodPath fs r uid = (res, r') \<Longrightarrow> r_max_depth r' = r_max_depth r"
  by (auto simp: PodPath_def find_pod_def Let_def split: option.splits if_splits)

lemma PodPath_None_search: "PodPath fs r uid = (None, r') \<Longrightarrow> resolver_search fs r' (pod_match uid) = []"
  by (auto simp: PodPath_def find_pod_def Let_def resolver_search_def split: option.splits if_splits)

lemma WeightFor_pos: "0 < WeightFor level"
  by (simp add: WeightFor_def)

lemma apply_weight_result:
  assumes "apply_weight path uid w (m, fs) = (m', fs')"
  shows "same_env (m, r, fs) (m', r, fs')" "u \<noteq> uid \<Longrightarrow> pm_weight m' u = pm_weight m u" "pm_cpuset m' = pm_cpuset m"
    and "\<forall>p t. fs_accepts fs p t \<Longrightarrow> 0 < w \<Longrightarrow> pm_weight m' uid = Some w"
    and "pm_weight m uid = Some w \<Longrightarrow> (m', fs') = (m, fs)"
  using assms
  by (auto simp: apply_weight_def cg_SetCPUWeight_def os_WriteFile_def same_env_def kv_get_def Let_def
      split: if_splits option.splits)

lemma apply_cpuset_result:
  assumes "apply_cpuset path uid cpus (m, fs) = (m', fs')"
  shows "same_env (m, r, fs) (m', r, fs')" "u \<noteq> uid \<Longrightarrow> pm_cpuset m' u = pm_cpuset m u" "pm_weight m' = pm_weight m"
    and "\<forall>p t. fs_accepts fs p t \<Longrightarrow> cpus = Some c \<Longrightarrow> cpuset_String c = [] \<or> pm_cpuset m' uid = Some (cpuset_String c)"
    and "\<forall>c. cpus = Some c \<longrightarrow> cpuset_String c = [] \<or> pm_cpuset m uid = Some (cpuset_String c) \<Longrightarrow> (m', fs') = (m, fs)"
  using assms
  by (auto simp: apply_cpuset_def cg_SetCPUSetCPUs_def os_WriteFile_def same_env_def kv_get_def Let_def
      split: if_splits option.splits)

text \<open>
  The branches of one pod: its cgroup is not found, or its weight is applied, and with pools on
  its CPU set too.
\<close>

lemma reconcile_pod_cases:
  assumes "reconcile_pod Q pools pod (m, r, fs) = (m', r', fs')"
  obtains (absent) "PodPath fs r (p_uid pod) = (None, r')" "m' = m" "fs' = fs"
  | (weighed) path where "PodPath fs r (p_uid pod) = (Some path, r')" "\<not> kp_enabled (pm_cfg m)"
      "apply_weight path (p_uid pod) (WeightFor (level_of Q pod)) (m, fs) = (m', fs')"
  | (pinned) path m1 fs1 where "PodPath fs r (p_uid pod) = (Some path, r')" "kp_enabled (pm_cfg m)"
      "apply_weight path (p_uid pod) (WeightFor (level_of Q pod)) (m, fs) = (m1, fs1)"
      "apply_cpuset path (p_uid pod) (cpusForPod pools (p_uid pod) (level_of Q pod)) (m1, fs1) = (m', fs')"
proof -
  obtain res r1 where p: "PodPath fs r (p_uid pod) = (res, r1)" by fastforce
  show thesis
  proof (cases res)
    case None
    then show thesis using absent assms p by (simp add: reconcile_pod_def Let_def)
  next
    case (Some path)
    obtain m1 fs1 where w: "apply_weight path (p_uid pod) (WeightFor (level_of Q pod)) (m, fs) = (m1, fs1)" by fastforce
    have "pm_cfg m1 = pm_cfg m" using apply_weight_result(1) [OF w, of r1] by (simp add: same_env_def)
    then show thesis using weighed pinned assms p w Some
      by (cases "kp_enabled (pm_cfg m)") (simp_all add: reconcile_pod_def Let_def split: prod.splits)
  qed
qed

lemma PodPath_env: "PodPath fs r uid = (res, r1) \<Longrightarrow> same_env (m, r, fs) (m, r1, fs)"
  using PodPath_cache(4) [of fs r uid res r1] PodPath_max_depth [of fs r uid res r1] by (simp add: same_env_def)

lemma PodPath_found: "PodPath fs r uid = (Some path, r1) \<Longrightarrow> \<not> (r_cache r uid = None \<and> resolver_search fs r (pod_match uid) = [])"
  by (auto simp: PodPath_def find_pod_def Let_def)

lemma reconcile_pod_step:
  assumes "reconcile_pod Q pools pod (m, r, fs) = (m', r', fs')"
  shows "same_env (m, r, fs) (m', r', fs')"
    and "u \<noteq> p_uid pod \<Longrightarrow> same_pod u (m, r, fs) (m', r', fs')"
    and "\<forall>p t. fs_accepts fs p t \<Longrightarrow> settled Q pools pod (m', r', fs')"
    and "settled Q pools pod (m, r, fs) \<Longrightarrow> m' = m \<and> fs' = fs"
proof -
  let ?u = "p_uid pod"
  have "same_env (m, r, fs) (m', r', fs') \<and> (u \<noteq> ?u \<longrightarrow> same_pod u (m, r, fs) (m', r', fs')) \<and>
    ((\<forall>p t. fs_accepts fs p t) \<longrightarrow> settled Q pools pod (m', r', fs')) \<and>
    (settled Q pools pod (m, r, fs) \<longrightarrow> m' = m \<and> fs' = fs)"
    using assms
  proof (cases rule: reconcile_pod_cases)
    case absent
    have "settled Q pools pod (m, r', fs)"
      using PodPath_None_search [of fs r ?u r'] absent(1) PodPath_cache(1) [OF absent(1)] by (simp add: settled_def)
    then show ?thesis using PodPath_env [OF absent(1)] PodPath_cache(2) [OF absent(1)] unfolding absent(2,3)
      by (simp add: same_pod_def)
  next
    case (weighed path)
    note aw = apply_weight_result [OF weighed(3)]
    have "same_env (m, r, fs) (m', r', fs')" using same_env_trans [OF PodPath_env [OF weighed(1)] aw(1)] .
    moreover have "pm_cfg m' = pm_cfg m" using aw(1) [of r'] by (simp add: same_env_def)
    ultimately show ?thesis
      using aw(2-5) PodPath_cache(2) [OF weighed(1)] PodPath_found [OF weighed(1)] weighed(2) WeightFor_pos
      by (auto simp: same_pod_def settled_def)
  next
    case (pinned path m1 fs1)
    note aw = apply_weight_result [OF pinned(3)] and ac = apply_cpuset_result [OF pinned(4)]
    have envw: "same_env (m, r, fs) (m1, r', fs1)" using same_env_trans [OF PodPath_env [OF pinned(1)] aw(1)] .
    have acc: "fs_accepts fs1 = fs_accepts fs" using envw by (simp add: same_env_def)
    have "settled Q pools pod (m, r, fs) \<longrightarrow> m' = m \<and> fs' = fs"
      using PodPath_found [OF pinned(1)] pinned(2) aw(5) ac(5) by (auto simp: settled_def)
    moreover have "u \<noteq> ?u \<longrightarrow> same_pod u (m, r, fs) (m', r', fs')"
      using aw(2,3) ac(2,3) PodPath_cache(2) [OF pinned(1)] by (simp add: same_pod_def)
    moreover have "(\<forall>p t. fs_accepts fs p t) \<longrightarrow> settled Q pools pod (m', r', fs')"
      using aw(4) ac(3,4) acc WeightFor_pos by (auto simp: settled_def)
    ultimately show ?thesis using same_env_trans [OF envw ac(1)] by blast
  qed
  then show "same_env (m, r, fs) (m', r', fs')" "u \<noteq> ?u \<Longrightarrow> same_pod u (m, r, fs) (m', r', fs')"
    "\<forall>p t. fs_accepts fs p t \<Longrightarrow> settled Q pools pod (m', r', fs')"
    "settled Q pools pod (m, r, fs) \<Longrightarrow> m' = m \<and> fs' = fs" by blast+
qed

lemma reconcile_pods_settle:
  assumes "\<forall>p t. fs_accepts (snd (snd s)) p t" "distinct (map p_uid (done @ pods))"
    and "\<forall>pod \<in> set done. settled Q pools pod s"
  shows "same_env s (fold (reconcile_pod Q pools) pods s) \<and>
    (\<forall>pod \<in> set (done @ pods). settled Q pools pod (fold (reconcile_pod Q pools) pods s))"
  using assms
proof (induction pods arbitrary: s "done")
  case (Cons pod pods)
  obtain m r fs where s: "s = (m, r, fs)" by (cases s)
  obtain m' r' fs' where st: "reconcile_pod Q pools pod s = (m', r', fs')" by (cases "reconcile_pod Q pools pod s")
  note step = reconcile_pod_step [OF st [unfolded s]]
  have acc: "\<forall>p t. fs_accepts fs p t" using Cons.prems(1) s by simp
  have acc': "\<forall>p t. fs_accepts (snd (snd (m', r', fs'))) p t"
    using step(1) acc by (simp add: same_env_def)
  have "\<forall>pod' \<in> set (done @ [pod]). settled Q pools pod' (m', r', fs')"
  proof
    fix pod' assume p': "pod' \<in> set (done @ [pod])"
    show "settled Q pools pod' (m', r', fs')"
    proof (cases "pod' = pod")
      case False
      with p' have d: "pod' \<in> set done" by simp
      then have "p_uid pod' \<noteq> p_uid pod" using Cons.prems(2) by (force simp: image_iff)
      from settled_env [OF _ step(1) step(2) [OF this]] Cons.prems(3) d s show ?thesis by simp
    qed (use step(3) acc in simp)
  qed
  from Cons.IH [OF acc' _ this] Cons.prems(2)
  have "same_env (m', r', fs') (fold (reconcile_pod Q pools) pods (m', r', fs'))"
    "\<forall>p \<in> set ((done @ [pod]) @ pods). settled Q pools p (fold (reconcile_pod Q pools) pods (m', r', fs'))" by simp_all
  then show ?case using same_env_trans [OF step(1)] s st by simp
qed simp

lemma reconcile_pods_quiet:
  assumes "\<forall>pod \<in> set pods. settled Q pools pod (m, r, fs)" "distinct (map p_uid pods)"
  shows "\<exists>r'. fold (reconcile_pod Q pools) pods (m, r, fs) = (m, r', fs)"
  using assms
proof (induction pods arbitrary: r)
  case (Cons pod pods)
  obtain m' r' fs' where st: "reconcile_pod Q pools pod (m, r, fs) = (m', r', fs')"
    by (cases "reconcile_pod Q pools pod (m, r, fs)")
  note step = reconcile_pod_step [OF st]
  have q: "m' = m" "fs' = fs" using step(4) Cons.prems(1) by simp_all
  have "\<forall>p \<in> set pods. settled Q pools p (m, r', fs)"
  proof
    fix p assume p: "p \<in> set pods"
    then have "p_uid p \<noteq> p_uid pod" using Cons.prems(2) by (force simp: image_iff)
    from settled_env [OF _ step(1) step(2) [OF this]] Cons.prems(1) p show "settled Q pools p (m, r', fs)"
      by (simp add: q)
  qed
  with Cons st q show ?case by simp
qed simp

lemma settled_drop_gone:
  "settled Q pools pod (m, r, fs) \<Longrightarrow> p_uid pod \<in> alive \<Longrightarrow> settled Q pools pod (drop_gone alive m, r, fs)"
  by (simp add: settled_def drop_gone_def Let_def)

lemma Reconcile_unfold:
  "pool_Reconcile Q pods (m, r, fs) = Some (Inr (), (m', r', fs')) \<Longrightarrow>
   cg_Available fs (pm_base m) \<and> (\<exists>pools m1. computePools Q (pm_topology m) (pm_cfg m) pods = Some pools \<and>
     fold (reconcile_pod Q pools) pods (m\<lparr>pm_pools := pools\<rparr>, r, fs) = (m1, r', fs') \<and> m' = drop_gone (p_uid ` set pods) m1)"
  by (auto simp: pool_Reconcile_def split: if_splits option.splits prod.splits)

text \<open>
  C18. A steady state writes nothing. Where the kernel accepts the writes, a second pass over
  the same pods right after a first one performs no write at all, not even of a content that a file
  already has: the record of writes, every cgroup file and the manager's memory are what the first
  pass left, whatever the pods' cgroups, levels and pools.
\<close>

theorem Reconcile_steady:
  assumes "pool_Reconcile Q pods (m, r, fs) = Some (Inr (), (m1, r1, fs1))"
    and "\<forall>p t. fs_accepts fs p t" and "distinct (map p_uid pods)"
  shows "\<exists>r2. pool_Reconcile Q pods (m1, r1, fs1) = Some (Inr (), (m1, r2, fs1))"
proof -
  from Reconcile_unfold [OF assms(1)] obtain pools m0 where
    av: "cg_Available fs (pm_base m)" and pools: "computePools Q (pm_topology m) (pm_cfg m) pods = Some pools" and
    f: "fold (reconcile_pod Q pools) pods (m\<lparr>pm_pools := pools\<rparr>, r, fs) = (m0, r1, fs1)" and
    m1: "m1 = drop_gone (p_uid ` set pods) m0" by blast
  from reconcile_pods_settle [of "(m\<lparr>pm_pools := pools\<rparr>, r, fs)" "[]" pods Q pools] assms(2,3) f
  have env: "same_env (m\<lparr>pm_pools := pools\<rparr>, r, fs) (m0, r1, fs1)"
    and set0: "\<forall>pod \<in> set pods. settled Q pools pod (m0, r1, fs1)" by simp_all
  have keep: "pm_base m1 = pm_base m" "pm_topology m1 = pm_topology m" "pm_cfg m1 = pm_cfg m" "pm_pools m1 = pools"
    using env by (simp_all add: m1 drop_gone_def Let_def same_env_def)
  have av1: "cg_Available fs1 (pm_base m1)"
    using av env unfolding keep by (auto simp: cg_Available_def Let_def same_env_def)
  have "\<forall>pod \<in> set pods. settled Q pools pod (m1, r1, fs1)" using set0 by (simp add: m1 settled_drop_gone)
  from reconcile_pods_quiet [OF this assms(3)] obtain r2
    where q: "fold (reconcile_pod Q pools) pods (m1, r1, fs1) = (m1, r2, fs1)" by blast
  have same: "m1\<lparr>pm_pools := pools\<rparr> = m1" using keep(4) by simp
  have "drop_gone (p_uid ` set pods) m1 = m1"
    unfolding m1 by (auto simp: drop_gone_def Let_def fun_eq_iff)
  with q av1 pools show ?thesis by (simp add: pool_Reconcile_def keep(1-3) same)
qed

definition ready_fs :: os_fs where
  "ready_fs = example_fs\<lparr>fs_files := [''/cg/cgroup.controllers'' \<mapsto> ''cpu cpuset'']\<rparr>"

definition ready_pod :: "rat pod" where
  "ready_pod = dedicated_pod\<lparr>p_uid := ''aa-bb''\<rparr>"

lemma ready_path: "fst (PodPath ready_fs (NewResolver ''/cg'') ''aa-bb'') = Some ''kubepods/podaa-bb''"
  by code_simp

lemma ready_level: "level_of rat_quantity ready_pod = QoSDedicatedCores"
  by code_simp

lemma ready_available: "cg_Available ready_fs ''/cg''"
  by code_simp

lemma ready_pools:
  "map_option (map pool_core) (computePools rat_quantity four_cpus (pool_cfg 1) [ready_pod]) =
     Some [(''aa-bb'', QoSDedicatedCores, {0, 1}), (''shared'', QoSSharedCores, {2, 3}), (''reclaimed'', QoSReclaimedCores, {2, 3})]"
  by code_simp

text \<open>The first pass writes something; the second writes nothing.\<close>

lemma ready_first:
  "\<exists>m1 r1 fs1. pool_Reconcile rat_quantity [ready_pod]
       (NewManager ''/cg'' four_cpus (pool_cfg 1), NewResolver ''/cg'', ready_fs) = Some (Inr (), (m1, r1, fs1)) \<and> fs_writes fs1 \<noteq> []"
proof -
  obtain pools where p: "computePools rat_quantity four_cpus (pool_cfg 1) [ready_pod] = Some pools"
    using ready_pools by blast
  obtain r where r: "PodPath ready_fs (NewResolver ''/cg'') ''aa-bb'' = (Some ''kubepods/podaa-bb'', r)"
    using ready_path by (metis prod.collapse)
  let ?m = "(NewManager ''/cg'' four_cpus (pool_cfg 1))\<lparr>pm_pools := pools\<rparr>"
  have uid: "p_uid ready_pod = ''aa-bb''" by (simp add: ready_pod_def)
  obtain m1 fs1 where w: "apply_weight ''kubepods/podaa-bb'' ''aa-bb'' 5000 (?m, ready_fs) = (m1, fs1)" by fastforce
  then have "fs_writes fs1 \<noteq> []" "fs_accepts fs1 = fs_accepts ready_fs"
    by (auto simp: apply_weight_def NewManager_def kv_get_def cg_SetCPUWeight_def os_WriteFile_def ready_fs_def example_fs_def
        accepting_fs_def Let_def)
  moreover obtain m2 fs2 where c: "apply_cpuset ''kubepods/podaa-bb'' ''aa-bb'' (cpusForPod pools ''aa-bb'' QoSDedicatedCores) (m1, fs1) = (m2, fs2)"
    by fastforce
  ultimately have "fs_writes fs2 \<noteq> []"
    by (auto simp: apply_cpuset_def cg_SetCPUSetCPUs_def os_WriteFile_def Let_def split: option.splits if_splits)
  moreover have "pm_cfg m1 = pool_cfg 1" using apply_weight_result(1) [OF w, of r] by (simp add: same_env_def NewManager_def)
  then have "reconcile_pod rat_quantity pools ready_pod (?m, NewResolver ''/cg'', ready_fs) = (m2, r, fs2)"
    using w c by (simp add: reconcile_pod_def uid r ready_level WeightFor_def level_defs pool_cfg_def)
  moreover have "pm_base (NewManager ''/cg'' four_cpus (pool_cfg 1)) = ''/cg''"
    "pm_topology (NewManager ''/cg'' four_cpus (pool_cfg 1)) = four_cpus" "pm_cfg (NewManager ''/cg'' four_cpus (pool_cfg 1)) = pool_cfg 1"
    by (simp_all add: NewManager_def)
  ultimately show ?thesis by (simp add: pool_Reconcile_def ready_available p)
qed

theorem Reconcile_steady_witness:
  "\<exists>m1 r1 fs1 r2. pool_Reconcile rat_quantity [ready_pod]
       (NewManager ''/cg'' four_cpus (pool_cfg 1), NewResolver ''/cg'', ready_fs) = Some (Inr (), (m1, r1, fs1)) \<and>
     fs_writes fs1 \<noteq> [] \<and>
     pool_Reconcile rat_quantity [ready_pod] (m1, r1, fs1) = Some (Inr (), (m1, r2, fs1))"
proof -
  obtain m1 r1 fs1 where f: "pool_Reconcile rat_quantity [ready_pod] (NewManager ''/cg'' four_cpus (pool_cfg 1), NewResolver ''/cg'', ready_fs)
      = Some (Inr (), (m1, r1, fs1))" "fs_writes fs1 \<noteq> []" using ready_first by blast
  have "\<forall>p t. fs_accepts ready_fs p t" by (simp add: ready_fs_def example_fs_def accepting_fs_def)
  from Reconcile_steady [OF f(1) this] f show ?thesis by auto
qed

section \<open>Detection\<close>

definition topology_ok :: "topology \<Rightarrow> bool" where
  "topology_ok t \<longleftrightarrow> t_online t = (\<Union>z \<in> set (t_zones t). z_cpus z) \<and> finite (t_online t) \<and>
     (\<forall>z \<in> set (t_zones t). z_cpus z \<noteq> {}) \<and> (\<forall>i \<in> t_online t. 0 \<le> i)"

lemma detect_zones_ok:
  "detect_zones fs sp ids t = Some t' \<Longrightarrow> topology_ok t \<Longrightarrow> topology_ok t'"
proof (induction fs sp ids t rule: detect_zones.induct)
  case (2 fs sp nid ids t)
  show ?case
  proof (cases "fs_files fs (filepath_Join [sp, ''node'' @ itoa nid, ''cpulist''])")
    case None
    with 2 show ?thesis by simp
  next
    case (Some raw)
    show ?thesis
    proof (cases "cpuset_Parse (trim_space raw)")
      case None
      with 2 Some show ?thesis by simp
    next
      case parsed: (Some res)
      show ?thesis
      proof (cases res)
        case (Inl e)
        with 2 Some parsed show ?thesis by simp
      next
        case (Inr cpus)
        note ids = parse_ids [OF parsed [unfolded Inr]]
        show ?thesis
        proof (cases "cpuset_IsEmpty cpus")
          case True
          with 2 Some parsed Inr show ?thesis by simp
        next
          case False
          let ?t = "\<lparr>t_zones = t_zones t @ [\<lparr>z_id = nid, z_cpus = cpus\<rparr>], t_online = cpuset_Union (t_online t) cpus\<rparr>"
          have "topology_ok ?t"
            using "2.prems"(2) ids False by (auto simp: topology_ok_def cpuset_simps cpuset_IsEmpty_iff)
          with "2.IH"(4) [OF Some parsed Inr False] "2.prems"(1) Some parsed Inr False show ?thesis by simp
        qed
      qed
    qed
  qed
qed simp

text \<open>
  Detection never leaves the node without CPUs: whatever sysfs holds, a detected
  topology has at least one zone, its zones are in id order, none is empty, and together they
  are exactly the online CPUs, a finite set of non-negative ids; what is unreadable or
  malformed is skipped, down to the single fallback zone.
\<close>

theorem DetectTopology_ok:
  assumes "DetectTopology fs sysPath n = Some t"
  shows "t_zones t \<noteq> [] \<and> sorted (map z_id (t_zones t)) \<and> (\<forall>z \<in> set (t_zones t). z_cpus z \<noteq> {}) \<and>
    t_online t = (\<Union>z \<in> set (t_zones t). z_cpus z) \<and> finite (t_online t) \<and> t_online t \<noteq> {} \<and> (\<forall>i \<in> t_online t. 0 \<le> i)"
proof -
  let ?p = "if sysPath = [] then SysNodePath else sysPath" and ?e = "\<lparr>t_zones = [], t_online = {}\<rparr>"
  have e: "topology_ok ?e" by (simp add: topology_ok_def)
  define d where "d = (case fs_files fs (filepath_Join [?p, ''online'']) of
      None \<Rightarrow> Some ?e
    | Some online \<Rightarrow> (case cpuset_Parse (trim_space online) of
         None \<Rightarrow> None | Some (Inl _) \<Rightarrow> Some ?e
       | Some (Inr nodeIDs) \<Rightarrow> detect_zones fs ?p (cpuset_List nodeIDs) ?e))"
  obtain t0 where d0: "d = Some t0" using assms by (cases d) (simp_all add: DetectTopology_def Let_def d_def)
  have ok0: "topology_ok t0"
    using d0 e detect_zones_ok unfolding d_def by (auto split: option.splits sum.splits)
  define t1 where "t1 = (if t_zones t0 = [] then
      (let n = (if n < 1 then 1 else n); all = cpuset_NewRange 0 n
       in \<lparr>t_zones = [\<lparr>z_id = 0, z_cpus = all\<rparr>], t_online = all\<rparr>) else t0)"
  have t: "t = t1\<lparr>t_zones := sort_key z_id (t_zones t1)\<rparr>"
    using assms d0 unfolding DetectTopology_def Let_def d_def [symmetric, unfolded Let_def] t1_def by simp
  have "topology_ok t1 \<and> t_zones t1 \<noteq> []"
    using ok0 by (auto simp: t1_def topology_ok_def cpuset_simps Let_def)
  then have ok: "topology_ok t1" and ne: "t_zones t1 \<noteq> []" by simp_all
  have z: "set (t_zones t) = set (t_zones t1)" "t_online t = t_online t1" by (simp_all add: t)
  have "t_zones t \<noteq> []" using ne z(1) by (metis set_empty)
  moreover have "sorted (map z_id (t_zones t))" by (simp add: t)
  moreover have "t_online t \<noteq> {}"
    using ok ne unfolding z topology_ok_def by (cases "t_zones t1") auto
  ultimately show ?thesis using ok unfolding topology_ok_def z by blast
qed

theorem DetectTopology_ok_witness:
  "\<exists>t. DetectTopology accepting_fs '''' 4 = Some t \<and> t_online t = (\<Union>z \<in> set (t_zones t). z_cpus z) \<and> t_online t \<noteq> {}"
proof -
  have "DetectTopology accepting_fs '''' 4 \<noteq> None" by code_simp
  then obtain t where "DetectTopology accepting_fs '''' 4 = Some t" by auto
  with DetectTopology_ok [OF this] show ?thesis by blast
qed

end
