(* ===== verification/Order_Statistics.thy ===== *)
theory Order_Statistics
  imports Go_Float
begin

text \<open>
  The nearest-rank percentile, which both the advisor's window and the controller's usage
  store compute with the same code, in floating point. The interface \<open>order_statistic\<close> is what
  either client relies on: the result is one of the observations and does not depend on the
  order they came in.
\<close>

section \<open>The rank\<close>

text \<open>
  \<^verbatim>\<open>rank := int(math.Ceil(p / 100 * float64(len(vals))))\<close>, then clamped to
  \<^verbatim>\<open>1..len(vals)\<close>.
\<close>

definition raw_rank :: "f64 \<Rightarrow> nat \<Rightarrow> int" where
  "raw_rank p n = f_to_i64 (math_ceil (f_mul (f_div p 100) (f_of_int (int n))))"

definition rank_of :: "f64 \<Rightarrow> nat \<Rightarrow> int" where
  "rank_of p n =
     (let r1 = (if raw_rank p n < 1 then 1 else raw_rank p n)
      in if r1 > int n then int n else r1)"

definition nearest_rank :: "rat list \<Rightarrow> f64 \<Rightarrow> f64" where
  "nearest_rank vals p =
     (if vals = [] then 0 else vals ! nat (rank_of p (length vals) - 1))"

lemma rank_of_bounds: "0 < n \<Longrightarrow> 1 \<le> rank_of p n \<and> rank_of p n \<le> int n"
  by (auto simp: rank_of_def Let_def)

lemma raw_rank_mono: "0 \<le> p \<Longrightarrow> p \<le> q \<Longrightarrow> q \<le> 100 \<Longrightarrow> int n \<le> 2 ^ 53 \<Longrightarrow> raw_rank p n \<le> raw_rank q n"
proof -
  assume pq: "0 \<le> p" "p \<le> q" "q \<le> 100" and n: "int n \<le> 2 ^ 53"
  let ?y = "\<lambda>p. fl (fl (p / 100) * of_int (int n))"
  have dm: "fl (p / 100) \<le> fl (q / 100)" using pq by (intro fl_mono divide_right_mono) auto
  have q1: "fl (q / 100) \<le> 1" using fl_le_int [of "q / 100" 1] pq by simp
  have p0: "0 \<le> fl (p / 100)" using pq by simp
  have y: "?y p \<le> ?y q" by (rule fl_mono, rule mult_right_mono [OF dm]) simp
  have up: "?y q \<le> of_int (int n)"
    using q1 n by (intro fl_le_int) (auto intro: mult_left_le_one_le p0 order_trans [OF p0 dm])
  have low: "0 \<le> ?y p" using p0 by simp
  have bnd: "in_i64 \<lceil>z\<rceil>" if "0 \<le> z" "z \<le> of_int (int n)" for z :: rat
  proof -
    have "\<lceil>z\<rceil> \<le> int n" using that by (simp add: ceiling_le_iff)
    moreover have "0 \<le> \<lceil>z\<rceil>" using that by (simp add: order_trans [of _ 0])
    moreover have "int n \<le> 9007199254740992" using n by simp
    ultimately show ?thesis by (intro in_i64I; linarith)
  qed
  have "raw_rank p n = \<lceil>?y p\<rceil>" and "raw_rank q n = \<lceil>?y q\<rceil>"
    unfolding raw_rank_def f_ops math_ceil_def using bnd n y up low
    by (simp_all add: f_to_i64_of_int order_trans [OF y up] order_trans [OF low y] del: of_int_of_nat_eq)
  with y show ?thesis by (simp add: ceiling_mono)
qed

lemma rank_of_mono:
  "0 \<le> p \<Longrightarrow> p \<le> q \<Longrightarrow> q \<le> 100 \<Longrightarrow> int n \<le> 2 ^ 53 \<Longrightarrow> rank_of p n \<le> rank_of q n"
  using raw_rank_mono [of p q n] by (auto simp: rank_of_def Let_def)

section \<open>The rank is exact\<close>

text \<open>A float close enough to an integer is that integer after rounding.\<close>

lemma fl_near_int:
  assumes k: "0 < k" "k \<le> 2 ^ 52" and near: "\<bar>y - of_int k\<bar> \<le> of_int k / 2 ^ 55"
  shows "fl y = of_int k"
proof -
  have yb: "of_int k * (1 - 1 / 2 ^ 55) \<le> y" "y \<le> of_int k * (1 + 1 / 2 ^ 55)"
    using near unfolding abs_le_iff by (simp_all add: right_diff_distrib distrib_left)
  have "0 < of_int k * (1 - 1 / 2 ^ 55 :: rat)" using k by simp
  with yb(1) have y: "0 < y" by linarith
  let ?e = "ulp_exp y"
  have ylt: "y < 2 ^ 53 * 2 powi ?e" and yge: "2 ^ 52 * 2 powi ?e \<le> y"
    using ilog2_bounds [OF y] by (simp_all add: ulp_exp_powi)
  have "?e \<le> 0"
  proof (rule ccontr)
    assume "\<not> ?e \<le> 0"
    then have "(2::rat) \<le> 2 powi ?e" using power_int_increasing [of 1 ?e "2::rat"] by simp
    with yge have "2 ^ 53 \<le> y" by simp
    moreover have "y \<le> 2 ^ 52 * (1 + 1 / 2 ^ 55)"
    proof -
      have "(of_int k :: rat) \<le> of_int (2 ^ 52)" using k by (simp only: of_int_le_iff)
      then have "of_int k * (1 + 1 / 2 ^ 55) \<le> (2 ^ 52 * (1 + 1 / 2 ^ 55) :: rat)"
        by (intro mult_right_mono) auto
      with yb(2) show ?thesis by linarith
    qed
    ultimately show False by simp
  qed
  then obtain j where j: "?e = - int j" using nonpos_int_cases by blast
  have pos: "0 < (2::rat) powi ?e" by simp
  have scaled: "of_int k / 2 powi ?e = (of_int (k * 2 ^ j) :: rat)"
    by (simp add: j power_int_minus divide_inverse)
  have "of_int k * (1 - 1 / 2 ^ 55) < 2 ^ 53 * (2 powi ?e :: rat)" using yb(1) ylt by linarith
  then have "of_int k < 2 ^ 54 * (2 powi ?e :: rat)" proof -
    define E where "E = (2::rat) powi ?e"
    assume "of_int k * (1 - 1 / 2 ^ 55) < 2 ^ 53 * (2 powi ?e :: rat)"
    then have "of_int k * (1 - 1 / 2 ^ 55) < 2 ^ 53 * E" and "0 < E" by (simp_all add: E_def)
    then have "of_int k < 2 ^ 54 * E" by (simp add: right_diff_distrib)
    then show ?thesis by (simp add: E_def)
  qed
  then have "of_int k / 2 ^ 55 < (1 / 2 :: rat) * 2 powi ?e" by simp
  with near have "\<bar>y - of_int k\<bar> < 1 / 2 * 2 powi ?e" by linarith
  then have "\<bar>(y - of_int k) / 2 powi ?e\<bar> < 1 / 2"
    using pos by (simp add: abs_divide pos_divide_less_eq)
  then have d: "\<bar>y / 2 powi ?e - of_int (k * 2 ^ j)\<bar> < 1 / 2"
    by (simp add: diff_divide_distrib scaled del: of_int_mult)
  have rhe_near: "rhe x = m" if "\<bar>x - of_int m\<bar> < 1 / 2" for x :: rat and m :: int
  proof -
    have "\<bar>of_int (rhe x) - of_int m\<bar> < (1 :: rat)" using rhe_err [of x] that by linarith
    then have "\<bar>rhe x - m\<bar> < 1" by (simp flip: of_int_diff of_int_abs)
    then show ?thesis by simp
  qed
  have "fl_pos y = of_int (k * 2 ^ j) * 2 powi ?e"
    unfolding fl_pos_def rhe_near [OF d] ..
  also have "\<dots> = of_int k" using scaled pos by (metis nonzero_eq_divide_eq less_irrefl)
  finally show ?thesis using y by (simp add: fl_def)
qed

text \<open>
  The percentiles kqos asks for. The float next to \<open>p / 100\<close> is at most the exact value for
  50, 95 and 99, and above it by a relative error below \<open>2 ^ -55\<close> for 90.
\<close>

lemma fl_percent:
  "fl (50 / 100) = 1 / 2"
  "fl (90 / 100) = 8106479329266893 / 2 ^ 53"
  "fl (95 / 100) = 8556839292003942 / 2 ^ 53"
  "fl (99 / 100) = 8917127262193582 / 2 ^ 53"
  by code_simp+


lemma ceil_fl_below:
  assumes "of_int m - 1 + 1 / 128 \<le> y" and "y \<le> of_int m" and "0 < m" and "m \<le> 2 ^ 46"
  shows "\<lceil>fl y\<rceil> = m"
proof -
  have "(of_int (128 * m - 127) :: rat) * 2 powi (-7) \<le> y"
    using assms(1) by (simp add: power_int_minus field_simps)
  then have "fl (of_int (128 * m - 127) * 2 powi (-7)) \<le> fl y" by (rule fl_mono)
  moreover have "fl (of_int (128 * m - 127) * 2 powi (-7)) = (of_int (128 * m - 127) * 2 powi (-7) :: rat)"
    by (rule fl_dyadic) (use assms(3,4) in simp)
  ultimately have "(of_int (128 * m - 127) :: rat) * 2 powi (-7) \<le> fl y" by simp
  then have "of_int m - 1 < fl y" by (simp add: power_int_minus field_simps)
  moreover have "fl y \<le> of_int m" by (rule fl_le_int) (use assms in auto)
  ultimately show ?thesis by (simp add: ceiling_unique)
qed

lemma ceil_percent:
  fixes p n :: int
  shows "\<lceil>of_int (p * n) / 100 :: rat\<rceil> = - ((- (p * n)) div 100)"
  using ceiling_divide_eq_div [of "p * n" 100, where ?'a = rat] by simp

lemma percent_margin:
  fixes p n :: int
  defines "q \<equiv> of_int (p * n) / (100 :: rat)"
  shows "of_int \<lceil>q\<rceil> - 1 + 1 / 100 \<le> q"
    and "q = of_int \<lceil>q\<rceil> \<or> q \<le> of_int \<lceil>q\<rceil> - 1 / 100"
proof -
  let ?m = "\<lceil>q\<rceil>"
  have q: "q * 100 = of_int (p * n)" by (simp add: q_def)
  have "q \<le> of_int ?m" "of_int ?m < q + 1" by linarith+
  then have "of_int (p * n) \<le> (of_int (100 * ?m) :: rat)" "of_int (100 * ?m) < (of_int (p * n + 100) :: rat)"
    unfolding of_int_add of_int_mult [of 100] q [symmetric] by linarith+
  then have m: "p * n \<le> 100 * ?m" "100 * ?m < p * n + 100" by (simp_all only: of_int_le_iff of_int_less_iff)
  have "of_int (100 * ?m - 99) \<le> (of_int (p * n) :: rat)" using m by (simp only: of_int_le_iff)
  then show "of_int \<lceil>q\<rceil> - 1 + 1 / 100 \<le> q" using q by (simp add: algebra_simps)
  show "q = of_int \<lceil>q\<rceil> \<or> q \<le> of_int \<lceil>q\<rceil> - 1 / 100"
  proof (cases "p * n = 100 * ?m")
    case True
    then have "q = of_int ?m" using q by (metis nonzero_mult_div_cancel_left of_int_mult of_int_numeral q_def zero_neq_numeral)
    then show ?thesis ..
  next
    case False
    with m have "of_int (p * n) \<le> (of_int (100 * ?m - 1) :: rat)" by (simp only: of_int_le_iff)
    then show ?thesis using q by (simp add: algebra_simps)
  qed
qed

text \<open>One percentile: a float \<open>x\<close> next to \<open>p / 100\<close>, from below or very near.\<close>

lemma ceil_rank:
  fixes p n :: int and x :: rat
  assumes p: "0 < p" "p \<le> 100" and n: "0 < n" "n \<le> 2 ^ 40"
    and err: "\<bar>x - of_int p / 100\<bar> \<le> 1 / 2 ^ 53"
    and side: "x \<le> of_int p / 100 \<or> \<bar>x - of_int p / 100\<bar> \<le> of_int p / 100 / 2 ^ 55"
  shows "\<lceil>fl (x * of_int n)\<rceil> = \<lceil>of_int (p * n) / 100 :: rat\<rceil>"
proof -
  let ?q = "of_int (p * n) / 100 :: rat" and ?y = "x * of_int n"
  let ?m = "\<lceil>?q\<rceil>"
  have npos: "0 < (of_int n :: rat)" using n by simp
  have diff: "?y - ?q = (x - of_int p / 100) * of_int n" by (simp add: algebra_simps)
  have "(of_int n :: rat) \<le> of_int (2 ^ 40)" using n by (simp only: of_int_le_iff)
  then have nle: "(of_int n :: rat) \<le> 2 ^ 40" by simp
  have "\<bar>?y - ?q\<bar> = \<bar>x - of_int p / 100\<bar> * of_int n" unfolding diff abs_mult using npos by simp
  also have "\<dots> \<le> 1 / 2 ^ 53 * 2 ^ 40" using err nle npos by (intro mult_mono) simp_all
  finally have tiny: "\<bar>?y - ?q\<bar> \<le> 1 / 2 ^ 13" by simp
  have q0: "0 < ?q" using p n by (simp add: zero_less_mult_iff)
  have m0: "0 < ?m" using q0 by simp
  have pn: "p * n \<le> 100 * 2 ^ 40" using p n by (intro mult_mono) simp_all
  have m46: "?m \<le> 2 ^ 46" unfolding ceil_percent using pn by simp
  have tiny': "?q - 1 / 2 ^ 13 \<le> ?y" "?y \<le> ?q + 1 / 2 ^ 13" using tiny unfolding abs_le_iff by linarith+
  have num: "(1 :: rat) / 128 + 1 / 2 ^ 13 \<le> 1 / 100" by simp
  have low: "of_int ?m - 1 + 1 / 128 \<le> ?y"
    using percent_margin(1) [of p n] tiny' num by linarith
  show ?thesis
  proof (cases "?y \<le> of_int ?m")
    case True
    then show ?thesis by (rule ceil_fl_below [OF low _ m0 m46])
  next
    case False
    have yq: "?q < ?y" using False by (meson le_of_int_ceiling le_less_trans not_le)
    then have "of_int p / 100 < x" using npos by (simp add: diff [symmetric] less_diff_eq algebra_simps mult_less_cancel_right)
    with side have "\<bar>x - of_int p / 100\<bar> \<le> of_int p / 100 / 2 ^ 55" by linarith
    then have "\<bar>x - of_int p / 100\<bar> * of_int n \<le> of_int p / 100 / 2 ^ 55 * of_int n"
      using npos by (intro mult_right_mono) simp_all
    then have rel: "\<bar>?y - ?q\<bar> \<le> ?q / 2 ^ 55" unfolding diff abs_mult using npos by simp
    from False percent_margin(2) [of p n] tiny' num have qm: "?q = of_int ?m" by linarith
    have "fl ?y = of_int ?m"
    proof (rule fl_near_int [OF m0])
      show "?m \<le> 2 ^ 52" using m46 by (rule order_trans) simp
      show "\<bar>?y - of_int ?m\<bar> \<le> of_int ?m / 2 ^ 55" using rel unfolding qm [symmetric] .
    qed
    then show ?thesis by simp
  qed
qed

lemma raw_rank_exact:
  assumes "p \<in> {50, 90, 95, 99}" and "0 < n" and "int n \<le> 2 ^ 40"
  shows "raw_rank (of_int p) n = \<lceil>of_int (p * int n) / 100 :: rat\<rceil>"
proof -
  let ?x = "fl (of_int p / 100)"
  have x: "\<bar>?x - of_int p / 100\<bar> \<le> 1 / 2 ^ 53 \<and>
      (?x \<le> of_int p / 100 \<or> \<bar>?x - of_int p / 100\<bar> \<le> of_int p / 100 / 2 ^ 55)"
    using assms(1) fl_percent by (auto simp: abs_if)
  have c: "\<lceil>fl (?x * of_int (int n))\<rceil> = \<lceil>of_int (p * int n) / 100 :: rat\<rceil>"
    by (rule ceil_rank) (use assms x in auto)
  have "0 \<le> p * int n" "p * int n \<le> 109951162777600" using assms by auto
  then have "in_i64 \<lceil>of_int (p * int n) / 100 :: rat\<rceil>"
    unfolding ceil_percent by (intro in_i64I; linarith)
  then show ?thesis
    unfolding raw_rank_def f_ops math_ceil_def using c assms(3)
    by (simp add: f_to_i64_of_int del: of_int_of_nat_eq)
qed

lemma rank_of_ceil:
  assumes "raw_rank x n = \<lceil>of_int (p * int n) / 100 :: rat\<rceil>" and "1 \<le> p" "p \<le> 100" "0 < n"
  shows "rank_of x n = \<lceil>of_int (p * int n) / 100 :: rat\<rceil>"
proof -
  have "1 \<le> p * int n" using assms by (simp add: int_one_le_iff_zero_less)
  moreover have "p * int n \<le> 100 * int n" using assms by (intro mult_right_mono) simp_all
  ultimately have "1 \<le> \<lceil>of_int (p * int n) / 100 :: rat\<rceil>" "\<lceil>of_int (p * int n) / 100 :: rat\<rceil> \<le> int n"
    unfolding ceil_percent by linarith+
  then show ?thesis by (simp add: rank_of_def assms(1))
qed

text \<open>
  C40. The floating-point rank is the mathematical nearest rank, without the off-by-one that
  a rounded percentage could cause, for every percentile kqos uses and every window of up to
  2 ^ 40 observations.
\<close>

theorem rank_of_exact:
  assumes "p \<in> {50, 90, 95, 99}" and "0 < n" and "int n \<le> 2 ^ 40"
  shows "rank_of (of_int p) n = \<lceil>of_int (p * int n) / 100 :: rat\<rceil>"
  using assms by (intro rank_of_ceil raw_rank_exact) auto

theorem rank_of_exact_witness:
  "rank_of (of_int 95) 20 = 19 \<and> rank_of (of_int 90) 10 = 9"
  using rank_of_exact [of 95 20] rank_of_exact [of 90 10] by simp

section \<open>Order statistics\<close>

locale order_statistic =
  fixes pick :: "f64 list \<Rightarrow> f64"
  assumes pick_in: "vals \<noteq> [] \<Longrightarrow> pick vals \<in> set vals"
    and pick_perm: "mset vals = mset vals' \<Longrightarrow> pick vals = pick vals'"
begin

lemma pick_between: "vals \<noteq> [] \<Longrightarrow> \<forall>v \<in> set vals. lo \<le> v \<and> v \<le> hi \<Longrightarrow> lo \<le> pick vals \<and> pick vals \<le> hi"
  using pick_in by blast

lemma pick_f64: "vals \<noteq> [] \<Longrightarrow> \<forall>v \<in> set vals. is_f64 v \<Longrightarrow> is_f64 (pick vals)"
  using pick_in by blast

end

lemma nearest_rank_index: "vals \<noteq> [] \<Longrightarrow> nat (rank_of p (length vals) - 1) < length vals"
  using rank_of_bounds [of "length vals" p] by auto

interpretation percentile_stat: order_statistic "\<lambda>vals. nearest_rank (sort vals) p"
  for p
proof
  show "nearest_rank (sort vals) p \<in> set vals" if "vals \<noteq> []" for vals :: "rat list"
  proof -
    have ne: "sort vals \<noteq> []" using that by (metis length_0_conv length_sort)
    then have "nearest_rank (sort vals) p \<in> set (sort vals)"
      using nth_mem [OF nearest_rank_index [OF ne]] by (simp add: nearest_rank_def)
    then show ?thesis by simp
  qed
  show "nearest_rank (sort vals) p = nearest_rank (sort vals') p" if "mset vals = mset vals'"
    for vals vals' :: "rat list"
  proof -
    have "sort vals = sort vals'" using that by (intro properties_for_sort) simp_all
    then show ?thesis by simp
  qed
qed

text \<open>The percentile splits the observations at its rank.\<close>

lemma nearest_rank_splits:
  fixes p :: f64
  assumes "vals \<noteq> []"
  defines "v \<equiv> nearest_rank (sort vals) p"
  shows "rank_of p (length vals) \<le> int (length (filter (\<lambda>x. x \<le> v) vals))"
    and "int (length (filter (\<lambda>x. x < v) vals)) < rank_of p (length vals)"
proof -
  let ?k = "nat (rank_of p (length vals) - 1)"
  have k: "?k < length (sort vals)" using nearest_rank_index [OF assms(1)] by simp
  have "sort vals \<noteq> []" using assms(1) by (metis length_0_conv length_sort)
  then have v: "v = sort vals ! ?k" by (simp add: v_def nearest_rank_def)
  have cnt: "length (filter P (sort vals)) = length (filter P vals)" for P
    by (metis mset_filter mset_sort size_mset)
  have r: "1 \<le> rank_of p (length vals)" using rank_of_bounds assms(1) by simp
  show "rank_of p (length vals) \<le> int (length (filter (\<lambda>x. x \<le> v) vals))"
    using sorted_nth_count_le [OF sorted_sort k] r unfolding cnt v by linarith
  show "int (length (filter (\<lambda>x. x < v) vals)) < rank_of p (length vals)"
    using sorted_nth_count_less [OF sorted_sort k] r unfolding cnt v by linarith
qed

lemma nearest_rank_mono:
  assumes "0 \<le> p" "p \<le> q" "q \<le> 100" "int (length vals) \<le> 2 ^ 53"
  shows "nearest_rank (sort vals) p \<le> nearest_rank (sort vals) q"
proof (cases "vals = []")
  case False
  have "rank_of p (length vals) \<le> rank_of q (length vals)" using assms by (rule rank_of_mono)
  then have "nat (rank_of p (length vals) - 1) \<le> nat (rank_of q (length vals) - 1)" by simp
  moreover have "nat (rank_of q (length vals) - 1) < length (sort vals)"
    using nearest_rank_index [OF False] by simp
  ultimately show ?thesis using False
    by (simp add: nearest_rank_def sorted_nth_mono)
qed (simp add: nearest_rank_def)

text \<open>The loop that keeps the largest value seen.\<close>

definition max_loop :: "f64 list \<Rightarrow> f64" where
  "max_loop vals = fold (\<lambda>v m. if v > m then v else m) (tl vals) (hd vals)"

lemma max_loop_eq: "vals \<noteq> [] \<Longrightarrow> max_loop vals = Max (set vals)"
proof -
  have f: "fold (\<lambda>v m. if v > m then v else m) xs a = Max (insert a (set xs))" for xs and a :: rat
  proof (induction xs arbitrary: a)
    case (Cons x xs)
    have "fold (\<lambda>v m. if v > m then v else m) (x # xs) a = fold (\<lambda>v m. if v > m then v else m) xs (max x a)"
      by (auto simp: max_def)
    also have "\<dots> = Max (insert (max x a) (set xs))" by (rule Cons.IH)
    also have "\<dots> = Max (insert a (set (x # xs)))"
      by (cases "xs = []") (simp_all add: max.commute max.left_commute max.assoc)
    finally show ?case .
  qed simp
  assume "vals \<noteq> []"
  then show ?thesis by (cases vals) (simp_all add: max_loop_def f)
qed

interpretation max_stat: order_statistic max_loop
proof
  show "max_loop vals \<in> set vals" if "vals \<noteq> []" for vals
    using that by (simp add: max_loop_eq)
  show "max_loop vals = max_loop vals'" if "mset vals = mset vals'" for vals vals'
  proof (cases "vals = []")
    case False
    then have "vals' \<noteq> []" and "set vals = set vals'" using that by (auto dest: mset_eq_setD)
    with False show ?thesis by (simp add: max_loop_eq)
  qed (use that in simp)
qed

end
