(* ===== verification/Window.thy ===== *)
theory Window
  imports Order_Statistics
begin

text \<open>
  The advisor's observation window (\<^verbatim>\<open>pkg/agent/sysadvisor/window.go\<close>): a ring of
  timestamped floats of fixed capacity that overwrites its oldest entry, read through a
  horizon. The abstraction \<open>obs\<close> is the list of the entries, oldest first; the ring refines
  "the last \<^verbatim>\<open>capacity\<close> observations".
\<close>

section \<open>The ring\<close>

record window =
  w_values :: "f64 list"
  w_stamps :: "gtime list"
  w_next :: nat
  w_filled :: bool
  w_capacity :: nat
  w_horizon :: duration

definition newWindow :: "int \<Rightarrow> duration \<Rightarrow> window" where
  "newWindow capacity0 horizon =
     (let capacity = nat (if capacity0 < 1 then 1 else capacity0)
      in \<lparr>w_values = replicate capacity 0, w_stamps = replicate capacity 0, w_next = 0,
          w_filled = False, w_capacity = capacity, w_horizon = horizon\<rparr>)"

definition window_push :: "f64 \<Rightarrow> gtime \<Rightarrow> window \<Rightarrow> window" where
  "window_push v stamp w =
     (let w1 = w\<lparr>w_values := (w_values w)[w_next w := v], w_stamps := (w_stamps w)[w_next w := stamp],
                 w_next := (w_next w + 1) mod w_capacity w\<rparr>
      in if w_next w1 = 0 then w1\<lparr>w_filled := True\<rparr> else w1)"

definition live_count :: "window \<Rightarrow> nat" where
  "live_count w = (if \<not> w_filled w then w_next w else w_capacity w)"

definition ring_index :: "window \<Rightarrow> nat \<Rightarrow> nat" where
  "ring_index w i = (if w_filled w then (w_next w + i) mod w_capacity w else i)"

definition window_live :: "window \<Rightarrow> gtime \<Rightarrow> f64 list" where
  "window_live w now =
     (let n = live_count w; cutoff = now - w_horizon w
      in if n = 0 then []
         else map (\<lambda>i. w_values w ! ring_index w i)
                (filter (\<lambda>i. \<not> w_stamps w ! ring_index w i < cutoff) [0..<n]))"

definition window_count :: "window \<Rightarrow> gtime \<Rightarrow> nat" where
  "window_count w now = length (window_live w now)"

definition window_full :: "window \<Rightarrow> bool" where
  "window_full w \<longleftrightarrow> w_filled w"

section \<open>Aggregates\<close>

definition window_percentile :: "window \<Rightarrow> f64 \<Rightarrow> gtime \<Rightarrow> f64" where
  "window_percentile w p now =
     (let vals = sort (window_live w now)
      in if vals = [] then 0
         else if p \<le> 0 then vals ! 0
         else if p \<ge> 100 then vals ! (length vals - 1)
         else nearest_rank vals p)"

definition window_max :: "window \<Rightarrow> gtime \<Rightarrow> f64" where
  "window_max w now =
     (let vals = window_live w now in if vals = [] then 0 else max_loop vals)"

definition window_mean :: "window \<Rightarrow> gtime \<Rightarrow> f64" where
  "window_mean w now =
     (let vals = window_live w now
      in if vals = [] then 0
         else f_div (fold (\<lambda>v sum. f_add sum v) vals 0) (f_of_int (int (length vals))))"

text \<open>The default smoothing factor is the float next to 0.3.\<close>

definition window_ewma :: "window \<Rightarrow> f64 \<Rightarrow> gtime \<Rightarrow> f64" where
  "window_ewma w alpha0 now =
     (let vals = window_live w now
      in if vals = [] then 0
         else let alpha = (if alpha0 \<le> 0 \<or> alpha0 > 1 then fl (3 / 10) else alpha0)
           in fold (\<lambda>v acc. f_add (f_mul alpha v) (f_mul (f_sub 1 alpha) acc)) (tl vals) (hd vals))"

definition window_aggregate :: "window \<Rightarrow> string \<Rightarrow> f64 \<Rightarrow> gtime \<Rightarrow> f64" where
  "window_aggregate w algorithm alpha now =
     (if algorithm = ''p99'' then window_percentile w 99 now
      else if algorithm = ''max'' then window_max w now
      else if algorithm = ''ewma'' then window_ewma w alpha now
      else if algorithm = ''mean'' then window_mean w now
      else window_percentile w 95 now)"

section \<open>The ring refines a bounded history\<close>

definition window_inv :: "window \<Rightarrow> bool" where
  "window_inv w \<longleftrightarrow> length (w_values w) = w_capacity w \<and> length (w_stamps w) = w_capacity w \<and>
     w_next w < w_capacity w"

definition obs :: "window \<Rightarrow> (f64 \<times> gtime) list" where
  "obs w =
     (let zs = zip (w_values w) (w_stamps w)
      in if w_filled w then drop (w_next w) zs @ take (w_next w) zs else take (w_next w) zs)"

lemma window_inv_new [simp]: "window_inv (newWindow c h)"
  by (simp add: window_inv_def newWindow_def Let_def)

lemma obs_new [simp]: "obs (newWindow c h) = []"
  by (simp add: obs_def newWindow_def Let_def)

lemma new_fields [simp]:
  "w_capacity (newWindow c h) = nat (max 1 c)" "w_horizon (newWindow c h) = h"
  "w_filled (newWindow c h) = False"
  by (auto simp: newWindow_def Let_def)

lemma push_fields [simp]:
  "w_capacity (window_push v t w) = w_capacity w" "w_horizon (window_push v t w) = w_horizon w"
  by (simp_all add: window_push_def Let_def)

lemma window_push_inv: "window_inv w \<Longrightarrow> window_inv (window_push v t w)"
  by (auto simp: window_inv_def window_push_def Let_def)

lemma length_obs: "window_inv w \<Longrightarrow> length (obs w) = live_count w"
  by (auto simp: window_inv_def obs_def live_count_def Let_def)

lemma window_push_obs:
  assumes inv: "window_inv w"
  shows "obs (window_push v t w) = take_last (w_capacity w) (obs w @ [(v, t)])"
proof -
  let ?zs = "zip (w_values w) (w_stamps w)" and ?n = "w_next w" and ?c = "w_capacity w"
  have len: "length ?zs = ?c" "?n < ?c" using inv by (simp_all add: window_inv_def)
  have upd: "zip ((w_values w)[?n := v]) ((w_stamps w)[?n := t]) = ?zs[?n := (v, t)]"
    by (simp add: zip_update)
  have tk: "take (Suc ?n) (?zs[?n := (v, t)]) = take ?n ?zs @ [(v, t)]"
    using len by (simp add: take_Suc_conv_app_nth)
  have dr: "drop (Suc ?n) (?zs[?n := (v, t)]) = drop (Suc ?n) ?zs" by simp
  show ?thesis
  proof (cases "Suc ?n = ?c")
    case True
    then have new: "obs (window_push v t w) = ?zs[?n := (v, t)]"
      by (simp add: obs_def window_push_def Let_def upd)
    have whole: "?zs[?n := (v, t)] = take ?n ?zs @ [(v, t)]"
      using tk len True by (metis length_list_update order_refl take_all)
    show ?thesis
    proof (cases "w_filled w")
      case filled: True
      have "length (drop ?n ?zs) = Suc 0" using len True by simp
      then obtain z where "drop ?n ?zs = [z]" unfolding length_Suc_conv by blast
      then show ?thesis using filled new whole len True
        by (simp add: obs_def Let_def take_last_def)
    next
      case False
      then show ?thesis using new whole len True by (simp add: obs_def Let_def take_last_all)
    qed
  next
    case False
    then have step: "Suc ?n mod ?c = Suc ?n" "Suc ?n < ?c" using len by simp_all
    show ?thesis
    proof (cases "w_filled w")
      case True
      then have "obs (window_push v t w) = drop (Suc ?n) ?zs @ take ?n ?zs @ [(v, t)]"
        using step by (simp add: obs_def window_push_def Let_def upd tk dr)
      moreover have "take_last ?c (obs w @ [(v, t)]) = drop 1 (obs w @ [(v, t)])"
        using True len by (simp add: take_last_def obs_def Let_def)
      moreover have "drop 1 (obs w @ [(v, t)]) = drop (Suc ?n) ?zs @ take ?n ?zs @ [(v, t)]"
        using True len by (simp add: obs_def Let_def)
      ultimately show ?thesis by simp
    next
      case False
      then have "obs (window_push v t w) = take ?n ?zs @ [(v, t)]"
        using step by (simp add: obs_def window_push_def Let_def upd tk)
      then show ?thesis using False len by (simp add: obs_def Let_def take_last_all)
    qed
  qed
qed

interpretation ring: refined_system "\<lambda>(v, t). window_push v t" "\<lambda>w. window_inv w \<and> w_capacity w = n"
    "\<lambda>_. True" obs "\<lambda>o1 xs. take_last n (xs @ [o1])" for n
  by unfold_locales (auto simp: window_push_inv window_push_obs)

lemma fold_take_last:
  "length xs \<le> n \<Longrightarrow> fold (\<lambda>o1 xs. take_last n (xs @ [o1])) es xs = take_last n (xs @ es)"
  by (induction es rule: rev_induct) (simp_all add: take_last_all take_last_take_last_snoc flip: append_assoc)

text \<open>The window after a history of observations.\<close>

definition window_after :: "int \<Rightarrow> duration \<Rightarrow> (f64 \<times> gtime) list \<Rightarrow> window" where
  "window_after c h es = fold (\<lambda>(v, t). window_push v t) es (newWindow c h)"

lemma window_after_props:
  "window_inv (window_after c h es)" "w_capacity (window_after c h es) = nat (max 1 c)"
  "obs (window_after c h es) = take_last (nat (max 1 c)) es"
proof -
  have init: "window_inv (newWindow c h) \<and> w_capacity (newWindow c h) = nat (max 1 c)" by simp
  from ring.run_inv [OF init, of es] show "window_inv (window_after c h es)"
    "w_capacity (window_after c h es) = nat (max 1 c)"
    by (simp_all add: window_after_def)
  from ring.run_refines [OF init, of es] show "obs (window_after c h es) = take_last (nat (max 1 c)) es"
    by (simp add: window_after_def fold_take_last)
qed

lemma horizon_after [simp]: "w_horizon (window_after c h es) = h"
  unfolding window_after_def by (induction es rule: rev_induct) (simp_all split: prod.splits)

lemma obs_nth:
  assumes "window_inv w" and "i < live_count w"
  shows "obs w ! i = (w_values w ! ring_index w i, w_stamps w ! ring_index w i)"
proof -
  let ?zs = "zip (w_values w) (w_stamps w)"
  have len: "length ?zs = w_capacity w" "w_next w < w_capacity w" using assms(1) by (simp_all add: window_inv_def)
  have zs: "?zs ! j = (w_values w ! j, w_stamps w ! j)" if "j < w_capacity w" for j
    using that assms(1) by (simp add: window_inv_def)
  show ?thesis
  proof (cases "w_filled w")
    case True
    then have i: "i < w_capacity w" using assms(2) by (simp add: live_count_def)
    have "(w_next w + i) mod w_capacity w =
        (if w_next w + i < w_capacity w then w_next w + i else w_next w + i - w_capacity w)"
      using i len by (auto simp: mod_if)
    then have "obs w ! i = ?zs ! ring_index w i"
      using True i len by (auto simp: obs_def Let_def nth_append ring_index_def nth_take add.commute)
    then show ?thesis using i len zs [of "ring_index w i"] by (simp add: ring_index_def True)
  next
    case False
    then show ?thesis using assms(2) len zs by (simp add: obs_def Let_def ring_index_def live_count_def)
  qed
qed

lemma window_live_obs:
  assumes "window_inv w"
  shows "window_live w now = map fst (filter (\<lambda>(v, t). \<not> t < now - w_horizon w) (obs w))"
proof -
  have o: "obs w = map (\<lambda>i. (w_values w ! ring_index w i, w_stamps w ! ring_index w i)) [0..<live_count w]"
    by (rule nth_equalityI) (simp_all add: length_obs [OF assms] obs_nth [OF assms])
  show ?thesis
    unfolding o by (auto simp: window_live_def Let_def filter_map o_def)
qed

text \<open>
  C21. Whatever was pushed, in whatever number, the ring answers from exactly the last
  \<^verbatim>\<open>capacity\<close> observations in the order they came, less those older than the horizon:
  the wrap-around of its indices is invisible.
\<close>

theorem window_live_history:
  "window_live (window_after c h es) now =
     map fst (filter (\<lambda>(v, t). \<not> t < now - h) (take_last (nat (max 1 c)) es))"
  using window_live_obs [OF window_after_props(1)] by (simp add: window_after_props(3))

lemma window_percentile_nearest:
  "0 < p \<Longrightarrow> p < 100 \<Longrightarrow> window_percentile w p now = nearest_rank (sort (window_live w now)) p"
  by (simp add: window_percentile_def Let_def nearest_rank_def)

text \<open>
  The p95 the advisor sizes the reclaimed tier with is one of the live observations; at
  least 95 percent of them are not above it, and fewer than 95 percent lie strictly below.
\<close>

theorem window_p95_splits:
  assumes "window_live w now \<noteq> []" and "int (length (window_live w now)) \<le> 2 ^ 40"
  shows "window_percentile w 95 now \<in> set (window_live w now) \<and>
    95 * length (window_live w now)
      \<le> 100 * length (filter (\<lambda>x. x \<le> window_percentile w 95 now) (window_live w now)) \<and>
    100 * length (filter (\<lambda>x. x < window_percentile w 95 now) (window_live w now))
      < 95 * length (window_live w now)"
proof -
  let ?L = "window_live w now"
  define v where "v = window_percentile w 95 now"
  have v: "v = nearest_rank (sort ?L) 95" by (simp add: v_def window_percentile_nearest)
  have r: "rank_of 95 (length ?L) = \<lceil>of_int (95 * int (length ?L)) / 100 :: rat\<rceil>"
    using rank_of_ceil [OF raw_rank_exact [of 95 "length ?L"]] assms by simp
  note s = nearest_rank_splits [OF assms(1), of 95, folded v]
  have "v \<in> set ?L" using percentile_stat.pick_in [OF assms(1)] by (simp add: v)
  moreover have "95 * length ?L \<le> 100 * length (filter (\<lambda>x. x \<le> v) ?L)"
    using s(1) unfolding r ceil_percent by linarith
  moreover have "100 * length (filter (\<lambda>x. x < v) ?L) < 95 * length ?L"
    using s(2) unfolding r ceil_percent by linarith
  ultimately show ?thesis by (simp add: v_def)
qed

theorem window_p95_splits_witness:
  "window_percentile (window_after 3 100 [(7, 1), (2, 2), (9, 3), (4, 4)]) 95 5
     \<in> set (window_live (window_after 3 100 [(7, 1), (2, 2), (9, 3), (4, 4)]) 5)"
proof -
  have "window_live (window_after 3 100 [(7, 1), (2, 2), (9, 3), (4, 4)]) 5 = [2, 9, 4]" by code_simp
  then show ?thesis
    using window_p95_splits [of "window_after 3 100 [(7, 1), (2, 2), (9, 3), (4, 4)]" 5] by simp
qed

section \<open>Every aggregate stays in range\<close>

text \<open>
  Scaling by a power of two commutes with rounding, so with a bound that is a power of two
  the weighted average of the exponential smoothing cannot drift above it.
\<close>

lemma ilog2_scale: "0 < a \<Longrightarrow> ilog2 (a * 2 powi k) = ilog2 a + k"
proof -
  assume a: "0 < a"
  note b = ilog2_bounds [OF a]
  have p: "0 < (2::rat) powi k" by simp
  show ?thesis
  proof (rule ilog2_unique)
    have "2 powi (ilog2 a + k) = 2 powi ilog2 a * (2::rat) powi k" by (simp add: power_int_add)
    then show "2 powi (ilog2 a + k) \<le> a * 2 powi k" using b(1) p by (simp add: mult_right_mono)
    have "2 powi (ilog2 a + k + 1) = 2 powi (ilog2 a + 1) * (2::rat) powi k"
      by (simp add: power_int_add ac_simps)
    then show "a * 2 powi k < 2 powi (ilog2 a + k + 1)" using b(2) p by (simp add: mult_strict_right_mono)
  qed
qed

lemma fl_scale: "fl (a * 2 powi k) = fl a * 2 powi k"
proof -
  have pos: "fl_pos (a * 2 powi k) = fl_pos a * 2 powi k" if "0 < a" for a
  proof -
    have u: "(2::rat) powi ulp_exp (a * 2 powi k) = 2 powi ulp_exp a * 2 powi k"
      using ilog2_scale [OF that] by (simp add: ulp_exp_def flip: power_int_add) (simp add: algebra_simps)
    have "a * 2 powi k / (2 powi ulp_exp a * 2 powi k) = a / (2::rat) powi ulp_exp a" by simp
    then show ?thesis unfolding fl_pos_def u by simp
  qed
  have z: "0 < (2::rat) powi k" by simp
  then have sgn: "a * 2 powi k < 0 \<longleftrightarrow> a < 0" "0 < a * 2 powi k \<longleftrightarrow> 0 < a"
    unfolding mult_less_0_iff zero_less_mult_iff using less_asym z by blast+
  then show ?thesis using pos [of a] pos [of "- a"]
    by (cases a "0::rat" rule: linorder_cases) (auto simp add: fl_def)
qed

definition in_range :: "f64 \<Rightarrow> bool" where
  "in_range v \<longleftrightarrow> 0 \<le> v \<and> v \<le> 2 ^ 40"

lemma ewma_step:
  assumes "is_f64 alpha" "0 < alpha" "alpha \<le> 1" "in_range v" "in_range acc"
  shows "in_range (f_add (f_mul alpha v) (f_mul (f_sub 1 alpha) acc))"
proof -
  have M: "(2::rat) ^ 40 = 2 powi 40" by simp
  have b0: "0 \<le> fl (1 - alpha)" using assms(3) by simp
  have "fl (alpha * v) \<le> fl (alpha * 2 powi 40)"
    using assms(2,4) by (intro fl_mono mult_left_mono) (simp_all add: in_range_def)
  then have 1: "fl (alpha * v) \<le> alpha * 2 ^ 40"
    unfolding fl_scale using assms(1) by (simp add: is_f64_def)
  have "fl (fl (1 - alpha) * acc) \<le> fl (fl (1 - alpha) * 2 powi 40)"
    using b0 assms(5) by (intro fl_mono mult_left_mono) (simp_all add: in_range_def)
  then have 2: "fl (fl (1 - alpha) * acc) \<le> fl (1 - alpha) * 2 ^ 40" unfolding fl_scale by simp
  have "fl (1 - alpha) \<le> (1 - alpha) + \<bar>1 - alpha\<bar> / 2 ^ 53" using fl_err [of "1 - alpha"] by linarith
  moreover have "\<bar>1 - alpha\<bar> / 2 ^ 53 \<le> 1 / 2 ^ 53" using assms(2,3) by simp
  ultimately have "alpha + fl (1 - alpha) \<le> 1 + 1 / 2 ^ 53" by linarith
  then have "(alpha + fl (1 - alpha)) * 2 ^ 40 \<le> (1 + 1 / 2 ^ 53) * 2 ^ 40" by (intro mult_right_mono) simp_all
  with 1 2 have "fl (alpha * v) + fl (fl (1 - alpha) * acc) \<le> (1 + 1 / 2 ^ 53) * 2 ^ 40" by (simp add: distrib_right)
  then have "fl (fl (alpha * v) + fl (fl (1 - alpha) * acc)) \<le> fl ((1 + 1 / 2 ^ 53) * 2 ^ 40)" by (rule fl_mono)
  also have "\<dots> = 2 ^ 40" by code_simp
  finally have "fl (fl (alpha * v) + fl (fl (1 - alpha) * acc)) \<le> 2 ^ 40" .
  moreover have "0 \<le> fl (alpha * v)" "0 \<le> fl (fl (1 - alpha) * acc)"
    using assms b0 by (simp_all add: in_range_def)
  ultimately show ?thesis unfolding in_range_def f_ops by simp
qed

lemma fl_alpha [simp]: "is_f64 (fl (3 / 10))" "0 < fl (3 / 10)" "fl (3 / 10) \<le> 1"
proof -
  have "(1 / 4 :: rat) = of_int 1 * 2 powi (-2)" by (simp add: power_int_minus)
  then have "fl (1 / 4) = 1 / 4" using fl_dyadic [of 1 "-2"] by simp
  with fl_mono [of "1 / 4" "3 / 10"] show "0 < fl (3 / 10)" by simp
  show "fl (3 / 10) \<le> 1" using fl_le_int [of "3 / 10" 1] by simp
qed simp

lemma ewma_range:
  assumes "is_f64 alpha0" and "\<forall>v \<in> set vals. in_range v" "vals \<noteq> []"
  shows "in_range (let alpha = (if alpha0 \<le> 0 \<or> alpha0 > 1 then fl (3 / 10) else alpha0)
     in fold (\<lambda>v acc. f_add (f_mul alpha v) (f_mul (f_sub 1 alpha) acc)) (tl vals) (hd vals))"
proof -
  have "in_range (fold (\<lambda>v acc. f_add (f_mul a v) (f_mul (f_sub 1 a) acc)) vs acc)"
    if "is_f64 a" "0 < a" "a \<le> 1" "\<forall>v \<in> set vs. in_range v" "in_range acc" for a vs acc
    using that
  proof (induction vs arbitrary: acc)
    case (Cons v vs)
    then show ?case using ewma_step [of a v acc] by simp
  qed simp
  note f = this
  show ?thesis unfolding Let_def
    by (rule f) (use assms in \<open>auto simp: not_le list.set_sel\<close>)
qed

lemma mean_range:
  assumes "\<forall>v \<in> set vals. in_range v" "vals \<noteq> []" "int (length vals) \<le> 2 ^ 53"
  shows "in_range (f_div (fold (\<lambda>v sum. f_add sum v) vals 0) (f_of_int (int (length vals))))"
proof -
  have s: "0 \<le> fold (\<lambda>v sum. f_add sum v) vs acc \<and>
      fold (\<lambda>v sum. f_add sum v) vs acc \<le> of_int (k + int (length vs)) * 2 powi 40"
    if "\<forall>v \<in> set vs. in_range v" "0 \<le> acc" "acc \<le> of_int k * 2 powi 40" "0 \<le> k" "k + int (length vs) \<le> 2 ^ 53"
    for vs acc k
    using that
  proof (induction vs arbitrary: acc k)
    case (Cons v vs)
    have v: "0 \<le> v" "v \<le> 2 powi 40" using Cons.prems by (simp_all add: in_range_def)
    have "acc + v \<le> of_int (k + 1) * 2 powi 40" using v Cons.prems by (simp add: distrib_right)
    then have "fl (acc + v) \<le> fl (of_int (k + 1) * 2 powi 40)" by (rule fl_mono)
    moreover have "fl (of_int (k + 1) * 2 powi 40) = of_int (k + 1) * 2 powi 40"
      by (rule fl_dyadic) (use Cons.prems in simp)
    ultimately have "fl (acc + v) \<le> of_int (k + 1) * 2 powi 40" by simp
    moreover have "0 \<le> fl (acc + v)" using v Cons.prems by simp
    ultimately show ?case using Cons.IH [of "f_add acc v" "k + 1"] Cons.prems by (simp add: f_add_def add.commute add.left_commute)
  qed simp
  let ?n = "int (length vals)" and ?s = "fold (\<lambda>v sum. f_add sum v) vals 0"
  have n: "0 < ?n" using assms(2) by simp
  from s [of vals 0 0] assms have b: "0 \<le> ?s" "?s \<le> of_int ?n * 2 powi 40" by simp_all
  have fn: "f_of_int ?n = of_int ?n" using assms(3) by (simp add: f_of_int_def del: of_int_of_nat_eq)
  have "?s / of_int ?n \<le> of_int (2 ^ 40)" using b(2) n by (simp add: pos_divide_le_eq mult.commute)
  then have "fl (?s / of_int ?n) \<le> of_int (2 ^ 40)" by (rule fl_le_int) simp
  moreover have "0 \<le> fl (?s / of_int ?n)" using b(1) n by simp
  ultimately show ?thesis unfolding f_div_def fn in_range_def by simp
qed

lemma window_percentile_cases:
  assumes "window_live w now \<noteq> []"
  shows "window_percentile w p now \<in> set (window_live w now)"
proof -
  let ?s = "sort (window_live w now)"
  have "?s \<noteq> []" using assms by (metis length_0_conv length_sort)
  then have "?s ! 0 \<in> set ?s" "?s ! (length ?s - 1) \<in> set ?s"
    by (metis hd_conv_nth hd_in_set, metis last_conv_nth last_in_set)
  then have "?s ! 0 \<in> set (window_live w now)" "?s ! (length ?s - 1) \<in> set (window_live w now)"
    "nearest_rank ?s p \<in> set (window_live w now)"
    using percentile_stat.pick_in [OF assms] by (simp_all only: set_sort)
  then show ?thesis using \<open>?s \<noteq> []\<close> by (auto simp: window_percentile_def Let_def simp del: length_sort)
qed

lemma window_max_in: "window_live w now \<noteq> [] \<Longrightarrow> window_max w now \<in> set (window_live w now)"
  by (simp add: window_max_def Let_def max_stat.pick_in)

lemma window_max_ge: "v \<in> set (window_live w now) \<Longrightarrow> v \<le> window_max w now"
  by (auto simp: window_max_def Let_def max_loop_eq)

text \<open>
  No algorithm invents consumption: if every live observation lies between 0 and 2 ^ 40
  (a billion cores in milli-cores), so does the aggregate, rounding included. For an empty
  window it is 0.
\<close>

theorem window_aggregate_range:
  assumes "\<forall>v \<in> set (window_live w now). 0 \<le> v \<and> v \<le> 2 ^ 40"
    and "is_f64 alpha" and "int (length (window_live w now)) \<le> 2 ^ 53"
  shows "0 \<le> window_aggregate w algorithm alpha now \<and> window_aggregate w algorithm alpha now \<le> 2 ^ 40"
proof (cases "window_live w now = []")
  case True
  then show ?thesis
    by (simp add: window_aggregate_def window_percentile_def window_max_def window_ewma_def window_mean_def)
next
  case False
  have r: "\<forall>v \<in> set (window_live w now). in_range v" using assms(1) by (simp add: in_range_def)
  have "in_range (window_aggregate w algorithm alpha now)"
    using r window_percentile_cases [OF False] window_max_in [OF False] False
      ewma_range [OF assms(2) r False] mean_range [OF r False assms(3)]
    by (simp add: window_aggregate_def window_ewma_def window_mean_def Let_def)
  then show ?thesis by (simp add: in_range_def)
qed

theorem window_aggregate_range_witness:
  "0 \<le> window_aggregate (window_after 3 100 [(7, 1), (2, 2), (9, 3), (4, 4)]) ''ewma'' (1 / 2) 5 \<and>
   window_aggregate (window_after 3 100 [(7, 1), (2, 2), (9, 3), (4, 4)]) ''ewma'' (1 / 2) 5 \<le> 2 ^ 40"
proof -
  have l: "window_live (window_after 3 100 [(7, 1), (2, 2), (9, 3), (4, 4)]) 5 = [2, 9, 4]" by code_simp
  have f: "is_f64 (1 / 2)" by code_simp
  show ?thesis
    using window_aggregate_range [of "window_after 3 100 [(7, 1), (2, 2), (9, 3), (4, 4)]" 5 "1 / 2" "''ewma''"] f
    by (simp add: l)
qed

end
