(* ===== verification/Collector.thy ===== *)
theory Collector
  imports QoS Resolver
begin

text \<open>
  From cgroup counters to samples (\<^verbatim>\<open>pkg/agent/collector/collector.go\<close>). The collector
  is the only stateful part: the previous cumulative reading of every pod and of the node. One
  call reads the file system as it stands at the instant \<open>now\<close>.
\<close>

section \<open>Samples\<close>

record 'q pod_sample =
  sm_uid :: string
  sm_namespace :: string
  sm_name :: string
  sm_level :: QoSLevel
  sm_cpu :: f64
  sm_mem :: int
  sm_throttled :: f64
  sm_requests :: "'q resource_list"
  sm_limits :: "'q resource_list"
  sm_valid :: bool
  sm_err :: bool

definition RequestedCPUMilli :: "'q quantity_ops \<Rightarrow> 'q pod_sample \<Rightarrow> int" where
  "RequestedCPUMilli Q p = milliOf Q (sm_requests p) ResourceCPU"

definition RequestedMemoryBytes :: "'q quantity_ops \<Rightarrow> 'q pod_sample \<Rightarrow> int" where
  "RequestedMemoryBytes Q p = bytesOf Q (sm_requests p) ResourceMemory"

record 'q node_sample =
  ns_time :: gtime
  ns_interval :: duration
  ns_cpu :: f64
  ns_mem :: int
  ns_cpu_psi :: psi
  ns_mem_psi :: psi
  ns_online :: int
  ns_pods :: "'q pod_sample list"
  ns_degraded :: bool
  ns_valid :: bool

definition empty_sample :: "gtime \<Rightarrow> int \<Rightarrow> 'q node_sample" where
  "empty_sample now online =
     \<lparr>ns_time = now, ns_interval = 0, ns_cpu = 0, ns_mem = 0, ns_cpu_psi = no_psi, ns_mem_psi = no_psi,
      ns_online = online, ns_pods = [], ns_degraded = False, ns_valid = False\<rparr>"

section \<open>Totals per level\<close>

record qos_totals =
  qt_pods :: int
  qt_req_cpu :: int
  qt_req_mem :: int
  qt_lim_cpu :: int
  qt_lim_mem :: int
  qt_act_cpu :: f64
  qt_act_mem :: int

definition zero_totals :: qos_totals where
  "zero_totals = \<lparr>qt_pods = 0, qt_req_cpu = 0, qt_req_mem = 0, qt_lim_cpu = 0, qt_lim_mem = 0,
     qt_act_cpu = 0, qt_act_mem = 0\<rparr>"

text \<open>One iteration of \<^verbatim>\<open>ByQoS\<close>'s loop; an absent resource adds 0.\<close>

definition totals_add :: "'q quantity_ops \<Rightarrow> 'q pod_sample \<Rightarrow> qos_totals \<Rightarrow> qos_totals" where
  "totals_add Q p t =
     \<lparr>qt_pods = i32 (qt_pods t + 1),
      qt_req_cpu = i64 (qt_req_cpu t + RequestedCPUMilli Q p),
      qt_req_mem = i64 (qt_req_mem t + RequestedMemoryBytes Q p),
      qt_lim_cpu = i64 (qt_lim_cpu t + milliOf Q (sm_limits p) ResourceCPU),
      qt_lim_mem = i64 (qt_lim_mem t + bytesOf Q (sm_limits p) ResourceMemory),
      qt_act_cpu = (if sm_valid p then f_add (qt_act_cpu t) (sm_cpu p) else qt_act_cpu t),
      qt_act_mem = (if sm_valid p then u64 (qt_act_mem t + sm_mem p) else qt_act_mem t)\<rparr>"

definition ByQoS :: "'q quantity_ops \<Rightarrow> 'q node_sample \<Rightarrow> QoSLevel \<Rightarrow> qos_totals option" where
  "ByQoS Q n =
     fold (\<lambda>p out. out(sm_level p \<mapsto> totals_add Q p (kv_get out (sm_level p) zero_totals))) (ns_pods n) Map.empty"

definition ToResourceList :: "'q quantity_ops \<Rightarrow> qos_totals \<Rightarrow> string \<Rightarrow> 'q resource_list" where
  "ToResourceList Q t kind =
     (let (cpuMilli, memBytes) =
        (if kind = ''requested'' then (qt_req_cpu t, qt_req_mem t)
         else if kind = ''limits'' then (qt_lim_cpu t, qt_lim_mem t)
         else if kind = ''actual'' then (f_to_i64 (qt_act_cpu t), i64 (qt_act_mem t))
         else (0, 0))
      in [ResourceCPU \<mapsto> q_new_milli Q cpuMilli, ResourceMemory \<mapsto> q_new Q memBytes])"

section \<open>The collector\<close>

record cpu_counter =
  ctr_usage :: int
  ctr_periods :: int
  ctr_throttled :: int
  ctr_at :: gtime

definition zero_counter :: cpu_counter where
  "zero_counter = \<lparr>ctr_usage = 0, ctr_periods = 0, ctr_throttled = 0, ctr_at = 0\<rparr>"

record collector =
  cl_base :: string
  cl_resolver :: resolver
  cl_prev_pods :: "string \<Rightarrow> cpu_counter option"
  cl_prev_node :: cpu_counter
  cl_estimate :: bool

definition collector_New :: "string \<Rightarrow> bool \<Rightarrow> collector" where
  "collector_New base est =
     \<lparr>cl_base = base, cl_resolver = NewResolver base, cl_prev_pods = Map.empty,
      cl_prev_node = zero_counter, cl_estimate = est\<rparr>"

text \<open>
  The rate between two readings. \<^verbatim>\<open>Microseconds\<close> drops the fraction; readings less than a
  microsecond apart, which Go would divide by zero into an infinity, are outside the model of
  floats.
\<close>

definition deltaMilliCores :: "cpu_counter \<Rightarrow> cpu_stat \<Rightarrow> gtime \<Rightarrow> f64 option" where
  "deltaMilliCores prev cur now =
     (if time_is_zero (ctr_at prev) \<or> cs_usage cur < ctr_usage prev then None
      else let elapsed = time_sub now (ctr_at prev)
        in if elapsed \<le> 0 then None
           else let deltaUsec = f_of_int (u64 (cs_usage cur - ctr_usage prev))
             in Some (f_mul (f_div deltaUsec (f_of_int (go_div elapsed 1000))) 1000))"

text \<open>The kubepods rollup.\<close>

definition collect_node :: "os_fs \<Rightarrow> gtime \<Rightarrow> string \<Rightarrow> collector \<times> 'q node_sample \<Rightarrow> collector \<times> 'q node_sample" where
  "collect_node fs now kubepods = (\<lambda>(c, sample).
     if kubepods = [] then (c, sample)
     else
       let (c1, s1) =
             (case cg_CPUStat fs (cl_base c) kubepods of
                None \<Rightarrow> (c, sample)
              | Some st \<Rightarrow>
                  (let prev = cl_prev_node c;
                       c' = c\<lparr>cl_prev_node := \<lparr>ctr_usage = cs_usage st, ctr_periods = 0, ctr_throttled = 0, ctr_at = now\<rparr>\<rparr>
                   in case deltaMilliCores prev st now of
                        None \<Rightarrow> (c', sample)
                      | Some milli \<Rightarrow> (c', sample\<lparr>ns_cpu := milli, ns_valid := True,
                          ns_interval := time_sub now (ctr_at prev)\<rparr>)));
           s2 = (case cg_MemoryStat fs (cl_base c) kubepods of
                   None \<Rightarrow> s1
                 | Some st \<Rightarrow> s1\<lparr>ns_mem := Workload st\<rparr>)
       in (c1, s2))"

definition collect_psi :: "os_fs \<Rightarrow> string \<Rightarrow> 'q node_sample \<Rightarrow> 'q node_sample" where
  "collect_psi fs base sample =
     (let s1 = (case cg_Pressure fs base [] ''cpu'' of Some p \<Rightarrow> sample\<lparr>ns_cpu_psi := p\<rparr> | None \<Rightarrow> sample)
      in case cg_Pressure fs base [] ''memory'' of Some p \<Rightarrow> s1\<lparr>ns_mem_psi := p\<rparr> | None \<Rightarrow> s1)"

definition fresh_pod_sample :: "'q quantity_ops \<Rightarrow> 'q pod \<Rightarrow> 'q pod_sample" where
  "fresh_pod_sample Q pod =
     \<lparr>sm_uid = p_uid pod, sm_namespace = p_namespace pod, sm_name = p_name pod, sm_level = level_of Q pod,
      sm_cpu = 0, sm_mem = 0, sm_throttled = 0, sm_requests = PodRequests Q pod, sm_limits = PodLimits Q pod,
      sm_valid = False, sm_err = False\<rparr>"

text \<open>
  The body of the loop over the pods, after the cgroup was found: the rate, the throttling
  ratio, the new reading, and the memory.
\<close>

definition measure_pod ::
  "os_fs \<Rightarrow> gtime \<Rightarrow> string \<Rightarrow> string \<Rightarrow> cpu_stat \<Rightarrow> collector \<Rightarrow> 'q pod_sample \<Rightarrow> 'q pod_sample \<times> collector"
where
  "measure_pod fs now uid path st c ps =
     (let prev = kv_get (cl_prev_pods c) uid zero_counter;
          hadPrev = (cl_prev_pods c uid \<noteq> None);
          ps1 = (case deltaMilliCores prev st now of
                   None \<Rightarrow> ps
                 | Some milli \<Rightarrow>
                     if \<not> hadPrev then ps
                     else (let d = u64 (cs_nr_periods st - ctr_periods prev);
                               ps' = ps\<lparr>sm_cpu := milli, sm_valid := True\<rparr>
                       in if d > 0 then
                            ps'\<lparr>sm_throttled := f_div (f_of_int (u64 (cs_nr_throttled st - ctr_throttled prev))) (f_of_int d)\<rparr>
                          else ps'));
          c1 = c\<lparr>cl_prev_pods := (cl_prev_pods c)(uid \<mapsto>
                 \<lparr>ctr_usage = cs_usage st, ctr_periods = cs_nr_periods st, ctr_throttled = cs_nr_throttled st, ctr_at = now\<rparr>)\<rparr>;
          ps2 = (case cg_MemoryStat fs (cl_base c) path of None \<Rightarrow> ps1 | Some ms \<Rightarrow> ps1\<lparr>sm_mem := Workload ms\<rparr>)
      in (ps2, c1))"

text \<open>The loop's state: the collector, the samples so far, \<^verbatim>\<open>podCPUSum\<close>, \<^verbatim>\<open>podMemSum\<close>.\<close>

type_synonym 'q pod_loop = "collector \<times> 'q pod_sample list \<times> f64 \<times> int"

definition collect_pod :: "'q quantity_ops \<Rightarrow> os_fs \<Rightarrow> gtime \<Rightarrow> 'q pod \<Rightarrow> 'q pod_loop \<Rightarrow> 'q pod_loop" where
  "collect_pod Q fs now pod = (\<lambda>(c, out, cpuSum, memSum).
     let uid = p_uid pod;
         ps = fresh_pod_sample Q pod
     in case PodPath fs (cl_resolver c) uid of
          (None, r') \<Rightarrow> (c\<lparr>cl_resolver := r'\<rparr>, out @ [ps\<lparr>sm_err := True\<rparr>], cpuSum, memSum)
        | (Some path, r') \<Rightarrow>
            (let c1 = c\<lparr>cl_resolver := r'\<rparr>
             in case cg_CPUStat fs (cl_base c) path of
                  None \<Rightarrow> (c1, out @ [ps\<lparr>sm_err := True\<rparr>], cpuSum, memSum)
                | Some st \<Rightarrow>
                    (case measure_pod fs now uid path st c1 ps of (ps', c2) \<Rightarrow>
                       (c2, out @ [ps'], f_add cpuSum (sm_cpu ps'), u64 (memSum + sm_mem ps')))))"

definition forget_gone :: "string set \<Rightarrow> collector \<Rightarrow> collector" where
  "forget_gone seen c =
     (let gone = (\<lambda>uid. cl_prev_pods c uid \<noteq> None \<and> uid \<notin> seen)
      in c\<lparr>cl_prev_pods := (\<lambda>uid. if gone uid then None else cl_prev_pods c uid),
           cl_resolver := (cl_resolver c)\<lparr>r_cache := (\<lambda>uid. if gone uid then None else r_cache (cl_resolver c) uid)\<rparr>\<rparr>)"

text \<open>
  \<^verbatim>\<open>uint64\<close> of a float, as amd64 converts it outside the range of \<^verbatim>\<open>int64\<close> too.
\<close>

definition f_to_u64 :: "f64 \<Rightarrow> int" where
  "f_to_u64 x =
     (let n = trunc_rat x
      in if n < 2 ^ 63 then u64 (f_to_i64 x) else if n < 2 ^ 64 then n else 2 ^ 63)"

definition estimate_pod :: "'q quantity_ops \<Rightarrow> 'q pod \<Rightarrow> 'q pod_sample" where
  "estimate_pod Q pod =
     (let req = PodRequests Q pod
      in (fresh_pod_sample Q pod)\<lparr>
           sm_cpu := f_mul (f_of_int (milliOf Q req ResourceCPU)) (fl (4 / 10)),
           sm_mem := f_to_u64 (f_mul (f_of_int (bytesOf Q req ResourceMemory)) (fl (4 / 10))),
           sm_requests := req, sm_valid := True\<rparr>)"

definition collector_estimate :: "'q quantity_ops \<Rightarrow> 'q pod list \<Rightarrow> gtime \<Rightarrow> 'q node_sample" where
  "collector_estimate Q pods now =
     fold (\<lambda>pod sample.
         let ps = estimate_pod Q pod
         in sample\<lparr>ns_cpu := f_add (ns_cpu sample) (sm_cpu ps), ns_mem := u64 (ns_mem sample + sm_mem ps),
                   ns_pods := ns_pods sample @ [ps]\<rparr>)
       pods ((empty_sample now 0)\<lparr>ns_degraded := True, ns_valid := True\<rparr>)"

text \<open>
  One call. \<^const>\<open>None\<close> is the error \<^verbatim>\<open>ErrUnsupported\<close>, with the empty sample.
\<close>

definition Collect ::
  "'q quantity_ops \<Rightarrow> os_fs \<Rightarrow> gtime \<Rightarrow> 'q pod list \<Rightarrow> int \<Rightarrow> collector \<Rightarrow> 'q node_sample option \<times> collector"
where
  "Collect Q fs now pods onlineCPUs c =
     (if \<not> cg_Available fs (cl_base c) then
        (if \<not> cl_estimate c then (None, c) else (Some (collector_estimate Q pods now), c))
      else
        (case KubepodsPath fs (cl_resolver c) of (kubepods, r') \<Rightarrow>
          (case collect_node fs now kubepods (c\<lparr>cl_resolver := r'\<rparr>, empty_sample now onlineCPUs) of (c1, s1) \<Rightarrow>
            (let s2 = collect_psi fs (cl_base c) s1
             in case fold (collect_pod Q fs now) pods (c1, [], 0, 0) of (c2, smps, cpuSum, memSum) \<Rightarrow>
                  (let s3 = s2\<lparr>ns_pods := smps\<rparr>;
                       s4 = (if kubepods = [] then
                               s3\<lparr>ns_cpu := cpuSum, ns_mem := memSum, ns_valid := 0 < length smps\<rparr>
                             else s3)
                   in (Some s4, forget_gone (p_uid ` set pods) c2))))))"

section \<open>Rates\<close>

text \<open>
  A rate is only ever derived from an earlier reading that the counter did not fall
  below, and it respects the hardware: a cgroup that used at most \<open>n\<close> CPUs' worth of the
  elapsed time is never measured above \<open>1000 * n\<close> milli-cores, whatever the floating-point
  division and multiplication round.
\<close>

theorem deltaMilliCores_bounds:
  assumes "deltaMilliCores prev st now = Some milli"
    and "0 \<le> ctr_usage prev" and "in_i64 (now - ctr_at prev)" and "1000 \<le> now - ctr_at prev"
    and "cs_usage st - ctr_usage prev \<le> n * ((now - ctr_at prev) div 1000)"
    and "n * ((now - ctr_at prev) div 1000) \<le> 2 ^ 53" and "n \<le> 2 ^ 40"
  shows "ctr_at prev \<noteq> 0 \<and> ctr_usage prev \<le> cs_usage st \<and> 0 \<le> milli \<and> milli \<le> 1000 * of_int n"
proof -
  let ?e = "now - ctr_at prev" and ?d = "cs_usage st - ctr_usage prev"
  define us where "us = ?e div 1000"
  have e: "time_sub now (ctr_at prev) = ?e" using assms(3) by (rule time_sub_in_range)
  have us: "go_div ?e 1000 = us" "1 \<le> us" using assms(4) by (simp_all add: us_def go_div_nonneg)
  from assms(1) e have g: "ctr_at prev \<noteq> 0" "ctr_usage prev \<le> cs_usage st"
    and m: "milli = f_mul (f_div (f_of_int (u64 ?d)) (f_of_int us)) 1000"
    by (auto simp: deltaMilliCores_def Let_def time_is_zero_def us(1) split: if_splits)
  have n: "0 \<le> n"
  proof (rule ccontr)
    assume "\<not> 0 \<le> n"
    then have "n * us < 0" using us(2) by (simp add: mult_neg_pos)
    with assms(5) g(2) show False by (simp add: us_def)
  qed
  have us53: "us \<le> 2 ^ 53 \<or> n = 0"
  proof (cases "n = 0")
    case False
    with n have "1 * us \<le> n * us" using us(2) by (intro mult_right_mono) auto
    with assms(6) show ?thesis by (simp add: us_def)
  qed simp
  have d: "0 \<le> ?d" "?d \<le> 2 ^ 53" "?d \<le> n * us" using g assms(5,6) by (simp_all add: us_def)
  then have u: "u64 ?d = ?d" by (intro u64_small) auto
  let ?U = "fl (of_int us)"
  have U0: "0 < ?U" using fl_mono [of 1 "of_int us"] us(2) by simp
  have "fl (of_int ?d) / ?U \<le> of_int n"
  proof (cases "n = 0")
    case True
    with d have "?d = 0" by simp
    then show ?thesis by (simp only: of_int_0 fl_0) (simp add: True)
  next
    case False
    then have "us \<le> 2 ^ 53" using us53 by simp
    then have "?U = of_int us" using us(2) by simp
    moreover have "(of_int ?d :: rat) \<le> of_int (n * us)" using d(3) by (simp only: of_int_le_iff)
    moreover have "fl (of_int ?d) = (of_int ?d :: rat)" by (rule fl_of_int) (use d in simp)
    ultimately show ?thesis using U0 by (simp add: pos_divide_le_eq)
  qed
  then have q: "fl (fl (of_int ?d) / ?U) \<le> of_int n" by (rule fl_le_int) (use n assms(7) in simp)
  have q0: "0 \<le> fl (fl (of_int ?d) / ?U)" using d(1) U0 by simp
  have "fl (fl (fl (of_int ?d) / ?U) * 1000) \<le> of_int (1000 * n)"
    by (rule fl_le_int) (use q n assms(7) in auto)
  moreover have "milli = fl (fl (fl (of_int ?d) / ?U) * 1000)" unfolding m u f_ops ..
  ultimately show ?thesis using g q0 by simp
qed

theorem deltaMilliCores_bounds_witness:
  "deltaMilliCores \<lparr>ctr_usage = 1000, ctr_periods = 0, ctr_throttled = 0, ctr_at = 5\<rparr>
     \<lparr>cs_usage = 4001000, cs_user = 0, cs_system = 0, cs_nr_periods = 0, cs_nr_throttled = 0, cs_throttled = 0\<rparr>
     10000000005 = Some 400 \<and> (400 :: rat) \<le> 1000 * of_int 2"
proof -
  have d: "deltaMilliCores \<lparr>ctr_usage = 1000, ctr_periods = 0, ctr_throttled = 0, ctr_at = 5\<rparr>
     \<lparr>cs_usage = 4001000, cs_user = 0, cs_system = 0, cs_nr_periods = 0, cs_nr_throttled = 0, cs_throttled = 0\<rparr>
     10000000005 = Some 400"
    by code_simp
  from d deltaMilliCores_bounds [OF d, of 2] show ?thesis by (simp add: in_i64_def max_i64_def min_i64_def)
qed

section \<open>Bookkeeping\<close>

text \<open>
  What the loop over the pods keeps: a reading not taken before this call carries this
  call's time, so it cannot give a rate within the call, even for a pod listed twice.
\<close>

definition pod_loop_inv :: "collector \<Rightarrow> gtime \<Rightarrow> 'q pod_loop \<Rightarrow> bool" where
  "pod_loop_inv c0 now = (\<lambda>(c, out, _, _).
     (\<forall>uid k. cl_prev_pods c uid = Some k \<longrightarrow> cl_prev_pods c0 uid \<noteq> None \<or> ctr_at k = now) \<and>
     (\<forall>ps \<in> set out. sm_valid ps \<longrightarrow> cl_prev_pods c0 (sm_uid ps) \<noteq> None) \<and>
     (\<forall>ps \<in> set out. \<not> sm_valid ps \<longrightarrow> sm_cpu ps = 0))"

lemma delta_same_time: "ctr_at k = now \<Longrightarrow> deltaMilliCores k st now = None"
  by (simp add: deltaMilliCores_def time_sub_def max_i64_def min_i64_def)

lemma measure_pod_props:
  assumes "measure_pod fs now uid path st c ps = (ps', c')" and "\<not> sm_valid ps" "sm_cpu ps = 0"
  shows "sm_uid ps' = sm_uid ps" and "sm_valid ps' \<Longrightarrow>
      \<exists>k. cl_prev_pods c uid = Some k \<and> deltaMilliCores k st now \<noteq> None"
    and "\<not> sm_valid ps' \<Longrightarrow> sm_cpu ps' = 0"
    and "\<exists>k. cl_prev_pods c' = (cl_prev_pods c)(uid \<mapsto> k) \<and> ctr_at k = now"
  using assms by (auto simp: measure_pod_def Let_def kv_get_def split: option.splits if_splits)

lemma collect_pod_inv:
  assumes "pod_loop_inv c0 now (c, out, a, b)" and "collect_pod Q fs now pod (c, out, a, b) = (c', out', a', b')"
  shows "pod_loop_inv c0 now (c', out', a', b') \<and> map sm_uid out' = map sm_uid out @ [p_uid pod]"
proof -
  obtain res r' where p: "PodPath fs (cl_resolver c) (p_uid pod) = (res, r')" by (cases "PodPath fs (cl_resolver c) (p_uid pod)")
  let ?ps = "fresh_pod_sample Q pod"
  have f: "\<not> sm_valid ?ps" "sm_cpu ?ps = 0" "sm_uid ?ps = p_uid pod" by (simp_all add: fresh_pod_sample_def)
  show ?thesis
  proof (cases "\<exists>path st. res = Some path \<and> cg_CPUStat fs (cl_base c) path = Some st")
    case False
    have o: "c' = c\<lparr>cl_resolver := r'\<rparr>" "out' = out @ [?ps\<lparr>sm_err := True\<rparr>]"
    proof (atomize (full), cases res)
      case (Some path)
      with False have "cg_CPUStat fs (cl_base c) path = None" by simp
      then show "c' = c\<lparr>cl_resolver := r'\<rparr> \<and> out' = out @ [?ps\<lparr>sm_err := True\<rparr>]"
        using assms(2) p Some by (simp add: collect_pod_def Let_def)
    qed (use assms(2) p in \<open>simp add: collect_pod_def Let_def\<close>)
    show ?thesis using assms(1) f unfolding o by (simp add: pod_loop_inv_def)
  next
    case True
    then obtain path st where st: "res = Some path" "cg_CPUStat fs (cl_base c) path = Some st" by blast
    obtain ps' c2 where m: "measure_pod fs now (p_uid pod) path st (c\<lparr>cl_resolver := r'\<rparr>) ?ps = (ps', c2)"
      by (cases "measure_pod fs now (p_uid pod) path st (c\<lparr>cl_resolver := r'\<rparr>) ?ps")
    then have o: "c' = c2" "out' = out @ [ps']" using assms(2) p st by (simp_all add: collect_pod_def Let_def)
    note mp = measure_pod_props [OF m f(1,2)]
    obtain k where k: "cl_prev_pods c2 = (cl_prev_pods c)(p_uid pod \<mapsto> k)" "ctr_at k = now" using mp(4) by auto
    have inv: "\<And>uid k. cl_prev_pods c uid = Some k \<Longrightarrow> cl_prev_pods c0 uid \<noteq> None \<or> ctr_at k = now"
      using assms(1) by (simp add: pod_loop_inv_def)
    have v: "cl_prev_pods c0 (p_uid pod) \<noteq> None" if valid: "sm_valid ps'"
    proof -
      obtain k' where "cl_prev_pods c (p_uid pod) = Some k'" "deltaMilliCores k' st now \<noteq> None"
        using mp(2) [OF valid] by auto
      with inv [of "p_uid pod" k'] delta_same_time [of k' now st] show ?thesis by blast
    qed
    have "\<forall>uid k'. cl_prev_pods c2 uid = Some k' \<longrightarrow> cl_prev_pods c0 uid \<noteq> None \<or> ctr_at k' = now"
      using inv k by (metis fun_upd_def option.sel)
    moreover have "\<forall>ps \<in> set out'. sm_valid ps \<longrightarrow> cl_prev_pods c0 (sm_uid ps) \<noteq> None"
      using assms(1) v mp(1) f(3) unfolding o by (auto simp: pod_loop_inv_def)
    moreover have "\<forall>ps \<in> set out'. \<not> sm_valid ps \<longrightarrow> sm_cpu ps = 0"
      using assms(1) mp(3) unfolding o by (auto simp: pod_loop_inv_def)
    ultimately show ?thesis using mp(1) f(3) unfolding pod_loop_inv_def o by simp
  qed
qed

lemma collect_pods_inv:
  "pod_loop_inv c0 now s \<Longrightarrow> fold (collect_pod Q fs now) pods s = s' \<Longrightarrow>
   pod_loop_inv c0 now s' \<and> map sm_uid (fst (snd s')) = map sm_uid (fst (snd s)) @ map p_uid pods"
proof (induction pods arbitrary: s)
  case (Cons pod pods)
  obtain c out a b where s: "s = (c, out, a, b)" by (cases s)
  obtain c' out' a' b' where s': "collect_pod Q fs now pod s = (c', out', a', b')" by (cases "collect_pod Q fs now pod s")
  from collect_pod_inv [OF Cons.prems(1) [unfolded s] s' [unfolded s]]
  have "pod_loop_inv c0 now (c', out', a', b')" "map sm_uid out' = map sm_uid out @ [p_uid pod]" by simp_all
  with Cons.IH [of "(c', out', a', b')"] Cons.prems(2) s s' show ?case by simp
qed simp

text \<open>The loop touches the counter and the cached path of the given pods only.\<close>

lemma collect_pod_frame:
  assumes "u \<noteq> p_uid pod"
  shows "cl_prev_pods (fst (collect_pod Q fs now pod s)) u = cl_prev_pods (fst s) u \<and>
    r_cache (cl_resolver (fst (collect_pod Q fs now pod s))) u = r_cache (cl_resolver (fst s)) u"
  using assms PodPath_cache(2) [of fs "cl_resolver (fst s)" "p_uid pod" _ _ u]
  by (cases s) (auto simp: collect_pod_def measure_pod_def Let_def split: prod.splits option.splits)

lemma collect_pods_frame:
  "u \<notin> p_uid ` set pods \<Longrightarrow>
    cl_prev_pods (fst (fold (collect_pod Q fs now) pods s)) u = cl_prev_pods (fst s) u \<and>
    r_cache (cl_resolver (fst (fold (collect_pod Q fs now) pods s))) u = r_cache (cl_resolver (fst s)) u"
  by (induction pods arbitrary: s) (simp_all add: collect_pod_frame)

lemma collect_node_resolver: "collect_node fs now kp (c, s) = (c', s') \<Longrightarrow> cl_resolver c' = cl_resolver c"
  by (auto simp: collect_node_def Let_def split: if_splits option.splits prod.splits)

lemma collect_node_keeps:
  "collect_node fs now kp (c, s) = (c', s') \<Longrightarrow>
   cl_prev_pods c' = cl_prev_pods c \<and> cl_base c' = cl_base c \<and> ns_degraded s' = ns_degraded s \<and> ns_time s' = ns_time s"
  by (auto simp: collect_node_def Let_def split: if_splits option.splits prod.splits)

lemma collect_psi_keeps: "ns_degraded (collect_psi fs b s) = ns_degraded s" "ns_time (collect_psi fs b s) = ns_time s"
  by (simp_all add: collect_psi_def Let_def split: option.splits)

text \<open>
  C24. A sample of the real hierarchy covers exactly the given pods in their order and is
  never flagged degraded; a pod carries a rate only if a reading of it was kept from an
  earlier call, and 0 otherwise. The kept readings are those of pods on the node: none outlives
  its pod, and with the reading of a pod that is gone the resolver forgets its cached path. The cached
  path of a gone pod without a reading, whose \<^verbatim>\<open>cpu.stat\<close> never was readable, stays.
\<close>

theorem Collect_bookkeeping:
  fixes Q :: "'q quantity_ops"
  assumes "Collect Q fs now pods online c = (Some s, c')" and "cg_Available fs (cl_base c)"
  shows "map sm_uid (ns_pods s) = map p_uid pods \<and> \<not> ns_degraded s \<and> ns_time s = now \<and>
    (\<forall>ps \<in> set (ns_pods s). if sm_valid ps then cl_prev_pods c (sm_uid ps) \<noteq> None else sm_cpu ps = 0) \<and>
    dom (cl_prev_pods c') \<subseteq> p_uid ` set pods \<and>
    (\<forall>u. u \<notin> p_uid ` set pods \<longrightarrow>
       r_cache (cl_resolver c') u = (if cl_prev_pods c u = None then r_cache (cl_resolver c) u else None))"
proof -
  obtain kp r' where kp: "KubepodsPath fs (cl_resolver c) = (kp, r')" by (cases "KubepodsPath fs (cl_resolver c)")
  obtain c1 and s1 :: "'q node_sample" where n: "collect_node fs now kp (c\<lparr>cl_resolver := r'\<rparr>, empty_sample now online) = (c1, s1)"
    using prod.exhaust by blast
  obtain c2 a b and smps :: "'q pod_sample list" where f: "fold (collect_pod Q fs now) pods (c1, [], 0, 0) = (c2, smps, a, b)"
    using prod_cases4 by blast
  have s: "ns_pods s = smps" "ns_degraded s = ns_degraded (collect_psi fs (cl_base c) s1)"
      "ns_time s = ns_time (collect_psi fs (cl_base c) s1)"
    and c': "c' = forget_gone (p_uid ` set pods) c2"
    using assms kp n f by (auto simp: Collect_def Let_def split: if_splits)
  note keep = collect_node_keeps [OF n]
  have "pod_loop_inv c now (c1, [], 0, 0)" using keep by (auto simp: pod_loop_inv_def)
  from collect_pods_inv [OF this f] have inv: "pod_loop_inv c now (c2, smps, a, b)" "map sm_uid smps = map p_uid pods"
    by simp_all
  have "dom (cl_prev_pods c') \<subseteq> p_uid ` set pods" unfolding c' by (auto simp: forget_gone_def Let_def split: if_splits)
  moreover have "r_cache (cl_resolver c') u = (if cl_prev_pods c u = None then r_cache (cl_resolver c) u else None)"
    if "u \<notin> p_uid ` set pods" for u
  proof -
    have "r_cache r' u = r_cache (cl_resolver c) u"
      using kp by (auto simp: KubepodsPath_def Let_def split: option.splits)
    then show ?thesis using collect_pods_frame [OF that, of Q fs now "(c1, [], 0, 0)"] f keep collect_node_resolver [OF n] that
      unfolding c' by (simp add: forget_gone_def Let_def)
  qed
  moreover have "\<not> ns_degraded s" "ns_time s = now"
    using s(2,3) keep by (simp_all add: collect_psi_keeps empty_sample_def)
  ultimately show ?thesis using inv s(1) by (simp add: pod_loop_inv_def)
qed

lemma Collect_available:
  "cg_Available fs (cl_base c) \<Longrightarrow> \<exists>s c'. Collect Q fs now pods online c = (Some s, c')"
  by (auto simp: Collect_def Let_def split: prod.splits)

text \<open>A collector that knows a gone pod, its reading and its path, and sees another pod.\<close>

definition churned_collector :: collector where
  "churned_collector = (collector_New ''/cg'' False)\<lparr>cl_prev_pods := [''gone'' \<mapsto> zero_counter],
     cl_resolver := (NewResolver ''/cg'')\<lparr>r_cache := [''gone'' \<mapsto> ''kubepods/gone'', ''unread'' \<mapsto> ''kubepods/unread'']\<rparr>\<rparr>"

theorem Collect_bookkeeping_witness:
  "\<exists>s c'. Collect rat_quantity (example_fs\<lparr>fs_files := [''/cg/cgroup.controllers'' \<mapsto> ''cpu memory'']\<rparr>) 5 [example_pod] 4
       churned_collector = (Some s, c') \<and>
     map sm_uid (ns_pods s) = map p_uid [example_pod] \<and> dom (cl_prev_pods c') \<subseteq> {p_uid example_pod} \<and>
     r_cache (cl_resolver c') ''gone'' = None \<and> r_cache (cl_resolver c') ''unread'' = Some ''kubepods/unread''"
proof -
  let ?fs = "example_fs\<lparr>fs_files := [''/cg/cgroup.controllers'' \<mapsto> ''cpu memory'']\<rparr>"
  have av: "cg_Available ?fs (cl_base churned_collector)" by code_simp
  from Collect_available [OF this] obtain s c'
    where c: "Collect rat_quantity ?fs 5 [example_pod] 4 churned_collector = (Some s, c')" by blast
  have "''gone'' \<notin> p_uid ` set [example_pod]" "''unread'' \<notin> p_uid ` set [example_pod]" by (simp_all add: example_pod_def)
  moreover have "cl_prev_pods churned_collector ''gone'' \<noteq> None" "cl_prev_pods churned_collector ''unread'' = None"
    "r_cache (cl_resolver churned_collector) ''unread'' = Some ''kubepods/unread''" by (simp_all add: churned_collector_def collector_New_def)
  ultimately show ?thesis using c Collect_bookkeeping [OF c av] by (intro exI [of _ s] exI [of _ c']) auto
qed

text \<open>
  The per-level totals partition the node's pods: each level's entry is the sum over
  exactly the pods of that level, in their order, and a level without pods has no entry.
\<close>

theorem ByQoS_partition:
  "kv_get (ByQoS Q n) q zero_totals = fold (totals_add Q) (filter (\<lambda>p. sm_level p = q) (ns_pods n)) zero_totals \<and>
   dom (ByQoS Q n) = sm_level ` set (ns_pods n)"
proof -
  let ?step = "\<lambda>p out. out(sm_level p \<mapsto> totals_add Q p (kv_get out (sm_level p) zero_totals))"
  have "kv_get (fold ?step ps m) q zero_totals
      = fold (totals_add Q) (filter (\<lambda>p. sm_level p = q) ps) (kv_get m q zero_totals) \<and>
    dom (fold ?step ps m) = dom m \<union> sm_level ` set ps" for ps m
    by (induction ps arbitrary: m) (auto simp: kv_get_def)
  from this [of "ns_pods n" Map.empty] show ?thesis by (simp add: ByQoS_def kv_get_def)
qed

end
