(* ===== verification/Sysadvisor.thy ===== *)
theory Sysadvisor
  imports Window Collector
begin

text \<open>
  How much of a node may be resold (\<^verbatim>\<open>pkg/agent/sysadvisor/advisor.go\<close>): six
  observation windows, the last verdict and its revision. \<open>Observe\<close>, \<open>SetConfig\<close> and
  \<open>Recommend\<close> are the operations; every bound on the verdict is proved for the state any
  sequence of them leaves.
\<close>

section \<open>State\<close>

record adv_config =
  av_window_seconds :: int
  av_interval_seconds :: int
  av_algorithm :: string
  av_alpha :: f64
  av_cpu_target :: int
  av_mem_target :: int
  av_headroom :: int
  av_max_reclaim :: int
  av_min_cpu :: int
  av_min_mem :: int
  av_mem_threshold :: int
  av_cpu_threshold :: int
  av_stall_threshold :: int
  av_growth_step :: int

definition DefaultConfig :: adv_config where
  "DefaultConfig =
     \<lparr>av_window_seconds = 300, av_interval_seconds = 10, av_algorithm = ''p95'', av_alpha = fl (3 / 10),
      av_cpu_target = 75, av_mem_target = 65, av_headroom = 10, av_max_reclaim = 50,
      av_min_cpu = 200, av_min_mem = 268435456, av_mem_threshold = 85, av_cpu_threshold = 92,
      av_stall_threshold = 40, av_growth_step = 25\<rparr>"

record recommendation =
  rc_cpu :: int
  rc_mem :: int
  rc_prot_cpu :: int
  rc_prot_mem :: int
  rc_pressure :: node_pressure
  rc_confidence :: string
  rc_reason :: string
  rc_revision :: int

definition no_recommendation :: recommendation where
  "no_recommendation = \<lparr>rc_cpu = 0, rc_mem = 0, rc_prot_cpu = 0, rc_prot_mem = 0, rc_pressure = no_pressure,
     rc_confidence = [], rc_reason = [], rc_revision = 0\<rparr>"

definition ReclaimableResourceList :: "'q quantity_ops \<Rightarrow> recommendation \<Rightarrow> 'q resource_list" where
  "ReclaimableResourceList Q r = [ResourceCPU \<mapsto> q_new_milli Q (rc_cpu r), ResourceMemory \<mapsto> q_new Q (rc_mem r)]"

record advisor =
  a_prot_cpu :: window
  a_prot_mem :: window
  a_node_cpu :: window
  a_node_mem :: window
  a_cpu_psi :: window
  a_mem_psi :: window
  a_last :: recommendation
  a_revision :: int
  a_cfg :: adv_config

definition window_geometry :: "adv_config \<Rightarrow> int \<times> duration" where
  "window_geometry cfg =
     (let interval = (if av_interval_seconds cfg < 1 then 1 else av_interval_seconds cfg);
          capacity = go_div (av_window_seconds cfg) interval
      in (if capacity < 3 then 3 else capacity, i64 (av_window_seconds cfg * second)))"

definition advisor_resize :: "advisor \<Rightarrow> advisor" where
  "advisor_resize a =
     (case window_geometry (a_cfg a) of (capacity, horizon) \<Rightarrow>
        a\<lparr>a_prot_cpu := newWindow capacity horizon, a_prot_mem := newWindow capacity horizon,
          a_node_cpu := newWindow capacity horizon, a_node_mem := newWindow capacity horizon,
          a_cpu_psi := newWindow capacity horizon, a_mem_psi := newWindow capacity horizon\<rparr>)"

definition advisor_New :: "adv_config \<Rightarrow> advisor" where
  "advisor_New cfg =
     (case window_geometry cfg of (capacity, horizon) \<Rightarrow>
        let w = newWindow capacity horizon
        in \<lparr>a_prot_cpu = w, a_prot_mem = w, a_node_cpu = w, a_node_mem = w, a_cpu_psi = w, a_mem_psi = w,
            a_last = no_recommendation, a_revision = 0, a_cfg = cfg\<rparr>)"

definition advisor_SetConfig :: "adv_config \<Rightarrow> advisor \<Rightarrow> advisor" where
  "advisor_SetConfig cfg a =
     (let geometryChanged = (av_window_seconds cfg \<noteq> av_window_seconds (a_cfg a)
            \<or> av_interval_seconds cfg \<noteq> av_interval_seconds (a_cfg a));
          a1 = a\<lparr>a_cfg := cfg\<rparr>
      in if geometryChanged then advisor_resize a1 else a1)"

section \<open>Observe\<close>

text \<open>The consumption of the tiers kqos protects: \<^verbatim>\<open>protCPU\<close> and \<^verbatim>\<open>protMem\<close>.\<close>

definition protected_usage :: "'q pod_sample list \<Rightarrow> f64 \<times> int" where
  "protected_usage pods =
     fold (\<lambda>p (protCPU, protMem).
         if sm_level p = QoSReclaimedCores then (protCPU, protMem)
         else (if sm_valid p then f_add protCPU (sm_cpu p) else protCPU, u64 (protMem + sm_mem p)))
       pods (0, 0)"

definition advisor_Observe :: "'q node_sample \<Rightarrow> advisor \<Rightarrow> advisor" where
  "advisor_Observe s a =
     (if \<not> ns_valid s then a
      else case protected_usage (ns_pods s) of (protCPU, protMem) \<Rightarrow>
        a\<lparr>a_prot_cpu := window_push protCPU (ns_time s) (a_prot_cpu a),
          a_prot_mem := window_push (f_of_int protMem) (ns_time s) (a_prot_mem a),
          a_node_cpu := window_push (ns_cpu s) (ns_time s) (a_node_cpu a),
          a_node_mem := window_push (f_of_int (ns_mem s)) (ns_time s) (a_node_mem a),
          a_cpu_psi := window_push (some_avg10 (ns_cpu_psi s)) (ns_time s) (a_cpu_psi a),
          a_mem_psi := window_push (full_avg10 (ns_mem_psi s)) (ns_time s) (a_mem_psi a)\<rparr>)"

section \<open>Recommend\<close>

definition reclaimable :: "adv_config \<Rightarrow> int \<Rightarrow> int \<Rightarrow> int \<Rightarrow> int \<Rightarrow> int \<times> string" where
  "reclaimable cfg allocatable protected targetPercent least =
     (if allocatable \<le> 0 then (0, ''no-allocatable'')
      else
        let budget = go_div (i64 (allocatable * targetPercent)) 100;
            headroom = go_div (i64 (allocatable * av_headroom cfg)) 100;
            value = i64 (budget - protected - headroom)
        in if value \<le> 0 then (0, ''no-headroom'')
           else
             let cap = go_div (i64 (allocatable * av_max_reclaim cfg)) 100;
                 (v, reason) = (if value > cap then (cap, ''max-reclaim-cap'') else (value, ''usage-derived''))
             in if v < least then (0, ''below-floor'') else (v, reason))"

definition damp :: "adv_config \<Rightarrow> int \<Rightarrow> int \<Rightarrow> int" where
  "damp cfg current target =
     (if target \<le> current then target
      else
        let step = av_growth_step cfg
        in if step \<le> 0 \<or> step \<ge> 100 then target
           else
             let delta0 = go_div (i64 (i64 (target - current) * step)) 100;
                 delta = (if delta0 < 1 then 1 else delta0);
                 nxt = i64 (current + delta)
             in if nxt > target then target else nxt)"

definition pct :: "int \<Rightarrow> int \<Rightarrow> int" where
  "pct part whole =
     (if whole \<le> 0 then 0
      else let v = go_div (i64 (part * 100)) whole
        in if v < 0 then 0 else if v > 100 then 100 else v)"

text \<open>The two switches of \<^verbatim>\<open>pressure\<close>.\<close>

definition is_critical :: "adv_config \<Rightarrow> int \<Rightarrow> int \<Rightarrow> f64 \<Rightarrow> f64 \<Rightarrow> bool" where
  "is_critical cfg cpuUtil memUtil cpuStall memStall \<longleftrightarrow>
     memUtil \<ge> av_mem_threshold cfg \<or> cpuUtil \<ge> av_cpu_threshold cfg \<or>
     cpuStall \<ge> f_of_int (av_stall_threshold cfg) \<or> memStall \<ge> 10"

definition is_moderate :: "adv_config \<Rightarrow> int \<Rightarrow> int \<Rightarrow> f64 \<Rightarrow> bool" where
  "is_moderate cfg cpuUtil memUtil cpuStall \<longleftrightarrow>
     memUtil \<ge> av_mem_threshold cfg - 10 \<or> cpuUtil \<ge> av_cpu_threshold cfg - 10 \<or>
     cpuStall \<ge> f_div (f_of_int (av_stall_threshold cfg)) 2"

definition advisor_pressure :: "advisor \<Rightarrow> int \<Rightarrow> int \<Rightarrow> gtime \<Rightarrow> node_pressure" where
  "advisor_pressure a cpuAlloc memAlloc now =
     (let cpuUtil = pct (f_to_i64 (window_percentile (a_node_cpu a) 90 now)) cpuAlloc;
          memUtil = pct (f_to_i64 (window_max (a_node_mem a) now)) memAlloc;
          cpuStall = window_percentile (a_cpu_psi a) 90 now;
          memStall = window_percentile (a_mem_psi a) 90 now;
          p = \<lparr>np_level = PressureNone, np_cpu_util = i32 cpuUtil, np_mem_util = i32 memUtil,
               np_cpu_some_stalled = i32 (f_to_i64 (math_round cpuStall)),
               np_mem_full_stalled = i32 (f_to_i64 (math_round memStall))\<rparr>
      in if is_critical (a_cfg a) cpuUtil memUtil cpuStall memStall then p\<lparr>np_level := PressureCritical\<rparr>
         else if is_moderate (a_cfg a) cpuUtil memUtil cpuStall then p\<lparr>np_level := PressureModerate\<rparr>
         else p)"

definition relDiff :: "int \<Rightarrow> int \<Rightarrow> f64" where
  "relDiff a b =
     (if a = b then 0
      else let base = \<bar>f_of_int a\<bar>
        in if base < 1 then 1 else f_div \<bar>f_of_int (i64 (b - a))\<bar> base)"

definition materiallyDiffers :: "recommendation \<Rightarrow> recommendation \<Rightarrow> bool" where
  "materiallyDiffers prev rec \<longleftrightarrow>
     (if np_level (rc_pressure prev) \<noteq> np_level (rc_pressure rec) then True
      else relDiff (rc_cpu prev) (rc_cpu rec) > fl (2 / 100) \<or> relDiff (rc_mem prev) (rc_mem rec) > fl (2 / 100))"

definition advisor_confidence :: "advisor \<Rightarrow> gtime \<Rightarrow> string" where
  "advisor_confidence a now =
     (if \<not> window_full (a_prot_cpu a) then ''Low''
      else if window_count (a_prot_cpu a) now < w_capacity (a_prot_cpu a) div 2 then ''Medium''
      else ''High'')"

definition protCPU_of :: "advisor \<Rightarrow> gtime \<Rightarrow> int" where
  "protCPU_of a now =
     f_to_i64 (window_aggregate (a_prot_cpu a) (av_algorithm (a_cfg a)) (av_alpha (a_cfg a)) now)"

definition protMem_of :: "advisor \<Rightarrow> gtime \<Rightarrow> int" where
  "protMem_of a now = f_to_i64 (window_max (a_prot_mem a) now)"

definition advisor_Recommend ::
  "'q quantity_ops \<Rightarrow> 'q resource_list \<Rightarrow> gtime \<Rightarrow> advisor \<Rightarrow> recommendation \<times> advisor"
where
  "advisor_Recommend Q allocatable now a =
     (let cpuAlloc = milliOf Q allocatable ResourceCPU;
          memAlloc = bytesOf Q allocatable ResourceMemory;
          protCPU = protCPU_of a now;
          protMem = protMem_of a now;
          (cpuReclaim0, cpuReason) = reclaimable (a_cfg a) cpuAlloc protCPU (av_cpu_target (a_cfg a)) (av_min_cpu (a_cfg a));
          (memReclaim0, memReason) = reclaimable (a_cfg a) memAlloc protMem (av_mem_target (a_cfg a)) (av_min_mem (a_cfg a));
          cpuReclaim1 = damp (a_cfg a) (rc_cpu (a_last a)) cpuReclaim0;
          memReclaim1 = damp (a_cfg a) (rc_mem (a_last a)) memReclaim0;
          pressure = advisor_pressure a cpuAlloc memAlloc now;
          (cpuReclaim, memReclaim, reason) =
            (if np_level pressure = PressureCritical then (0, 0, ''critical-pressure'')
             else (cpuReclaim1, memReclaim1, cpuReason @ ''/'' @ memReason));
          rec0 = \<lparr>rc_cpu = cpuReclaim, rc_mem = memReclaim, rc_prot_cpu = protCPU, rc_prot_mem = protMem,
                  rc_pressure = pressure, rc_confidence = advisor_confidence a now, rc_reason = reason, rc_revision = 0\<rparr>;
          revision = (if materiallyDiffers (a_last a) rec0 then i64 (a_revision a + 1) else a_revision a);
          rec = rec0\<lparr>rc_revision := revision\<rparr>
      in (rec, a\<lparr>a_last := rec, a_revision := revision\<rparr>))"

section \<open>What may be resold\<close>

text \<open>
  Sane inputs: percentages as the CRD's validation bounds them, and an allocatable amount
  whose product with a percentage stays within \<^verbatim>\<open>int64\<close>.
\<close>

definition percent :: "int \<Rightarrow> bool" where
  "percent p \<longleftrightarrow> 0 \<le> p \<and> p \<le> 100"

definition max_alloc :: int where
  "max_alloc = 92233720368547758"

definition config_ok :: "adv_config \<Rightarrow> bool" where
  "config_ok cfg \<longleftrightarrow> percent (av_cpu_target cfg) \<and> percent (av_mem_target cfg) \<and> percent (av_headroom cfg) \<and>
     percent (av_max_reclaim cfg) \<and> is_f64 (av_alpha cfg) \<and> av_window_seconds cfg < 2 ^ 31"

lemma percent_product: "0 \<le> x \<Longrightarrow> x \<le> max_alloc \<Longrightarrow> percent p \<Longrightarrow>
    0 \<le> x * p \<and> x * p \<le> 9223372036854775800"
proof -
  assume x: "0 \<le> x" "x \<le> max_alloc" and p: "percent p"
  have "x * p \<le> max_alloc * 100" using x p by (intro mult_mono) (simp_all add: percent_def max_alloc_def)
  then show ?thesis using x p by (simp add: percent_def max_alloc_def)
qed

lemma percent_of:
  assumes "0 \<le> x" "x \<le> max_alloc" "percent p"
  shows "go_div (i64 (x * p)) 100 = x * p div 100" and "0 \<le> x * p div 100" and "x * p div 100 \<le> x"
proof -
  note b = percent_product [OF assms]
  then have "i64 (x * p) = x * p" by (intro i64_id in_i64I) linarith+
  then show "go_div (i64 (x * p)) 100 = x * p div 100" using b by (simp add: go_div_nonneg)
  show "0 \<le> x * p div 100" using b by (simp add: pos_imp_zdiv_nonneg_iff)
  have "x * p \<le> x * 100" using assms by (intro mult_left_mono) (simp_all add: percent_def)
  then show "x * p div 100 \<le> x" by linarith
qed

text \<open>The offer the formula allows: the budget less what is used and less the headroom, capped.\<close>

definition spare :: "adv_config \<Rightarrow> int \<Rightarrow> int \<Rightarrow> int \<Rightarrow> int" where
  "spare cfg allocatable protected targetPercent =
     min (allocatable * targetPercent div 100 - protected - allocatable * av_headroom cfg div 100)
       (allocatable * av_max_reclaim cfg div 100)"

lemma reclaimable_eq:
  assumes "0 < alloc" "alloc \<le> max_alloc" "percent target" "config_ok cfg" "0 \<le> prot" "prot \<le> 2 ^ 62"
  shows "fst (reclaimable cfg alloc prot target least) =
    (if 0 < alloc * target div 100 - prot - alloc * av_headroom cfg div 100 \<and> least \<le> spare cfg alloc prot target
     then spare cfg alloc prot target else 0)"
proof -
  have c: "percent (av_headroom cfg)" "percent (av_max_reclaim cfg)" using assms(4) by (simp_all add: config_ok_def)
  note t = percent_of [OF less_imp_le [OF assms(1)] assms(2) assms(3)]
  note h = percent_of [OF less_imp_le [OF assms(1)] assms(2) c(1)]
  note m = percent_of [OF less_imp_le [OF assms(1)] assms(2) c(2)]
  define B H C where "B = alloc * target div 100" and "H = alloc * av_headroom cfg div 100"
    and "C = alloc * av_max_reclaim cfg div 100"
  have e: "go_div (i64 (alloc * target)) 100 = B" "go_div (i64 (alloc * av_headroom cfg)) 100 = H"
    "go_div (i64 (alloc * av_max_reclaim cfg)) 100 = C" "0 \<le> B" "B \<le> alloc" "0 \<le> H" "H \<le> alloc" "0 \<le> C"
    using t h m by (simp_all only: B_def H_def C_def)
  have w: "i64 (B - prot - H) = B - prot - H"
    using e assms(2,5,6) by (intro i64_id in_i64I) (simp_all add: max_alloc_def)
  have "fst (reclaimable cfg alloc prot target least) =
      (if 0 < B - prot - H \<and> least \<le> min (B - prot - H) C then min (B - prot - H) C else 0)"
    using assms(1) by (simp add: reclaimable_def e(1-3) w min_def Let_def)
  then show ?thesis by (simp only: spare_def B_def H_def C_def)
qed

text \<open>
  The invariants of an offer: never negative, never above the reclaim cap, and together with
  what the protected tiers use and the headroom it fits the utilisation target.
\<close>

lemma reclaimable_bounds:
  assumes "alloc \<le> max_alloc" "percent target" "config_ok cfg" "0 \<le> prot" "prot \<le> 2 ^ 62"
    and "v = fst (reclaimable cfg alloc prot target least)"
  shows "0 \<le> v" and "v \<le> max 0 (alloc * av_max_reclaim cfg div 100)"
    and "0 < v \<Longrightarrow> 0 < alloc \<and> prot + alloc * av_headroom cfg div 100 + v \<le> alloc * target div 100"
    and "v \<le> max_alloc"
proof -
  consider (none) "alloc \<le> 0" | (some) "0 < alloc" by linarith
  then have "0 \<le> v \<and> v \<le> max 0 (alloc * av_max_reclaim cfg div 100) \<and>
      (0 < v \<longrightarrow> 0 < alloc \<and> prot + alloc * av_headroom cfg div 100 + v \<le> alloc * target div 100) \<and> v \<le> max_alloc"
  proof cases
    case none
    then show ?thesis using assms(6) by (simp add: reclaimable_def max_alloc_def)
  next
    case some
    have c: "percent (av_max_reclaim cfg)" using assms(3) by (simp add: config_ok_def)
    note m = percent_of [OF less_imp_le [OF some] assms(1) c]
    show ?thesis
      using reclaimable_eq [OF some assms(1-5)] m assms(1,6)
      by (auto simp: spare_def min_def max_def max_alloc_def)
  qed
  then show "0 \<le> v" and "v \<le> max 0 (alloc * av_max_reclaim cfg div 100)"
    and "0 < v \<Longrightarrow> 0 < alloc \<and> prot + alloc * av_headroom cfg div 100 + v \<le> alloc * target div 100"
    and "v \<le> max_alloc" by simp_all
qed

section \<open>Damping\<close>

lemma damp_step:
  assumes "current < target" "0 \<le> current" "target \<le> max_alloc"
  shows "current < damp cfg current target \<and> damp cfg current target \<le> target \<and>
    (100 * (target - damp cfg current target) \<le> (100 - max 0 (min 100 (av_growth_step cfg))) * (target - current) + 100
      \<or> av_growth_step cfg \<le> 0)"
proof -
  let ?s = "av_growth_step cfg" and ?gap = "target - current"
  show ?thesis
  proof (cases "?s \<le> 0 \<or> 100 \<le> ?s")
    case True
    then show ?thesis using assms by (auto simp: damp_def)
  next
    case False
    then have p: "percent ?s" by (simp add: percent_def)
    have g: "0 \<le> ?gap" "?gap \<le> max_alloc" using assms by simp_all
    have gi: "i64 ?gap = ?gap" using g by (intro i64_id in_i64I) (simp_all add: max_alloc_def)
    note d = percent_of [OF g p]
    define D where "D = (if ?gap * ?s div 100 < 1 then 1 else ?gap * ?s div 100)"
    define P where "P = ?gap * ?s"
    have b: "1 \<le> D" "D \<le> ?gap" using d assms(1) by (auto simp: D_def)
    have ni: "i64 (current + D) = current + D"
      using b assms by (intro i64_id in_i64I) (simp_all add: max_alloc_def)
    have r: "damp cfg current target = current + D"
      using assms False d(1) gi ni b by (simp add: damp_def Let_def D_def)
    have "P \<le> 100 * D + 100" unfolding P_def D_def by (auto simp: not_less)
    then have shrink: "100 * (target - (current + D)) \<le> 100 * ?gap - P + 100" by (simp add: right_diff_distrib distrib_left)
    have "(100 - max 0 (min 100 ?s)) * ?gap = 100 * ?gap - P" using False by (simp add: P_def algebra_simps)
    with shrink b show ?thesis unfolding r by simp
  qed
qed

lemma damp_bounds:
  assumes "0 \<le> current" "0 \<le> target" "target \<le> max_alloc"
  shows "0 \<le> damp cfg current target \<and> damp cfg current target \<le> target"
  using damp_step [of current target cfg] assms by (cases "current < target") (auto simp: damp_def)

text \<open>
  C16. The damped figure falls to a lower target at once, never overshoots a higher one and
  gains on it at every step, by at least the configured share of the gap; a target that
  stays is reached after finitely many steps, so a drained node is resold in the end.
\<close>

theorem damp_converges:
  assumes "0 \<le> current" and "0 \<le> target" "target \<le> max_alloc"
  shows "(target \<le> current \<longrightarrow> damp cfg current target = target) \<and>
    (current < target \<longrightarrow> current < damp cfg current target \<and> damp cfg current target \<le> target \<and>
      (0 < av_growth_step cfg \<longrightarrow> 100 * (target - damp cfg current target)
        \<le> (100 - min 100 (av_growth_step cfg)) * (target - current) + 100)) \<and>
    (\<forall>n \<ge> nat (target - current) + 1. ((\<lambda>c. damp cfg c target) ^^ n) current = target)"
proof -
  let ?f = "\<lambda>c. damp cfg c target"
  have fix_: "?f target = target" by (simp add: damp_def)
  have reach: "((?f ^^ n) c = target)" if "0 \<le> c" "nat (target - c) + 1 \<le> n" for c n
    using that
  proof (induction n arbitrary: c)
    case (Suc n)
    have swap: "(?f ^^ Suc n) c = (?f ^^ n) (?f c)" by (simp add: funpow_Suc_right del: funpow.simps)
    show ?case
    proof (cases "c < target")
      case True
      with damp_step [of c target cfg] Suc.prems assms have "c < ?f c" "?f c \<le> target" by simp_all
      with Suc.prems True have "nat (target - ?f c) + 1 \<le> n" by linarith
      with Suc.IH [of "?f c"] \<open>c < ?f c\<close> Suc.prems(1) show ?thesis unfolding swap by simp
    next
      case False
      then have "?f c = target" by (simp add: damp_def)
      moreover have "(?f ^^ m) target = target" for m by (induction m) (simp_all add: fix_)
      ultimately show ?thesis unfolding swap by simp
    qed
  qed simp
  moreover have "target \<le> current \<longrightarrow> ?f current = target" by (simp add: damp_def)
  ultimately show ?thesis using damp_step [of current target cfg] assms by auto
qed

theorem damp_converges_witness:
  "damp DefaultConfig 0 1000 = 250 \<and> damp DefaultConfig 1000 400 = 400 \<and>
   ((\<lambda>c. damp DefaultConfig c 1000) ^^ 1001) 0 = 1000"
proof -
  have "damp DefaultConfig 0 1000 = 250" by code_simp
  with damp_converges [of 1000 400 DefaultConfig] damp_converges [of 0 1000 DefaultConfig]
  show ?thesis by (simp add: max_alloc_def)
qed

section \<open>The advisor over any history\<close>

datatype 'q adv_event =
    EvObserve "'q node_sample"
  | EvConfig adv_config
  | EvRecommend "'q resource_list" gtime

fun advisor_step :: "'q quantity_ops \<Rightarrow> 'q adv_event \<Rightarrow> advisor \<Rightarrow> advisor" where
  "advisor_step Q (EvObserve s) a = advisor_Observe s a"
| "advisor_step Q (EvConfig cfg) a = advisor_SetConfig cfg a"
| "advisor_step Q (EvRecommend alloc now) a = snd (advisor_Recommend Q alloc now a)"

text \<open>
  Physical inputs: protected usage from 0 to a billion cores and 2 ^ 62 bytes, a node's
  capacity within \<open>max_alloc\<close>, a valid configuration.
\<close>

fun adv_event_ok :: "'q quantity_ops \<Rightarrow> 'q adv_event \<Rightarrow> bool" where
  "adv_event_ok Q (EvObserve s) =
     (ns_valid s \<longrightarrow> in_range (fst (protected_usage (ns_pods s))) \<and> snd (protected_usage (ns_pods s)) \<le> 2 ^ 62)"
| "adv_event_ok Q (EvConfig cfg) = config_ok cfg"
| "adv_event_ok Q (EvRecommend alloc now) =
     (milliOf Q alloc ResourceCPU \<le> max_alloc \<and> bytesOf Q alloc ResourceMemory \<le> max_alloc)"

definition window_ok :: "rat \<Rightarrow> window \<Rightarrow> bool" where
  "window_ok hi w \<longleftrightarrow> window_inv w \<and> int (w_capacity w) \<le> 2 ^ 31 \<and> (\<forall>v \<in> fst ` set (obs w). 0 \<le> v \<and> v \<le> hi)"

definition advisor_inv :: "advisor \<Rightarrow> bool" where
  "advisor_inv a \<longleftrightarrow> config_ok (a_cfg a) \<and> window_ok (2 ^ 40) (a_prot_cpu a) \<and> window_ok (2 ^ 62) (a_prot_mem a) \<and>
     0 \<le> rc_cpu (a_last a) \<and> 0 \<le> rc_mem (a_last a)"

lemma go_div_le: "0 \<le> a \<Longrightarrow> 0 < b \<Longrightarrow> go_div a b \<le> a"
  using go_div_abs_le [of a b] by linarith

lemma window_ok_new:
  "config_ok cfg \<Longrightarrow> window_geometry cfg = (capacity, horizon) \<Longrightarrow> window_ok hi (newWindow capacity horizon)"
proof -
  assume c: "config_ok cfg" and g: "window_geometry cfg = (capacity, horizon)"
  let ?i = "if av_interval_seconds cfg < 1 then 1 else av_interval_seconds cfg"
  have "go_div (av_window_seconds cfg) ?i < 2 ^ 31"
  proof (cases "0 \<le> av_window_seconds cfg")
    case True
    have "go_div (av_window_seconds cfg) ?i \<le> av_window_seconds cfg" by (rule go_div_le [OF True]) auto
    moreover have "av_window_seconds cfg < 2 ^ 31" using c by (simp add: config_ok_def)
    ultimately show ?thesis by (rule le_less_trans)
  next
    case False
    then have "go_div (av_window_seconds cfg) ?i \<le> 0" by (intro go_div_nonpos) auto
    then show ?thesis by simp
  qed
  then have "capacity < 2 ^ 31" using g by (auto simp: window_geometry_def Let_def split: if_splits)
  then show ?thesis by (simp add: window_ok_def)
qed

lemma window_ok_push:
  assumes "window_ok hi w" "0 \<le> v" "v \<le> hi"
  shows "window_ok hi (window_push v t w)"
proof -
  have "window_inv w" using assms(1) by (simp add: window_ok_def)
  from window_push_obs [OF this, of v t] have "set (obs (window_push v t w)) \<subseteq> set (obs w) \<union> {(v, t)}"
    using set_take_last [of "w_capacity w" "obs w @ [(v, t)]"] by simp
  then show ?thesis using assms window_push_inv by (fastforce simp: window_ok_def)
qed

lemma window_ok_live:
  assumes "window_ok hi w"
  shows "\<forall>v \<in> set (window_live w now). 0 \<le> v \<and> v \<le> hi" and "int (length (window_live w now)) \<le> 2 ^ 31"
proof -
  have inv: "window_inv w" and r: "\<forall>v \<in> fst ` set (obs w). 0 \<le> v \<and> v \<le> hi" and cap: "int (w_capacity w) \<le> 2 ^ 31"
    using assms by (simp_all add: window_ok_def)
  show "\<forall>v \<in> set (window_live w now). 0 \<le> v \<and> v \<le> hi"
    unfolding window_live_obs [OF inv] using r by force
  have "length (window_live w now) \<le> length (obs w)" unfolding window_live_obs [OF inv] by simp
  also have "\<dots> \<le> w_capacity w" using length_obs [OF inv] inv by (auto simp: live_count_def window_inv_def)
  finally show "int (length (window_live w now)) \<le> 2 ^ 31" using cap by simp
qed

lemma f_to_i64_range:
  assumes "0 \<le> v" "v \<le> 2 ^ k" "k \<le> 62"
  shows "0 \<le> f_to_i64 v \<and> f_to_i64 v \<le> 2 ^ k"
proof -
  have "(2::rat) ^ k \<le> 2 ^ 62" using assms(3) by (intro power_increasing) simp_all
  with assms have "v < 2 ^ 63" by simp
  note b = f_to_i64_nonneg [OF assms(1) this]
  then have "of_int (f_to_i64 v) \<le> (2::rat) ^ k" using assms(2) by linarith
  then have "f_to_i64 v \<le> 2 ^ k" by (simp only: of_int_le_numeral_power_cancel_iff)
  with b show ?thesis by simp
qed

lemma protCPU_range:
  assumes "advisor_inv a"
  shows "0 \<le> protCPU_of a now \<and> protCPU_of a now \<le> 2 ^ 40"
proof -
  have w: "window_ok (2 ^ 40) (a_prot_cpu a)" and f: "is_f64 (av_alpha (a_cfg a))"
    using assms by (simp_all add: advisor_inv_def config_ok_def)
  note live = window_ok_live [OF w, of now]
  have "in_range (window_aggregate (a_prot_cpu a) alg (av_alpha (a_cfg a)) now)" for alg
  proof (cases "window_live (a_prot_cpu a) now = []")
    case False
    have r: "\<forall>v \<in> set (window_live (a_prot_cpu a) now). in_range v" using live(1) by (simp add: in_range_def)
    have l: "int (length (window_live (a_prot_cpu a) now)) \<le> 2 ^ 53" using live(2) by simp
    show ?thesis
      using r window_percentile_cases [OF False] window_max_in [OF False] False
        ewma_range [OF f r False] mean_range [OF r False l]
      by (simp add: window_aggregate_def window_ewma_def window_mean_def Let_def)
  qed (simp add: window_aggregate_def window_percentile_def window_max_def window_ewma_def window_mean_def in_range_def)
  then show ?thesis unfolding protCPU_of_def in_range_def by (intro f_to_i64_range) simp_all
qed

lemma protMem_range:
  assumes "advisor_inv a"
  shows "0 \<le> protMem_of a now \<and> protMem_of a now \<le> 2 ^ 62"
proof -
  have w: "window_ok (2 ^ 62) (a_prot_mem a)" using assms by (simp add: advisor_inv_def)
  have "0 \<le> window_max (a_prot_mem a) now \<and> window_max (a_prot_mem a) now \<le> 2 ^ 62"
    using window_ok_live(1) [OF w, of now] window_max_in [of "a_prot_mem a" now]
    by (cases "window_live (a_prot_mem a) now = []") (auto simp: window_max_def)
  then show ?thesis unfolding protMem_of_def by (intro f_to_i64_range) simp_all
qed

text \<open>One verdict, from any state of the invariant.\<close>

definition offer_safe :: "adv_config \<Rightarrow> int \<Rightarrow> int \<Rightarrow> int \<Rightarrow> int \<Rightarrow> bool" where
  "offer_safe cfg alloc target prot v \<longleftrightarrow>
     0 \<le> v \<and> v \<le> max 0 (alloc * av_max_reclaim cfg div 100) \<and>
     (0 < v \<longrightarrow> prot + alloc * av_headroom cfg div 100 + v \<le> alloc * target div 100)"

lemma damped_offer_safe:
  assumes "alloc \<le> max_alloc" "percent target" "config_ok cfg" "0 \<le> prot" "prot \<le> 2 ^ 62" "0 \<le> current"
  shows "offer_safe cfg alloc target prot (damp cfg current (fst (reclaimable cfg alloc prot target least)))"
proof -
  let ?r = "fst (reclaimable cfg alloc prot target least)"
  note r = reclaimable_bounds [OF assms(1-5) refl, of least]
  note d = damp_bounds [OF assms(6) r(1) r(4), of cfg]
  show ?thesis unfolding offer_safe_def using d r(2,3) by fastforce
qed

lemma materiallyDiffers_revision [simp]:
  "materiallyDiffers p (r\<lparr>rc_revision := v\<rparr>) = materiallyDiffers p r"
  by (simp add: materiallyDiffers_def)

lemma Recommend_fields:
  assumes "advisor_Recommend Q alloc now a = (rec, a')"
  shows "rc_cpu rec = (if np_level (rc_pressure rec) = PressureCritical then 0 else
      damp (a_cfg a) (rc_cpu (a_last a)) (fst (reclaimable (a_cfg a) (milliOf Q alloc ResourceCPU) (protCPU_of a now)
        (av_cpu_target (a_cfg a)) (av_min_cpu (a_cfg a)))))"
    and "rc_mem rec = (if np_level (rc_pressure rec) = PressureCritical then 0 else
      damp (a_cfg a) (rc_mem (a_last a)) (fst (reclaimable (a_cfg a) (bytesOf Q alloc ResourceMemory) (protMem_of a now)
        (av_mem_target (a_cfg a)) (av_min_mem (a_cfg a)))))"
    and "rc_prot_cpu rec = protCPU_of a now" "rc_prot_mem rec = protMem_of a now"
    and "rc_pressure rec = advisor_pressure a (milliOf Q alloc ResourceCPU) (bytesOf Q alloc ResourceMemory) now"
    and "a' = a\<lparr>a_last := rec, a_revision := rc_revision rec\<rparr>"
    and "rc_revision rec = (if materiallyDiffers (a_last a) rec then i64 (a_revision a + 1) else a_revision a)"
proof -
  let ?cpu = "milliOf Q alloc ResourceCPU" and ?mem = "bytesOf Q alloc ResourceMemory"
  obtain c0 cr where c: "reclaimable (a_cfg a) ?cpu (protCPU_of a now) (av_cpu_target (a_cfg a)) (av_min_cpu (a_cfg a)) = (c0, cr)"
    using prod.exhaust by blast
  obtain m0 mr where m: "reclaimable (a_cfg a) ?mem (protMem_of a now) (av_mem_target (a_cfg a)) (av_min_mem (a_cfg a)) = (m0, mr)"
    using prod.exhaust by blast
  define pr where "pr = advisor_pressure a ?cpu ?mem now"
  define crit where "crit \<longleftrightarrow> np_level pr = PressureCritical"
  define rec0 where "rec0 = \<lparr>rc_cpu = (if crit then 0 else damp (a_cfg a) (rc_cpu (a_last a)) c0),
    rc_mem = (if crit then 0 else damp (a_cfg a) (rc_mem (a_last a)) m0), rc_prot_cpu = protCPU_of a now,
    rc_prot_mem = protMem_of a now, rc_pressure = pr, rc_confidence = advisor_confidence a now,
    rc_reason = (if crit then ''critical-pressure'' else cr @ ''/'' @ mr), rc_revision = 0\<rparr>"
  define rv where "rv = (if materiallyDiffers (a_last a) rec0 then i64 (a_revision a + 1) else a_revision a)"
  have "advisor_Recommend Q alloc now a
      = (rec0\<lparr>rc_revision := rv\<rparr>, a\<lparr>a_last := rec0\<lparr>rc_revision := rv\<rparr>, a_revision := rv\<rparr>)"
    by (cases crit)
      (simp_all add: advisor_Recommend_def Let_def c m pr_def [symmetric] rec0_def rv_def crit_def)
  with assms have r: "rec = rec0\<lparr>rc_revision := rv\<rparr>" "a' = a\<lparr>a_last := rec, a_revision := rv\<rparr>" by auto
  have p: "rc_pressure rec = pr" by (simp add: r rec0_def)
  show "rc_cpu rec = (if np_level (rc_pressure rec) = PressureCritical then 0 else
      damp (a_cfg a) (rc_cpu (a_last a)) (fst (reclaimable (a_cfg a) ?cpu (protCPU_of a now)
        (av_cpu_target (a_cfg a)) (av_min_cpu (a_cfg a)))))"
    unfolding c p by (simp add: r rec0_def crit_def)
  show "rc_mem rec = (if np_level (rc_pressure rec) = PressureCritical then 0 else
      damp (a_cfg a) (rc_mem (a_last a)) (fst (reclaimable (a_cfg a) ?mem (protMem_of a now)
        (av_mem_target (a_cfg a)) (av_min_mem (a_cfg a)))))"
    unfolding m p by (simp add: r rec0_def crit_def)
  show "rc_prot_cpu rec = protCPU_of a now" "rc_prot_mem rec = protMem_of a now"
    by (simp_all add: r rec0_def)
  show "rc_pressure rec = advisor_pressure a ?cpu ?mem now" by (simp add: p pr_def)
  have v: "rc_revision rec = rv" by (simp add: r)
  show "a' = a\<lparr>a_last := rec, a_revision := rc_revision rec\<rparr>" unfolding v by (rule r(2))
  show "rc_revision rec = (if materiallyDiffers (a_last a) rec then i64 (a_revision a + 1) else a_revision a)"
    unfolding v rv_def by (simp add: r(1))
qed

lemma Recommend_safe:
  assumes "advisor_inv a" "adv_event_ok Q (EvRecommend alloc now)" "advisor_Recommend Q alloc now a = (rec, a')"
  shows "offer_safe (a_cfg a) (milliOf Q alloc ResourceCPU) (av_cpu_target (a_cfg a)) (rc_prot_cpu rec) (rc_cpu rec)"
    and "offer_safe (a_cfg a) (bytesOf Q alloc ResourceMemory) (av_mem_target (a_cfg a)) (rc_prot_mem rec) (rc_mem rec)"
proof -
  note f = Recommend_fields [OF assms(3)]
  have zero: "offer_safe cfg x y z 0" for cfg x y z by (simp add: offer_safe_def)
  have c: "config_ok (a_cfg a)" "percent (av_cpu_target (a_cfg a))" "percent (av_mem_target (a_cfg a))"
    and l: "0 \<le> rc_cpu (a_last a)" "0 \<le> rc_mem (a_last a)"
    using assms(1) by (simp_all add: advisor_inv_def config_ok_def)
  have p40: "protCPU_of a now \<le> 2 ^ 62" using protCPU_range [OF assms(1), of now] by simp
  show "offer_safe (a_cfg a) (milliOf Q alloc ResourceCPU) (av_cpu_target (a_cfg a)) (rc_prot_cpu rec) (rc_cpu rec)"
    unfolding f(1,3) using zero damped_offer_safe [OF _ c(2,1) _ p40 l(1)] protCPU_range [OF assms(1)] assms(2) by simp
  show "offer_safe (a_cfg a) (bytesOf Q alloc ResourceMemory) (av_mem_target (a_cfg a)) (rc_prot_mem rec) (rc_mem rec)"
    unfolding f(2,4) using zero damped_offer_safe [OF _ c(3,1) _ _ l(2)] protMem_range [OF assms(1)] assms(2) by simp
qed

lemma advisor_inv_new: "config_ok cfg \<Longrightarrow> advisor_inv (advisor_New cfg)"
  using window_ok_new [of cfg]
  by (auto simp: advisor_inv_def advisor_New_def no_recommendation_def Let_def split: prod.splits)

interpretation adv: transition_system "advisor_step Q" advisor_inv "adv_event_ok Q" for Q :: "'q quantity_ops"
proof
  fix a and e :: "'q adv_event"
  assume a: "advisor_inv a" and e: "adv_event_ok Q e"
  show "advisor_inv (advisor_step Q e a)"
  proof (cases e)
    case (EvObserve s)
    obtain c m where u: "protected_usage (ns_pods s) = (c, m)" by (cases "protected_usage (ns_pods s)")
    show ?thesis
    proof (cases "ns_valid s")
      case True
      have m0: "0 \<le> m"
      proof -
        have "0 \<le> snd (fold f ps acc)" if "0 \<le> snd acc" "\<And>p acc. 0 \<le> snd acc \<Longrightarrow> 0 \<le> snd (f p acc)"
          for f :: "'q pod_sample \<Rightarrow> f64 \<times> int \<Rightarrow> f64 \<times> int" and ps acc
          using that by (induction ps arbitrary: acc) simp_all
        then have "0 \<le> snd (protected_usage (ns_pods s))"
          unfolding protected_usage_def by (auto split: prod.splits)
        then show ?thesis by (simp add: u)
      qed
      have "fl (of_int m) \<le> fl (of_int (2 ^ 62))" using e True EvObserve u by (intro fl_mono) (simp flip: of_int_power)
      also have "fl (of_int (2 ^ 62) :: rat) = 2 ^ 62" by code_simp
      finally have fm: "f_of_int m \<le> 2 ^ 62" "0 \<le> f_of_int m" using m0 by (simp_all add: f_of_int_def)
      have c: "0 \<le> c" "c \<le> 2 ^ 40" using e True EvObserve u by (simp_all add: in_range_def)
      show ?thesis using a EvObserve True u window_ok_push c fm
        by (simp add: advisor_inv_def advisor_Observe_def)
    qed (use a EvObserve in \<open>simp add: advisor_Observe_def\<close>)
  next
    case (EvConfig cfg)
    then show ?thesis using a e window_ok_new [of cfg]
      by (auto simp: advisor_inv_def advisor_SetConfig_def advisor_resize_def Let_def split: prod.splits)
  next
    case (EvRecommend alloc now)
    obtain rec a' where r: "advisor_Recommend Q alloc now a = (rec, a')" by (cases "advisor_Recommend Q alloc now a")
    from Recommend_safe [OF a _ r] e EvRecommend have "0 \<le> rc_cpu rec" "0 \<le> rc_mem rec"
      by (simp_all add: offer_safe_def)
    with Recommend_fields(6) [OF r] r a show ?thesis by (simp add: advisor_inv_def EvRecommend)
  qed
qed

text \<open>
  C7. Safety of the offer. Whatever samples, configurations and earlier verdicts came before,
  each figure of a verdict is non-negative, at most the reclaim cap of the node's capacity,
  and, when positive, fits beside the protected consumption and the headroom inside the
  utilisation target; under critical pressure both are withdrawn.
\<close>

theorem Recommend_offer_safe:
  assumes "config_ok cfg" and "\<forall>e \<in> set es. adv_event_ok Q e" and "adv_event_ok Q (EvRecommend alloc now)"
    and "advisor_Recommend Q alloc now (fold (advisor_step Q) es (advisor_New cfg)) = (rec, a')"
  shows "offer_safe (a_cfg a') (milliOf Q alloc ResourceCPU) (av_cpu_target (a_cfg a')) (rc_prot_cpu rec) (rc_cpu rec) \<and>
    offer_safe (a_cfg a') (bytesOf Q alloc ResourceMemory) (av_mem_target (a_cfg a')) (rc_prot_mem rec) (rc_mem rec) \<and>
    (np_level (rc_pressure rec) = PressureCritical \<longrightarrow> rc_cpu rec = 0 \<and> rc_mem rec = 0) \<and>
    0 \<le> rc_prot_cpu rec \<and> 0 \<le> rc_prot_mem rec"
proof -
  let ?a = "fold (advisor_step Q) es (advisor_New cfg)"
  have inv: "advisor_inv ?a" using adv.run_inv [OF advisor_inv_new [OF assms(1)] assms(2)] .
  note f = Recommend_fields [OF assms(4)]
  have "a_cfg a' = a_cfg ?a" by (simp add: f(6))
  then show ?thesis
    using Recommend_safe [OF inv assms(3,4)] f(1-4) protCPU_range [OF inv] protMem_range [OF inv] by simp
qed

text \<open>A node with 4 cores and 8 GiB, and one tick of a lightly loaded one.\<close>

definition example_alloc :: "rat resource_list" where
  "example_alloc = [ResourceCPU \<mapsto> 4, ResourceMemory \<mapsto> 8589934592]"

definition example_tick :: "rat node_sample" where
  "example_tick = (empty_sample 100 4)\<lparr>ns_valid := True, ns_cpu := 700, ns_mem := 1000000000,
     ns_pods := [\<lparr>sm_uid = ''u1'', sm_namespace = ''default'', sm_name = ''web'', sm_level = QoSSharedCores,
       sm_cpu = 600, sm_mem = 800000000, sm_throttled = 0, sm_requests = Map.empty, sm_limits = Map.empty,
       sm_valid = True, sm_err = False\<rparr>]\<rparr>"

lemma config_ok_default: "config_ok DefaultConfig"
  by (simp add: config_ok_def DefaultConfig_def percent_def)

lemma example_tick_ok: "adv_event_ok rat_quantity (EvObserve example_tick)" by code_simp
lemma example_alloc_ok: "adv_event_ok rat_quantity (EvRecommend example_alloc 105)" by code_simp

theorem Recommend_offer_safe_witness:
  "(let rec = fst (advisor_Recommend rat_quantity example_alloc 105
       (fold (advisor_step rat_quantity) [EvObserve example_tick] (advisor_New DefaultConfig)))
    in 0 \<le> rc_cpu rec \<and> 0 \<le> rc_mem rec)"
proof -
  obtain rec a' where r: "advisor_Recommend rat_quantity example_alloc 105
       (fold (advisor_step rat_quantity) [EvObserve example_tick] (advisor_New DefaultConfig)) = (rec, a')"
    using prod.exhaust by blast
  from Recommend_offer_safe [OF config_ok_default _ example_alloc_ok r] example_tick_ok r show ?thesis
    by (simp add: offer_safe_def)
qed

section \<open>No feedback from the reclaimed tier\<close>

definition usage_seen :: "'q pod_sample \<Rightarrow> bool \<times> f64 \<times> int" where
  "usage_seen p = (sm_valid p, sm_cpu p, sm_mem p)"

definition protected_pods :: "'q pod_sample list \<Rightarrow> 'q pod_sample list" where
  "protected_pods = filter (\<lambda>p. sm_level p \<noteq> QoSReclaimedCores)"

lemma protected_usage_only:
  fixes ps qs :: "'q pod_sample list"
  assumes "map usage_seen (protected_pods ps) = map usage_seen (protected_pods qs)"
  shows "protected_usage ps = protected_usage qs"
proof -
  let ?g = "\<lambda>(v, c, m) (protCPU, protMem). (if v then f_add protCPU c else protCPU, u64 (protMem + m))"
  have "fold (\<lambda>p (protCPU, protMem).
         if sm_level p = QoSReclaimedCores then (protCPU, protMem)
         else (if sm_valid p then f_add protCPU (sm_cpu p) else protCPU, u64 (protMem + sm_mem p))) rs acc
      = fold ?g (map usage_seen (protected_pods rs)) acc" for rs :: "'q pod_sample list" and acc
    by (induction rs arbitrary: acc) (auto simp: protected_pods_def usage_seen_def)
  with assms show ?thesis by (simp add: protected_usage_def)
qed

text \<open>
  C15. The control loop has no feedback: what the reclaimed pods consume, and how many there
  are, changes neither the protected figures nor the undamped offer that admitted them.
\<close>

theorem Observe_ignores_reclaimed:
  fixes a :: advisor and s1 s2 :: "'q node_sample"
  assumes "map usage_seen (protected_pods (ns_pods s1)) = map usage_seen (protected_pods (ns_pods s2))"
    and "ns_valid s1 = ns_valid s2" and "ns_time s1 = ns_time s2"
  defines "a1 \<equiv> advisor_Observe s1 a" and "a2 \<equiv> advisor_Observe s2 a"
  shows "protCPU_of a1 now = protCPU_of a2 now \<and> protMem_of a1 now = protMem_of a2 now \<and>
    reclaimable (a_cfg a1) alloc (protCPU_of a1 now) target least = reclaimable (a_cfg a2) alloc (protCPU_of a2 now) target least \<and>
    advisor_confidence a1 now = advisor_confidence a2 now"
proof -
  have "a_prot_cpu a1 = a_prot_cpu a2" "a_prot_mem a1 = a_prot_mem a2" "a_cfg a1 = a_cfg a2"
    using assms(2,3) protected_usage_only [OF assms(1)]
    by (simp_all add: a1_def a2_def advisor_Observe_def split: prod.splits)
  then show ?thesis by (simp add: protCPU_of_def protMem_of_def advisor_confidence_def)
qed

theorem Observe_ignores_reclaimed_witness:
  "protCPU_of (advisor_Observe example_tick (advisor_New DefaultConfig)) 105 =
   protCPU_of (advisor_Observe (example_tick\<lparr>ns_pods := ns_pods example_tick @
       [(hd (ns_pods example_tick))\<lparr>sm_uid := ''batch'', sm_level := QoSReclaimedCores, sm_cpu := 3000\<rparr>]\<rparr>)
     (advisor_New DefaultConfig)) 105"
  using Observe_ignores_reclaimed [of example_tick "example_tick\<lparr>ns_pods := ns_pods example_tick @
       [(hd (ns_pods example_tick))\<lparr>sm_uid := ''batch'', sm_level := QoSReclaimedCores, sm_cpu := 3000\<rparr>]\<rparr>"
      "advisor_New DefaultConfig" 105]
  by (simp add: protected_pods_def)

text \<open>
  Memory is sized off its peak whatever the algorithm: the protected figure of a verdict
  is at least every live observation (to the byte), so no smoothing can hide a moment that
  would have exhausted the node.
\<close>

theorem Recommend_memory_peak:
  assumes "advisor_Recommend Q alloc now a = (rec, a')"
    and "(v, t) \<in> set (obs (a_prot_mem a))" and "now - w_horizon (a_prot_mem a) \<le> t"
    and "window_ok (2 ^ 62) (a_prot_mem a)"
  shows "\<lfloor>v\<rfloor> \<le> rc_prot_mem rec"
proof -
  let ?w = "a_prot_mem a"
  have inv: "window_inv ?w" using assms(4) by (simp add: window_ok_def)
  have v: "v \<in> set (window_live ?w now)" unfolding window_live_obs [OF inv] using assms(2,3) by force
  note live = window_ok_live(1) [OF assms(4), of now]
  have m: "v \<le> window_max ?w now" "0 \<le> v" using window_max_ge [OF v] live v by auto
  have ub: "window_max ?w now \<le> 2 ^ 62" using window_max_in [of ?w now] live v by force
  have "\<lfloor>v\<rfloor> \<le> \<lfloor>window_max ?w now\<rfloor>" using m by (simp add: floor_mono)
  also have "\<dots> = f_to_i64 (window_max ?w now)"
  proof -
    have "\<lfloor>window_max ?w now\<rfloor> \<le> 2 ^ 62" using ub by (simp add: floor_le_iff)
    moreover have "0 \<le> \<lfloor>window_max ?w now\<rfloor>" using m by simp
    ultimately have "in_i64 \<lfloor>window_max ?w now\<rfloor>" by (intro in_i64I) simp_all
    then show ?thesis using m by (simp add: f_to_i64_def trunc_rat_def)
  qed
  finally show ?thesis using Recommend_fields(4) [OF assms(1)] by (simp add: protMem_of_def)
qed

theorem Recommend_memory_peak_witness:
  "800000000 \<le> rc_prot_mem (fst (advisor_Recommend rat_quantity example_alloc 105
       (advisor_Observe example_tick (advisor_New DefaultConfig))))"
proof -
  let ?a = "advisor_Observe example_tick (advisor_New DefaultConfig)"
  obtain rec a' where r: "advisor_Recommend rat_quantity example_alloc 105 ?a = (rec, a')" using prod.exhaust by blast
  have "obs (a_prot_mem ?a) = [(800000000, 100)]" "w_horizon (a_prot_mem ?a) = 300000000000" by code_simp+
  moreover have "advisor_inv ?a"
    using adv.step_inv [OF advisor_inv_new [OF config_ok_default] example_tick_ok] by simp
  ultimately show ?thesis using Recommend_memory_peak [OF r, of 800000000 100] r by (simp add: advisor_inv_def)
qed

section \<open>Pressure\<close>

lemma pct_range: "0 \<le> pct part whole \<and> pct part whole \<le> 100"
  by (simp add: pct_def Let_def)

definition severity :: "adv_config \<Rightarrow> int \<Rightarrow> int \<Rightarrow> f64 \<Rightarrow> f64 \<Rightarrow> pressure_level" where
  "severity cfg cpuUtil memUtil cpuStall memStall =
     (if is_critical cfg cpuUtil memUtil cpuStall memStall then PressureCritical
      else if is_moderate cfg cpuUtil memUtil cpuStall then PressureModerate
      else PressureNone)"

lemma pressure_level_severity:
  "np_level (advisor_pressure a cpuAlloc memAlloc now) =
     severity (a_cfg a) (pct (f_to_i64 (window_percentile (a_node_cpu a) 90 now)) cpuAlloc)
       (pct (f_to_i64 (window_max (a_node_mem a) now)) memAlloc)
       (window_percentile (a_cpu_psi a) 90 now) (window_percentile (a_mem_psi a) 90 now)"
  by (simp add: advisor_pressure_def severity_def Let_def)

lemma severity_mono:
  "c \<le> c' \<Longrightarrow> m \<le> m' \<Longrightarrow> cs \<le> cs' \<Longrightarrow> ms \<le> ms' \<Longrightarrow> severity cfg c m cs ms \<le> severity cfg c' m' cs' ms'"
  by (auto simp: severity_def is_critical_def is_moderate_def less_eq_pressure_level_def)

text \<open>
  The classification is monotone: more utilisation or more stalling never reads as less
  pressure; the reported utilisations are percentages; and a node whose memory fully stalls a
  tenth of the time is critical under every configuration.
\<close>

theorem pressure_monotone:
  assumes "pct (f_to_i64 (window_percentile (a_node_cpu a) 90 now)) cpu \<le> pct (f_to_i64 (window_percentile (a_node_cpu b) 90 now)) cpu"
    and "pct (f_to_i64 (window_max (a_node_mem a) now)) mem \<le> pct (f_to_i64 (window_max (a_node_mem b) now)) mem"
    and "window_percentile (a_cpu_psi a) 90 now \<le> window_percentile (a_cpu_psi b) 90 now"
    and "window_percentile (a_mem_psi a) 90 now \<le> window_percentile (a_mem_psi b) 90 now"
    and "a_cfg a = a_cfg b"
  shows "np_level (advisor_pressure a cpu mem now) \<le> np_level (advisor_pressure b cpu mem now) \<and>
    0 \<le> np_cpu_util (advisor_pressure b cpu mem now) \<and> np_cpu_util (advisor_pressure b cpu mem now) \<le> 100 \<and>
    0 \<le> np_mem_util (advisor_pressure b cpu mem now) \<and> np_mem_util (advisor_pressure b cpu mem now) \<le> 100 \<and>
    (10 \<le> window_percentile (a_mem_psi b) 90 now \<longrightarrow> np_level (advisor_pressure b cpu mem now) = PressureCritical)"
proof -
  have id: "i32 (pct x y) = pct x y" for x y using pct_range [of x y] by (intro i32_small) simp_all
  show ?thesis
    unfolding pressure_level_severity using severity_mono [OF assms(1-4)] assms(5) pct_range
    by (simp add: advisor_pressure_def Let_def id severity_def is_critical_def)
qed

theorem pressure_monotone_witness:
  "np_level (advisor_pressure (advisor_New DefaultConfig) 4000 8000 105)
     \<le> np_level (advisor_pressure (advisor_Observe example_tick (advisor_New DefaultConfig)) 4000 8000 105)"
proof -
  let ?a = "advisor_New DefaultConfig" and ?b = "advisor_Observe example_tick (advisor_New DefaultConfig)"
  have "window_percentile (a_node_cpu ?a) 90 105 = 0" "window_max (a_node_mem ?a) 105 = 0"
    "window_percentile (a_cpu_psi ?a) 90 105 = 0" "window_percentile (a_mem_psi ?a) 90 105 = 0"
    "window_percentile (a_node_cpu ?b) 90 105 = 700" "window_max (a_node_mem ?b) 105 = 1000000000"
    "window_percentile (a_cpu_psi ?b) 90 105 = 0" "window_percentile (a_mem_psi ?b) 90 105 = 0"
    "pct (f_to_i64 0) 4000 \<le> pct (f_to_i64 700) 4000" "pct (f_to_i64 0) 8000 \<le> pct (f_to_i64 1000000000) 8000"
    "a_cfg ?a = a_cfg ?b"
    by code_simp+
  then show ?thesis using pressure_monotone [of ?a 105 4000 ?b 8000] by simp
qed

section \<open>Revisions\<close>

text \<open>
  Watchers are not woken for noise: a verdict at the same pressure level whose figures
  moved by at most two percent keeps the revision, and any change of level starts a new one.
\<close>

theorem Recommend_revision:
  assumes "advisor_Recommend Q alloc now a = (rec, a')"
    and "in_i64 (rc_cpu rec - rc_cpu (a_last a))" "in_i64 (rc_mem rec - rc_mem (a_last a))"
    and "\<bar>rc_cpu (a_last a)\<bar> \<le> 2 ^ 53" "\<bar>rc_mem (a_last a)\<bar> \<le> 2 ^ 53"
    and "\<bar>rc_cpu rec - rc_cpu (a_last a)\<bar> \<le> 2 ^ 53" "\<bar>rc_mem rec - rc_mem (a_last a)\<bar> \<le> 2 ^ 53"
  shows "(np_level (rc_pressure rec) \<noteq> np_level (rc_pressure (a_last a)) \<longrightarrow> rc_revision rec = i64 (a_revision a + 1)) \<and>
    (np_level (rc_pressure rec) = np_level (rc_pressure (a_last a)) \<and>
      50 * \<bar>rc_cpu rec - rc_cpu (a_last a)\<bar> \<le> \<bar>rc_cpu (a_last a)\<bar> \<and>
      50 * \<bar>rc_mem rec - rc_mem (a_last a)\<bar> \<le> \<bar>rc_mem (a_last a)\<bar> \<longrightarrow> rc_revision rec = a_revision a)"
proof -
  have quiet: "relDiff x y \<le> fl (2 / 100)"
    if "50 * \<bar>y - x\<bar> \<le> \<bar>x\<bar>" "in_i64 (y - x)" "\<bar>x\<bar> \<le> 2 ^ 53" "\<bar>y - x\<bar> \<le> 2 ^ 53" for x y
  proof (cases "x = y")
    case False
    then have "x \<noteq> 0" using that(1) by auto
    then have x: "1 \<le> \<bar>x\<bar>" by simp
    have f: "f_of_int x = of_int x" "f_of_int (y - x) = of_int (y - x)"
      unfolding f_of_int_def by (rule fl_of_int, fact)+
    have "(of_int (50 * \<bar>y - x\<bar>) :: rat) \<le> of_int \<bar>x\<bar>" using that(1) by (simp only: of_int_le_iff)
    then have "\<bar>of_int (y - x)\<bar> / \<bar>of_int x\<bar> \<le> (2 / 100 :: rat)" using x by (simp add: pos_divide_le_eq)
    then have "fl (\<bar>of_int (y - x)\<bar> / \<bar>of_int x\<bar>) \<le> fl (2 / 100)" by (rule fl_mono)
    moreover have "\<not> \<bar>of_int x\<bar> < (1::rat)" using x by (simp flip: of_int_abs)
    ultimately show ?thesis using False that(2) by (simp add: relDiff_def Let_def f i64_id f_div_def del: of_int_diff)
  qed (simp add: relDiff_def)
  show ?thesis
    using quiet [OF _ assms(2,4,6)] quiet [OF _ assms(3,5,7)] Recommend_fields(7) [OF assms(1)]
    by (auto simp: materiallyDiffers_def)
qed

theorem Recommend_revision_witness:
  "rc_revision (fst (advisor_Recommend rat_quantity example_alloc 105
      (advisor_Observe example_tick (advisor_New DefaultConfig)))) = 1"
proof -
  let ?a = "advisor_Observe example_tick (advisor_New DefaultConfig)"
  obtain rec a' where r: "advisor_Recommend rat_quantity example_alloc 105 ?a = (rec, a')" using prod.exhaust by blast
  have inv: "advisor_inv ?a"
    using adv.step_inv [OF advisor_inv_new [OF config_ok_default] example_tick_ok] by simp
  have cfg: "a_cfg ?a = DefaultConfig" "a_revision ?a = 0" "rc_cpu (a_last ?a) = 0" "rc_mem (a_last ?a) = 0"
    "np_level (rc_pressure (a_last ?a)) = PressureUnset" by code_simp+
  have alloc: "milliOf rat_quantity example_alloc ResourceCPU = 4000"
    "bytesOf rat_quantity example_alloc ResourceMemory = 8589934592" by code_simp+
  from Recommend_safe [OF inv example_alloc_ok r, unfolded cfg alloc]
  have "0 \<le> rc_cpu rec" "rc_cpu rec \<le> 4000" "0 \<le> rc_mem rec" "rc_mem rec \<le> 8589934592"
    by (simp_all add: offer_safe_def DefaultConfig_def)
  moreover have "np_level (rc_pressure rec) \<noteq> PressureUnset"
    unfolding Recommend_fields(5) [OF r] pressure_level_severity by (simp add: severity_def)
  ultimately show ?thesis using Recommend_revision [OF r] r cfg
    by (simp add: in_i64_def max_i64_def min_i64_def i64_def)
qed

end
