(* ===== verification/Go_Sort.thy ===== *)
theory Go_Sort
  imports KQ_Prelude
begin

text \<open>
  Go's \<^verbatim>\<open>sort.Slice\<close>, which is not stable: where elements tie, the library promises no
  order. It is a parameter, a function from the comparison of positions to the order of the
  positions, and \<open>slice_sort_law\<close> is what the library documents: for a strict weak order
  the result is sorted and a permutation. \<^verbatim>\<open>sort.SliceStable\<close> is \<^const>\<open>sort_key\<close>.
\<close>

type_synonym slice_sort = "(nat \<Rightarrow> nat \<Rightarrow> bool) \<Rightarrow> nat \<Rightarrow> nat list"

definition sort_Slice :: "slice_sort \<Rightarrow> ('a \<Rightarrow> 'a \<Rightarrow> bool) \<Rightarrow> 'a list \<Rightarrow> 'a list" where
  "sort_Slice S lt xs = map ((!) xs) (S (\<lambda>i j. lt (xs ! i) (xs ! j)) (length xs))"

definition weak_order_on :: "nat \<Rightarrow> (nat \<Rightarrow> nat \<Rightarrow> bool) \<Rightarrow> bool" where
  "weak_order_on n lt \<longleftrightarrow>
     (\<forall>i < n. \<forall>j < n. \<not> (lt i j \<and> lt j i)) \<and>
     (\<forall>i < n. \<forall>j < n. \<forall>k < n. lt i j \<longrightarrow> lt i k \<or> lt k j)"

definition slice_sort_law :: "slice_sort \<Rightarrow> bool" where
  "slice_sort_law S \<longleftrightarrow>
     (\<forall>n lt. weak_order_on n lt \<longrightarrow>
        mset (S lt n) = mset [0..<n] \<and> sorted_wrt (\<lambda>i j. \<not> lt j i) (S lt n))"

lemma weak_order_key: "weak_order_on (length xs) (\<lambda>i j. (key (xs ! j) :: 'b::linorder) < key (xs ! i))"
  by (auto simp: weak_order_on_def)

lemma sort_Slice_mset:
  assumes "slice_sort_law S"
  shows "mset (sort_Slice S (\<lambda>a b. (key b :: 'b::linorder) < key a) xs) = mset xs"
proof -
  have "mset (S (\<lambda>i j. key (xs ! j) < key (xs ! i)) (length xs)) = mset [0..<length xs]"
    using assms weak_order_key [of xs key] by (auto simp: slice_sort_law_def)
  then have "mset (sort_Slice S (\<lambda>a b. key b < key a) xs) = image_mset ((!) xs) (mset [0..<length xs])"
    by (simp add: sort_Slice_def)
  also have "\<dots> = mset xs" by (simp only: mset_map [symmetric] map_nth)
  finally show ?thesis .
qed

lemma sort_Slice_sorted:
  assumes "slice_sort_law S"
  shows "sorted_wrt (\<lambda>a b. (key b :: 'b::linorder) \<le> key a) (sort_Slice S (\<lambda>a b. key b < key a) xs)"
proof -
  let ?p = "S (\<lambda>i j. key (xs ! j) < key (xs ! i)) (length xs)"
  have "sorted_wrt (\<lambda>i j. \<not> key (xs ! i) < key (xs ! j)) ?p"
    using assms weak_order_key [of xs key] by (auto simp: slice_sort_law_def)
  then show ?thesis by (simp add: sort_Slice_def sorted_wrt_map not_less)
qed

lemma sort_Slice_set: "slice_sort_law S \<Longrightarrow>
    set (sort_Slice S (\<lambda>a b. (key b :: 'b::linorder) < key a) xs) = set xs"
  using sort_Slice_mset [of S key xs] by (metis set_mset_mset)

text \<open>
  An implementation with the documented behaviour, by insertion (what Go runs on short slices).
\<close>

fun insert_pos :: "(nat \<Rightarrow> nat \<Rightarrow> bool) \<Rightarrow> nat \<Rightarrow> nat list \<Rightarrow> nat list" where
  "insert_pos lt x [] = [x]"
| "insert_pos lt x (y # ys) = (if lt y x then y # insert_pos lt x ys else x # y # ys)"

definition insertion_slice :: slice_sort where
  "insertion_slice lt n = foldr (insert_pos lt) [0..<n] []"

lemma mset_insert_pos: "mset (insert_pos lt x ys) = add_mset x (mset ys)"
  by (induction ys) auto

lemma mset_insertion: "mset (foldr (insert_pos lt) is js) = mset is + mset js"
  by (induction "is") (simp_all add: mset_insert_pos)

lemma insert_pos_sorted:
  assumes "weak_order_on n lt" "x < n" "\<forall>y \<in> set ys. y < n" "sorted_wrt (\<lambda>i j. \<not> lt j i) ys"
  shows "sorted_wrt (\<lambda>i j. \<not> lt j i) (insert_pos lt x ys)"
  using assms(3,4)
proof (induction ys)
  case (Cons y ys)
  have w: "\<And>i j. i < n \<Longrightarrow> j < n \<Longrightarrow> lt i j \<Longrightarrow> \<not> lt j i"
    "\<And>i j k. i < n \<Longrightarrow> j < n \<Longrightarrow> k < n \<Longrightarrow> lt i j \<Longrightarrow> lt i k \<or> lt k j"
    using assms(1) unfolding weak_order_on_def by blast+
  have y: "y < n" "\<forall>z \<in> set ys. z < n" "\<forall>z \<in> set ys. \<not> lt z y" using Cons.prems by auto
  show ?case
  proof (cases "lt y x")
    case True
    have "set (insert_pos lt x ys) = insert x (set ys)"
      using mset_insert_pos [of lt x ys] by (metis set_mset_add_mset_insert set_mset_mset)
    then show ?thesis using True Cons w(1) [OF y(1) assms(2)] y by auto
  next
    case False
    have "\<forall>z \<in> set ys. \<not> lt z x" using False y w(2) [OF _ assms(2) y(1)] by blast
    then show ?thesis using False Cons.prems by simp
  qed
qed simp

lemma insertion_slice_law: "slice_sort_law insertion_slice"
proof -
  have "sorted_wrt (\<lambda>i j. \<not> lt j i) (foldr (insert_pos lt) ps [])"
    if "weak_order_on n lt" "set ps \<subseteq> {..<n}" for n lt ps
    using that(2)
  proof (induction ps)
    case (Cons p ps)
    have "set (foldr (insert_pos lt) ps []) = set ps"
      using mset_insertion [of lt ps "[]"] by (metis add_0_right mset.simps(1) set_mset_mset)
    then show ?case using Cons insert_pos_sorted [OF that(1), of p] by auto
  qed simp
  then show ?thesis
    by (auto simp: slice_sort_law_def insertion_slice_def mset_insertion atLeast0LessThan)
qed

end
