(* ===== verification/Eviction_Plugins.thy ===== *)
theory Eviction_Plugins
  imports Sysadvisor Go_Sort "HOL-Library.List_Lexorder" "HOL-Library.Char_ord"
begin

text \<open>
  The eviction plugin framework and its three plugins
  (\<^verbatim>\<open>pkg/agent/eviction/plugin.go\<close>, \<^verbatim>\<open>plugins.go\<close>). A plugin is a name and a
  function from the signal to verdicts or an error. The interface the manager relies on is the
  locale \<open>eviction_plugin\<close>: a plugin signs its verdicts and proposes each pod of the signal
  at most once. The comparison sort of \<^verbatim>\<open>sort.Slice\<close> is the parameter \<open>S\<close>.
\<close>

section \<open>Formatting\<close>

text \<open>\<^verbatim>\<open>%.0f\<close> and \<^verbatim>\<open>%.1f\<close>: the decimal nearest to the exact value, ties to even.\<close>

definition fmt_f0 :: "f64 \<Rightarrow> string" where
  "fmt_f0 x = (if x < 0 then ''-'' else []) @ itoa (rhe \<bar>x\<bar>)"

definition fmt_f1 :: "f64 \<Rightarrow> string" where
  "fmt_f1 x = (let t = rhe (10 * \<bar>x\<bar>)
     in (if x < 0 then ''-'' else []) @ itoa (t div 10) @ ''.'' @ itoa (t mod 10))"

function human_scale :: "int \<Rightarrow> int \<Rightarrow> nat \<Rightarrow> int \<times> nat" where
  "human_scale n dv ex =
     (if n \<ge> 1024 \<and> ex < 3 then human_scale (go_div n 1024) (i64 (dv * 1024)) (ex + 1) else (dv, ex))"
  by pat_completeness auto
termination by (relation "measure (\<lambda>(n, dv, ex). 3 - ex)") auto

declare human_scale.simps [simp del]

definition humanBytes :: "int \<Rightarrow> string" where
  "humanBytes b =
     (if b < 1024 then itoa b @ ''B''
      else case human_scale (go_div b 1024) 1024 0 of (dv, ex) \<Rightarrow>
        fmt_f1 (f_div (f_of_int b) (f_of_int dv)) @ [''KMGT'' ! ex] @ ''iB'')"

definition pressure_string :: "pressure_level \<Rightarrow> string" where
  "pressure_string p = (case p of PressureUnset \<Rightarrow> [] | PressureNone \<Rightarrow> ''None''
     | PressureModerate \<Rightarrow> ''Moderate'' | PressureCritical \<Rightarrow> ''Critical'')"

section \<open>Signals, verdicts, plugins\<close>

record 'q signal =
  sg_sample :: "'q node_sample"
  sg_rec :: recommendation
  sg_alloc :: "'q resource_list"
  sg_config :: eviction_config
  sg_pods :: "'q pod list"
  sg_by_uid :: "string \<Rightarrow> 'q pod_sample option"

record 'q verdict =
  vd_pod :: "'q pod"
  vd_plugin :: string
  vd_reason :: string
  vd_message :: string
  vd_score :: f64
  vd_cpu :: int
  vd_mem :: int

record 'q plugin =
  pl_name :: string
  pl_evaluate :: "'q signal \<Rightarrow> string + 'q verdict list"

record 'q pod_usage =
  pu_pod :: "'q pod"
  pu_level :: QoSLevel
  pu_cpu :: f64
  pu_mem :: int

definition usage_of :: "'q quantity_ops \<Rightarrow> 'q signal \<Rightarrow> 'q pod \<Rightarrow> 'q pod_usage" where
  "usage_of Q sig pod =
     (let u = \<lparr>pu_pod = pod, pu_level = level_of Q pod, pu_cpu = 0, pu_mem = 0\<rparr>
      in case sg_by_uid sig (p_uid pod) of
           Some s \<Rightarrow> u\<lparr>pu_cpu := sm_cpu s, pu_mem := sm_mem s\<rparr>
         | None \<Rightarrow> u)"

definition usagesFor :: "'q quantity_ops \<Rightarrow> 'q signal \<Rightarrow> 'q pod_usage list" where
  "usagesFor Q sig = map (usage_of Q sig) (sg_pods sig)"

text \<open>
  \<^verbatim>\<open>rankByTierThenUsage\<close> sorts stably, first by descending eviction rank, then by
  descending weight.
\<close>

definition rankByTierThenUsage ::
  "'q quantity_ops \<Rightarrow> 'q signal \<Rightarrow> ('q pod_usage \<Rightarrow> f64) \<Rightarrow> 'q pod_usage list"
where
  "rankByTierThenUsage Q sig weight =
     sort_key (\<lambda>u. (- EvictionRank (pu_level u), - weight u)) (usagesFor Q sig)"

section \<open>The memory pressure plugin\<close>

definition memory_verdict :: "int \<Rightarrow> int \<Rightarrow> int \<Rightarrow> 'q pod_usage \<Rightarrow> 'q verdict" where
  "memory_verdict utilPercent memAlloc threshold c =
     \<lparr>vd_pod = pu_pod c, vd_plugin = ''memory-pressure'', vd_reason = ''NodeMemoryPressure'',
      vd_message = ''node memory at '' @ itoa utilPercent @ ''% of '' @ humanBytes memAlloc
        @ '' (threshold '' @ itoa threshold @ ''%); evicting '' @ pu_level c @ '' pod using ''
        @ humanBytes (i64 (pu_mem c)) @ '' to reclaim toward '' @ itoa (i64 (threshold - 5)) @ ''%'',
      vd_score = f_of_int (pu_mem c), vd_cpu = 0, vd_mem = i64 (pu_mem c)\<rparr>"

text \<open>The loop over the candidates, which stops as soon as enough is freed.\<close>

fun memory_take :: "('q pod_usage \<Rightarrow> 'q verdict) \<Rightarrow> int \<Rightarrow> int \<Rightarrow> 'q pod_usage list \<Rightarrow> 'q verdict list" where
  "memory_take mk mustFree freed [] = []"
| "memory_take mk mustFree freed (c # cs) =
     (if freed \<ge> mustFree then []
      else mk c # memory_take mk mustFree (i64 (freed + i64 (pu_mem c))) cs)"

definition quantityBytes :: "'q quantity_ops \<Rightarrow> 'q resource_list \<Rightarrow> string \<Rightarrow> int" where
  "quantityBytes Q rl name = (case rl name of Some q \<Rightarrow> q_value Q q | None \<Rightarrow> 0)"

lemma quantityBytes_eq [simp]: "quantityBytes = bytesOf"
  by (simp add: fun_eq_iff quantityBytes_def bytesOf_def)

definition memoryPressure_Evaluate :: "'q quantity_ops \<Rightarrow> 'q signal \<Rightarrow> string + 'q verdict list" where
  "memoryPressure_Evaluate Q sig =
     (let memAlloc = quantityBytes Q (sg_alloc sig) ResourceMemory
      in if memAlloc \<le> 0 then Inr []
         else
           let threshold = ec_mem_threshold (sg_config sig);
               used = i64 (ns_mem (sg_sample sig));
               utilPercent = go_div (i64 (used * 100)) memAlloc
           in if utilPercent < threshold then Inr []
              else
                let target = go_div (i64 (memAlloc * i64 (threshold - 5))) 100;
                    mustFree = i64 (used - target)
                in if mustFree \<le> 0 then Inr []
                   else Inr (memory_take (memory_verdict utilPercent memAlloc threshold) mustFree 0
                               (rankByTierThenUsage Q sig (\<lambda>s. f_of_int (pu_mem s)))))"

section \<open>The CPU suppression plugin\<close>

definition cpu_verdict :: "int \<Rightarrow> int \<Rightarrow> 'q pod_usage \<Rightarrow> 'q verdict" where
  "cpu_verdict stall util largest =
     \<lparr>vd_pod = pu_pod largest, vd_plugin = ''cpu-suppression'', vd_reason = ''NodeCPUSuppression'',
      vd_message = ''protected workloads stalled on CPU (psi some avg10 '' @ itoa stall
        @ ''%, node cpu '' @ itoa util @ ''%); evicting largest reclaimed pod using ''
        @ fmt_f0 (pu_cpu largest) @ ''m'',
      vd_score = pu_cpu largest, vd_cpu = f_to_i64 (pu_cpu largest), vd_mem = 0\<rparr>"

definition cpuSuppression_Evaluate ::
  "slice_sort \<Rightarrow> 'q quantity_ops \<Rightarrow> 'q signal \<Rightarrow> string + 'q verdict list"
where
  "cpuSuppression_Evaluate S Q sig =
     (let stall = np_cpu_some_stalled (rc_pressure (sg_rec sig));
          util = np_cpu_util (rc_pressure (sg_rec sig))
      in if stall < ec_cpu_stall_threshold (sg_config sig) \<and> util < ec_cpu_threshold (sg_config sig) then Inr []
         else
           let reclaimed = filter (\<lambda>u. pu_level u = QoSReclaimedCores) (usagesFor Q sig)
           in if reclaimed = [] then Inr []
              else Inr [cpu_verdict stall util (hd (sort_Slice S (\<lambda>a b. pu_cpu a > pu_cpu b) reclaimed))])"

section \<open>The reclaimed overrun plugin\<close>

definition overrunFactor :: f64 where
  "overrunFactor = 3"

definition overrun_verdict :: "pressure_level \<Rightarrow> int \<Rightarrow> 'q pod_usage \<Rightarrow> 'q verdict" where
  "overrun_verdict lvl reqMilli u =
     (let ratio = f_div (pu_cpu u) (f_of_int reqMilli)
      in \<lparr>vd_pod = pu_pod u, vd_plugin = ''reclaimed-overrun'', vd_reason = ''ReclaimedOverrun'',
          vd_message = ''reclaimed pod using '' @ fmt_f0 (pu_cpu u) @ ''m against a '' @ itoa reqMilli
            @ ''m request ('' @ fmt_f1 ratio @ ''x) while node pressure is '' @ pressure_string lvl,
          vd_score = ratio, vd_cpu = f_to_i64 (pu_cpu u), vd_mem = 0\<rparr>)"

text \<open>One turn of the loop: \<^const>\<open>None\<close> where it continues.\<close>

definition overrun_step :: "'q quantity_ops \<Rightarrow> pressure_level \<Rightarrow> 'q pod_usage \<Rightarrow> 'q verdict option" where
  "overrun_step Q lvl u =
     (if pu_level u \<noteq> QoSReclaimedCores then None
      else
        let reqMilli = milliOf Q (EffectiveRequests Q (pu_pod u)) ResourceCPU
        in if reqMilli \<le> 0 then None
           else if f_div (pu_cpu u) (f_of_int reqMilli) < overrunFactor then None
           else Some (overrun_verdict lvl reqMilli u))"

definition reclaimedOverrun_Evaluate ::
  "slice_sort \<Rightarrow> 'q quantity_ops \<Rightarrow> 'q signal \<Rightarrow> string + 'q verdict list"
where
  "reclaimedOverrun_Evaluate S Q sig =
     (let lvl = np_level (rc_pressure (sg_rec sig))
      in if lvl = PressureNone then Inr []
         else Inr (sort_Slice S (\<lambda>a b. vd_score a > vd_score b)
                    (List.map_filter (overrun_step Q lvl) (usagesFor Q sig))))"

section \<open>The registry\<close>

text \<open>
  \<^verbatim>\<open>registry\<close> is a map from names to constructors, filled by \<^verbatim>\<open>init\<close>. It is an
  association list here; the order of its entries, like the order in which Go ranges over the
  map, is not observable through the operations, which sort the names.
\<close>

type_synonym 'q registry = "(string \<times> 'q plugin) list"

fun Register :: "string \<Rightarrow> 'q plugin \<Rightarrow> 'q registry \<Rightarrow> 'q registry" where
  "Register name ctor [] = [(name, ctor)]"
| "Register name ctor ((k, v) # reg) = (if k = name then (k, ctor) # reg else (k, v) # Register name ctor reg)"

definition memory_plugin :: "'q quantity_ops \<Rightarrow> 'q plugin" where
  "memory_plugin Q = \<lparr>pl_name = ''memory-pressure'', pl_evaluate = memoryPressure_Evaluate Q\<rparr>"

definition cpu_plugin :: "slice_sort \<Rightarrow> 'q quantity_ops \<Rightarrow> 'q plugin" where
  "cpu_plugin S Q = \<lparr>pl_name = ''cpu-suppression'', pl_evaluate = cpuSuppression_Evaluate S Q\<rparr>"

definition overrun_plugin :: "slice_sort \<Rightarrow> 'q quantity_ops \<Rightarrow> 'q plugin" where
  "overrun_plugin S Q = \<lparr>pl_name = ''reclaimed-overrun'', pl_evaluate = reclaimedOverrun_Evaluate S Q\<rparr>"

definition kqos_registry :: "slice_sort \<Rightarrow> 'q quantity_ops \<Rightarrow> 'q registry" where
  "kqos_registry S Q =
     Register ''reclaimed-overrun'' (overrun_plugin S Q)
       (Register ''cpu-suppression'' (cpu_plugin S Q)
         (Register ''memory-pressure'' (memory_plugin Q) []))"

definition RegisteredNames :: "'q registry \<Rightarrow> string list" where
  "RegisteredNames reg = sort (map fst reg)"

definition BuildPlugins :: "'q registry \<Rightarrow> string list \<Rightarrow> 'q plugin list" where
  "BuildPlugins reg disabled =
     map (\<lambda>name. the (map_of reg name))
       (sort (filter (\<lambda>name. name \<notin> set disabled) (map fst reg)))"

lemma Register_map_of: "map_of (Register name ctor reg) = (map_of reg)(name \<mapsto> ctor)"
  by (induction name ctor reg rule: Register.induct) (auto simp: fun_eq_iff)

lemma Register_keys: "set (map fst (Register name ctor reg)) = insert name (fst ` set reg)"
  by (induction name ctor reg rule: Register.induct) auto

lemma Register_distinct: "distinct (map fst reg) \<Longrightarrow> distinct (map fst (Register name ctor reg))"
proof (induction name ctor reg rule: Register.induct)
  case (2 name ctor k v reg)
  then show ?case using Register_keys [of name ctor reg] by auto
qed simp

text \<open>
  The plugin list is a function of which plugins are registered and which are disabled: it is
  the registered names less the disabled ones, in strictly increasing order, so two nodes with
  the same policy evaluate the plugins in the same order.
\<close>

theorem BuildPlugins_order:
  assumes "distinct (map fst reg)" and "\<forall>(name, p) \<in> set reg. pl_name p = name"
  shows "sorted_wrt (<) (map pl_name (BuildPlugins reg disabled)) \<and>
    set (BuildPlugins reg disabled) = {p. (pl_name p, p) \<in> set reg \<and> pl_name p \<notin> set disabled} \<and>
    map pl_name (BuildPlugins reg disabled) = filter (\<lambda>n. n \<notin> set disabled) (RegisteredNames reg)"
proof -
  let ?ns = "sort (filter (\<lambda>name. name \<notin> set disabled) (map fst reg))"
  have look: "the (map_of reg n) = p" if "(n, p) \<in> set reg" for n p
    using that assms(1) by simp
  have "map pl_name (BuildPlugins reg disabled) = map (\<lambda>n. n) ?ns"
    unfolding BuildPlugins_def map_map
  proof (rule map_cong [OF refl])
    fix n assume "n \<in> set ?ns"
    then obtain p where "(n, p) \<in> set reg" by auto
    then show "(pl_name \<circ> (\<lambda>name. the (map_of reg name))) n = n" using look [of n p] assms(2) by auto
  qed
  then have names: "map pl_name (BuildPlugins reg disabled) = ?ns" by simp
  have "set (BuildPlugins reg disabled) = {p. (pl_name p, p) \<in> set reg \<and> pl_name p \<notin> set disabled}"
  proof (intro set_eqI iffI)
    fix p assume "p \<in> set (BuildPlugins reg disabled)"
    then obtain n q where q: "(n, q) \<in> set reg" "n \<notin> set disabled" "p = the (map_of reg n)"
      by (auto simp: BuildPlugins_def)
    then have "p = q" "pl_name q = n" using look [OF q(1)] assms(2) by auto
    then show "p \<in> {p. (pl_name p, p) \<in> set reg \<and> pl_name p \<notin> set disabled}" using q by simp
  next
    fix p assume "p \<in> {p. (pl_name p, p) \<in> set reg \<and> pl_name p \<notin> set disabled}"
    then have q: "(pl_name p, p) \<in> set reg" "pl_name p \<notin> set disabled" by simp_all
    then have "pl_name p \<in> set ?ns" by force
    then have "the (map_of reg (pl_name p)) \<in> set (BuildPlugins reg disabled)"
      unfolding BuildPlugins_def set_map by (rule imageI)
    then show "p \<in> set (BuildPlugins reg disabled)" by (simp only: look [OF q(1)])
  qed
  moreover have "sorted_wrt (<) ?ns"
    using assms(1) by (simp only: strict_sorted_iff distinct_sort distinct_filter sorted_sort)
  moreover have "?ns = filter (\<lambda>n. n \<notin> set disabled) (RegisteredNames reg)"
    by (simp add: RegisteredNames_def filter_sort)
  ultimately show ?thesis using names by simp
qed

theorem BuildPlugins_order_witness:
  "map pl_name (BuildPlugins (kqos_registry insertion_slice rat_quantity) [''cpu-suppression'']) =
     [''memory-pressure'', ''reclaimed-overrun'']"
proof -
  have d: "distinct (map fst (kqos_registry insertion_slice rat_quantity))"
    by (simp add: kqos_registry_def Register_distinct)
  have n: "\<forall>(name, p) \<in> set (kqos_registry insertion_slice rat_quantity). pl_name p = name"
    by (simp add: kqos_registry_def memory_plugin_def cpu_plugin_def overrun_plugin_def)
  have "RegisteredNames (kqos_registry insertion_slice rat_quantity)
      = [''cpu-suppression'', ''memory-pressure'', ''reclaimed-overrun'']"
    by code_simp
  then show ?thesis using BuildPlugins_order [OF d n, of "[''cpu-suppression'']"] by simp
qed

section \<open>The memory plugin's victims\<close>

abbreviation usage_total :: "'q pod_usage list \<Rightarrow> int" where
  "usage_total us \<equiv> (\<Sum>u\<leftarrow>us. pu_mem u)"

lemma memory_take_prefix: "\<exists>n \<le> length cs. memory_take mk mustFree freed cs = map mk (take n cs)"
proof (induction cs arbitrary: freed)
  case (Cons c cs)
  obtain n where "n \<le> length cs" "memory_take mk mustFree (i64 (freed + i64 (pu_mem c))) cs = map mk (take n cs)"
    using Cons.IH by blast
  then show ?case
    by (cases "mustFree \<le> freed") (auto intro: exI [of _ 0] exI [of _ "Suc n"])
qed simp

lemma usage_total_nonneg: "\<forall>u \<in> set us. 0 \<le> pu_mem u \<Longrightarrow> 0 \<le> usage_total us"
  by (induction us) auto

lemma memory_take_minimal:
  assumes "\<forall>c \<in> set cs. 0 \<le> pu_mem c" "0 \<le> freed" "freed + usage_total cs \<le> max_i64"
  shows "\<exists>n \<le> length cs. memory_take mk mustFree freed cs = map mk (take n cs) \<and>
    (\<forall>k < n. freed + usage_total (take k cs) < mustFree) \<and>
    (n = length cs \<or> mustFree \<le> freed + usage_total (take n cs))"
  using assms
proof (induction cs arbitrary: freed)
  case (Cons c cs)
  have tail: "0 \<le> usage_total cs" using Cons.prems(1) usage_total_nonneg [of cs] by simp
  have w: "i64 (pu_mem c) = pu_mem c" "i64 (freed + pu_mem c) = freed + pu_mem c"
    using Cons.prems tail by (auto intro!: i64_id simp: in_i64_def min_i64_def max_i64_def)
  show ?case
  proof (cases "mustFree \<le> freed")
    case True
    then show ?thesis by (intro exI [of _ 0]) simp
  next
    case False
    obtain n where n: "n \<le> length cs"
      "memory_take mk mustFree (freed + pu_mem c) cs = map mk (take n cs)"
      "\<forall>k < n. freed + pu_mem c + usage_total (take k cs) < mustFree"
      "n = length cs \<or> mustFree \<le> freed + pu_mem c + usage_total (take n cs)"
      using Cons.IH [of "freed + pu_mem c"] Cons.prems by auto
    have "\<forall>k < Suc n. freed + usage_total (take k (c # cs)) < mustFree"
      using n(3) False by (auto simp: less_Suc_eq_0_disj)
    then show ?thesis using n False w by (intro exI [of _ "Suc n"]) (simp add: add.assoc)
  qed
qed (simp add: exI)

lemma rank_set: "set (rankByTierThenUsage Q sig w) = usage_of Q sig ` set (sg_pods sig)"
  by (simp add: rankByTierThenUsage_def usagesFor_def)

lemma rank_pods: "mset (map pu_pod (rankByTierThenUsage Q sig w)) = mset (sg_pods sig)"
proof -
  have "pu_pod \<circ> usage_of Q sig = (\<lambda>p. p)"
    by (auto simp: fun_eq_iff usage_of_def Let_def split: option.splits)
  then have "map pu_pod (usagesFor Q sig) = sg_pods sig" by (simp add: usagesFor_def)
  moreover have "mset (rankByTierThenUsage Q sig w) = mset (usagesFor Q sig)"
    by (simp add: rankByTierThenUsage_def)
  ultimately show ?thesis by (metis mset_map)
qed

lemma usage_of_fields [simp]: "pu_pod (usage_of Q sig pod) = pod" "pu_level (usage_of Q sig pod) = level_of Q pod"
  by (auto simp: usage_of_def Let_def split: option.splits)

lemma rank_sorted:
  "sorted_wrt (\<lambda>u v. EvictionRank (pu_level v) < EvictionRank (pu_level u) \<or>
      (EvictionRank (pu_level v) = EvictionRank (pu_level u) \<and> w v \<le> w u)) (rankByTierThenUsage Q sig w)"
proof -
  let ?k = "\<lambda>u. (- EvictionRank (pu_level u), - w u)"
  have "sorted_wrt (\<le>) (map ?k (rankByTierThenUsage Q sig w))"
    by (simp add: rankByTierThenUsage_def del: sorted_map)
  then have "sorted_wrt (\<lambda>u v. ?k u \<le> ?k v) (rankByTierThenUsage Q sig w)"
    by (simp only: sorted_wrt_map)
  then show ?thesis
    by (rule sorted_wrt_mono_rel [rotated]) auto
qed

lemma verdict_fields [simp]:
  "vd_pod (memory_verdict a b c u) = pu_pod u" "vd_plugin (memory_verdict a b c u) = ''memory-pressure''"
  "vd_pod (cpu_verdict d e u) = pu_pod u" "vd_plugin (cpu_verdict d e u) = ''cpu-suppression''"
  "vd_pod (overrun_verdict l r u) = pu_pod u" "vd_plugin (overrun_verdict l r u) = ''reclaimed-overrun''"
  by (simp_all add: memory_verdict_def cpu_verdict_def overrun_verdict_def Let_def)

lemma memoryPressure_cases:
  obtains "memoryPressure_Evaluate Q sig = Inr []"
  | mk n where "memoryPressure_Evaluate Q sig
      = Inr (map mk (take n (rankByTierThenUsage Q sig (\<lambda>s. f_of_int (pu_mem s)))))"
    and "\<And>u. vd_pod (mk u) = pu_pod u" and "\<And>u. vd_plugin (mk u) = ''memory-pressure''"
proof -
  let ?r = "rankByTierThenUsage Q sig (\<lambda>s. f_of_int (pu_mem s))"
  consider "memoryPressure_Evaluate Q sig = Inr []"
    | a b c m where "memoryPressure_Evaluate Q sig = Inr (memory_take (memory_verdict a b c) m 0 ?r)"
    unfolding memoryPressure_Evaluate_def Let_def quantityBytes_eq by metis
  then show ?thesis
  proof cases
    case 1 then show ?thesis by (rule that(1))
  next
    case (2 a b c m)
    obtain n where "memory_take (memory_verdict a b c) m 0 ?r = map (memory_verdict a b c) (take n ?r)"
      using memory_take_prefix by blast
    with 2 have "memoryPressure_Evaluate Q sig = Inr (map (memory_verdict a b c) (take n ?r))" by simp
    then show ?thesis by (rule that(2)) (rule verdict_fields)+
  qed
qed

definition mem_ranked :: "'q quantity_ops \<Rightarrow> 'q signal \<Rightarrow> 'q pod_usage list" where
  "mem_ranked Q sig = rankByTierThenUsage Q sig (\<lambda>s. f_of_int (pu_mem s))"

text \<open>Inside the ranges of a node no product wraps around, and the plugin computes over the integers.\<close>

lemma memoryPressure_Evaluate_eq:
  fixes Q :: "'q quantity_ops" and sig :: "'q signal"
  assumes "0 < bytesOf Q (sg_alloc sig) ResourceMemory" "bytesOf Q (sg_alloc sig) ResourceMemory \<le> max_alloc"
    and "0 \<le> ns_mem (sg_sample sig)" "ns_mem (sg_sample sig) \<le> max_alloc"
    and "5 \<le> ec_mem_threshold (sg_config sig)" "ec_mem_threshold (sg_config sig) \<le> 100"
    and "alloc = bytesOf Q (sg_alloc sig) ResourceMemory" "used = ns_mem (sg_sample sig)"
      "threshold = ec_mem_threshold (sg_config sig)" "target = alloc * (threshold - 5) div 100"
  shows "memoryPressure_Evaluate Q sig =
      (if 100 * used div alloc < threshold \<or> used - target \<le> 0 then Inr []
       else Inr (memory_take (memory_verdict (100 * used div alloc) alloc threshold) (used - target) 0 (mem_ranked Q sig)))"
proof -
  have p: "percent (threshold - 5)" using assms(5,6,9) by (simp add: percent_def)
  have a: "0 < alloc" "alloc \<le> max_alloc" and u: "0 \<le> used" "used \<le> max_alloc" using assms by simp_all
  note t = percent_of [OF less_imp_le [OF a(1)] a(2) p]
  have w: "i64 used = used" "i64 (used * 100) = used * 100" "i64 (threshold - 5) = threshold - 5"
    "i64 (used - target) = used - target"
    using u a t p assms(10) by (auto intro!: i64_id in_i64I simp: max_alloc_def percent_def)
  have util: "go_div (used * 100) alloc = 100 * used div alloc"
    using u a by (simp add: go_div_nonneg mult.commute)
  show ?thesis
    using a(1) by (simp add: memoryPressure_Evaluate_def Let_def w t util mem_ranked_def flip: assms(7-10))
qed

text \<open>
  C25. Below the threshold nothing is proposed. At or above it, the candidates are taken in rank
  order up to the first point at which the memory left in use is five points below the
  threshold, or all of them when that point is never reached: one victim fewer would not have
  been enough.
\<close>

theorem memoryPressure_minimal:
  fixes Q :: "'q quantity_ops" and sig :: "'q signal"
  assumes "0 < bytesOf Q (sg_alloc sig) ResourceMemory" "bytesOf Q (sg_alloc sig) ResourceMemory \<le> max_alloc"
    and "0 \<le> ns_mem (sg_sample sig)" "ns_mem (sg_sample sig) \<le> max_alloc"
    and "5 \<le> ec_mem_threshold (sg_config sig)" "ec_mem_threshold (sg_config sig) \<le> 100"
    and "\<forall>u \<in> set (mem_ranked Q sig). 0 \<le> pu_mem u" "usage_total (mem_ranked Q sig) \<le> max_i64"
    and "alloc = bytesOf Q (sg_alloc sig) ResourceMemory" "used = ns_mem (sg_sample sig)"
      "threshold = ec_mem_threshold (sg_config sig)" "target = alloc * (threshold - 5) div 100"
  shows "if 100 * used div alloc < threshold then memoryPressure_Evaluate Q sig = Inr []
    else \<exists>vs n. memoryPressure_Evaluate Q sig = Inr vs \<and> map vd_pod vs = map pu_pod (take n (mem_ranked Q sig)) \<and>
      (\<forall>k < n. target < used - usage_total (take k (mem_ranked Q sig))) \<and>
      (n = length (mem_ranked Q sig) \<or> used - usage_total (take n (mem_ranked Q sig)) \<le> target)"
proof -
  define mk :: "'q pod_usage \<Rightarrow> 'q verdict" where "mk = memory_verdict (100 * used div alloc) alloc threshold"
  note ev = memoryPressure_Evaluate_eq [OF assms(1-6,9-12), folded mk_def]
  obtain n where n: "memory_take mk (used - target) 0 (mem_ranked Q sig) = map mk (take n (mem_ranked Q sig))"
    "\<forall>k < n. usage_total (take k (mem_ranked Q sig)) < used - target"
    "n = length (mem_ranked Q sig) \<or> used - target \<le> usage_total (take n (mem_ranked Q sig))"
    using memory_take_minimal [of "mem_ranked Q sig" 0 mk "used - target"] assms(7,8) by auto
  have pods: "map vd_pod (map mk us) = map pu_pod us" for us by (simp add: mk_def)
  show ?thesis
  proof (cases "100 * used div alloc < threshold")
    case True then show ?thesis using ev by simp
  next
    case hot: False
    show ?thesis
    proof (cases "used - target \<le> 0")
      case True
      then show ?thesis using ev hot by (auto intro!: exI [of _ "[]"] exI [of _ 0])
    next
      case False
      then show ?thesis using ev hot n pods
        by (intro if_not_P [THEN iffD2] exI [of _ "map mk (take n (mem_ranked Q sig))"] exI [of _ n]) auto
    qed
  qed
qed

text \<open>
  A pod is given up for memory only when every pod of a cheaper tier is given up too: nothing
  reclaimed outlives a shared pod, nothing shared outlives a dedicated one, for any threshold,
  capacity and sample, overflow included.
\<close>

theorem memoryPressure_tiers:
  assumes "memoryPressure_Evaluate Q sig = Inr vs" and "v \<in> set vs" and "pod \<in> set (sg_pods sig)"
    and "EvictionRank (level_of Q (vd_pod v)) < EvictionRank (level_of Q pod)"
  shows "pod \<in> vd_pod ` set vs"
proof -
  let ?r = "rankByTierThenUsage Q sig (\<lambda>s. f_of_int (pu_mem s))"
  obtain mk n where vs: "vs = map mk (take n ?r)" and pod: "\<And>u. vd_pod (mk u) = pu_pod u"
  proof (rule memoryPressure_cases [of Q sig])
    assume "memoryPressure_Evaluate Q sig = Inr []"
    then show thesis using assms(1,2) by simp
  next
    fix mk n
    assume "memoryPressure_Evaluate Q sig = Inr (map mk (take n ?r))" and "\<And>u. vd_pod (mk u) = pu_pod u"
    then show thesis using assms(1) by (intro that) simp_all
  qed
  have lvl: "pu_level u = level_of Q (pu_pod u)" if "u \<in> set ?r" for u using that by (auto simp: rank_set)
  obtain u where u: "u \<in> set (take n ?r)" "v = mk u" using assms(2) vs by auto
  define c where "c = usage_of Q sig pod"
  have c: "c \<in> set ?r" "pu_pod c = pod" using assms(3) by (auto simp: rank_set c_def)
  have "c \<in> set (take n ?r)"
  proof (rule ccontr)
    assume "c \<notin> set (take n ?r)"
    then have "c \<in> set (drop n ?r)" using c(1) by (metis Un_iff append_take_drop_id set_append)
    moreover have "sorted_wrt (\<lambda>u v. EvictionRank (pu_level v) \<le> EvictionRank (pu_level u)) (take n ?r @ drop n ?r)"
      unfolding append_take_drop_id by (rule sorted_wrt_mono_rel [OF _ rank_sorted]) auto
    ultimately have "EvictionRank (pu_level c) \<le> EvictionRank (pu_level u)"
      using u(1) unfolding sorted_wrt_append by blast
    moreover have "pu_level u = level_of Q (vd_pod v)" using lvl [OF in_set_takeD [OF u(1)]] u(2) pod by simp
    ultimately show False using assms(4) lvl [OF c(1)] c(2) by simp
  qed
  then have "mk c \<in> set vs" by (simp add: vs)
  moreover have "vd_pod (mk c) = pod" using pod c(2) by simp
  ultimately show ?thesis by (metis imageI)
qed

section \<open>The other two plugins\<close>

lemma usagesFor_set: "set (usagesFor Q sig) = usage_of Q sig ` set (sg_pods sig)"
  by (simp add: usagesFor_def)

lemma map_filter_set: "set (List.map_filter f xs) = {y. \<exists>x \<in> set xs. f x = Some y}"
  by (auto simp: List.map_filter_def intro: rev_image_eqI)

lemma sort_usage_hd:
  assumes "slice_sort_law S" "us \<noteq> []"
  shows "hd (sort_Slice S (\<lambda>a b. (key b :: rat) < key a) us) \<in> set us \<and>
    (\<forall>u \<in> set us. key u \<le> key (hd (sort_Slice S (\<lambda>a b. key b < key a) us)))"
proof -
  let ?s = "sort_Slice S (\<lambda>a b. key b < key a) us"
  have s: "set ?s = set us" "sorted_wrt (\<lambda>a b. key b \<le> key a) ?s"
    by (rule sort_Slice_set [OF assms(1)], rule sort_Slice_sorted [OF assms(1)])
  obtain x xs where x: "?s = x # xs" using s(1) assms(2) by (cases ?s) auto
  have us: "set us = insert x (set xs)" using s(1) unfolding x by simp
  have "\<forall>u \<in> set xs. key u \<le> key x" using s(2) unfolding x by simp
  then show ?thesis by (simp add: x us)
qed

definition cpu_hot :: "'q signal \<Rightarrow> bool" where
  "cpu_hot sig \<longleftrightarrow>
     ec_cpu_stall_threshold (sg_config sig) \<le> np_cpu_some_stalled (rc_pressure (sg_rec sig)) \<or>
     ec_cpu_threshold (sg_config sig) \<le> np_cpu_util (rc_pressure (sg_rec sig))"

lemma cpuSuppression_eq:
  "cpuSuppression_Evaluate S Q sig =
     (let us = filter (\<lambda>u. pu_level u = QoSReclaimedCores) (usagesFor Q sig)
      in Inr (if cpu_hot sig \<and> us \<noteq> []
        then [cpu_verdict (np_cpu_some_stalled (rc_pressure (sg_rec sig))) (np_cpu_util (rc_pressure (sg_rec sig)))
               (hd (sort_Slice S (\<lambda>a b. pu_cpu b < pu_cpu a) us))]
        else []))"
  by (auto simp add: cpuSuppression_Evaluate_def Let_def cpu_hot_def)

text \<open>
  The CPU plugin gives up at most one pod per tick, and only one of the reclaimed tier: the
  largest consumer of it, whatever order the sort leaves ties in. It acts exactly when one of
  the two thresholds is reached and there is a reclaimed pod to give up.
\<close>

theorem cpuSuppression_one_reclaimed:
  assumes "slice_sort_law S"
  shows "\<exists>vs. cpuSuppression_Evaluate S Q sig = Inr vs \<and>
    (vs \<noteq> [] \<longleftrightarrow> cpu_hot sig \<and> (\<exists>pod \<in> set (sg_pods sig). IsReclaimed Q pod)) \<and>
    length vs \<le> 1 \<and>
    (\<forall>v \<in> set vs. vd_pod v \<in> set (sg_pods sig) \<and> IsReclaimed Q (vd_pod v) \<and>
       (\<forall>pod \<in> set (sg_pods sig). IsReclaimed Q pod \<longrightarrow>
          pu_cpu (usage_of Q sig pod) \<le> pu_cpu (usage_of Q sig (vd_pod v))))"
proof -
  define us where "us = filter (\<lambda>u. pu_level u = QoSReclaimedCores) (usagesFor Q sig)"
  define h where "h = hd (sort_Slice S (\<lambda>a b. pu_cpu b < pu_cpu a) us)"
  define v where "v = cpu_verdict (np_cpu_some_stalled (rc_pressure (sg_rec sig))) (np_cpu_util (rc_pressure (sg_rec sig))) h"
  have r: "set us = usage_of Q sig ` {pod \<in> set (sg_pods sig). IsReclaimed Q pod}"
    by (auto simp: us_def usagesFor_set IsReclaimed_def)
  have rne: "us \<noteq> [] \<longleftrightarrow> (\<exists>pod \<in> set (sg_pods sig). IsReclaimed Q pod)"
    unfolding set_empty [symmetric] r by blast
  have ev: "cpuSuppression_Evaluate S Q sig = Inr (if cpu_hot sig \<and> us \<noteq> [] then [v] else [])"
    by (simp only: cpuSuppression_eq Let_def us_def h_def v_def)
  have victim: "vd_pod v \<in> set (sg_pods sig) \<and> IsReclaimed Q (vd_pod v) \<and>
       (\<forall>pod \<in> set (sg_pods sig). IsReclaimed Q pod \<longrightarrow>
          pu_cpu (usage_of Q sig pod) \<le> pu_cpu (usage_of Q sig (vd_pod v)))" if "us \<noteq> []"
  proof -
    have h: "h \<in> set us" "\<forall>u \<in> set us. pu_cpu u \<le> pu_cpu h"
      using sort_usage_hd [OF assms that, of pu_cpu] by (simp_all add: h_def)
    then obtain p where p: "p \<in> set (sg_pods sig)" "IsReclaimed Q p" "h = usage_of Q sig p"
      unfolding r by blast
    then have "vd_pod v = p" by (simp add: v_def)
    then show ?thesis using p h(2) r by simp
  qed
  show ?thesis
    unfolding ev using rne victim by (cases "cpu_hot sig \<and> us \<noteq> []") auto
qed

text \<open>
  The overrun plugin names exactly the reclaimed pods that ask for some CPU and use at least
  three times what they ask for, worst ratio first, and stays silent at pressure None.
\<close>

theorem reclaimedOverrun_exact:
  assumes "slice_sort_law S"
  shows "\<exists>vs. reclaimedOverrun_Evaluate S Q sig = Inr vs \<and>
    vd_pod ` set vs =
      {pod \<in> set (sg_pods sig). np_level (rc_pressure (sg_rec sig)) \<noteq> PressureNone \<and> IsReclaimed Q pod \<and>
        0 < milliOf Q (EffectiveRequests Q pod) ResourceCPU \<and>
        3 \<le> f_div (pu_cpu (usage_of Q sig pod)) (f_of_int (milliOf Q (EffectiveRequests Q pod) ResourceCPU))} \<and>
    sorted_wrt (\<lambda>v w. vd_score w \<le> vd_score v) vs"
proof (cases "np_level (rc_pressure (sg_rec sig)) = PressureNone")
  case True
  then show ?thesis by (simp add: reclaimedOverrun_Evaluate_def)
next
  case False
  let ?lvl = "np_level (rc_pressure (sg_rec sig))"
  let ?out = "List.map_filter (overrun_step Q ?lvl) (usagesFor Q sig)"
  have "vd_pod ` set ?out = {pod \<in> set (sg_pods sig). \<exists>v. overrun_step Q ?lvl (usage_of Q sig pod) = Some v}"
    by (force simp: map_filter_set usagesFor_set overrun_step_def Let_def split: if_splits)
  also have "\<dots> = {pod \<in> set (sg_pods sig). ?lvl \<noteq> PressureNone \<and> IsReclaimed Q pod \<and>
        0 < milliOf Q (EffectiveRequests Q pod) ResourceCPU \<and>
        3 \<le> f_div (pu_cpu (usage_of Q sig pod)) (f_of_int (milliOf Q (EffectiveRequests Q pod) ResourceCPU))}"
    using False by (auto simp: overrun_step_def overrunFactor_def IsReclaimed_def Let_def)
  finally show ?thesis
    using False sort_Slice_set [OF assms, of vd_score ?out] sort_Slice_sorted [OF assms, of vd_score ?out]
    by (simp add: reclaimedOverrun_Evaluate_def Let_def)
qed

section \<open>What the manager relies on\<close>

locale eviction_plugin =
  fixes plug :: "'q plugin"
  assumes signed: "pl_evaluate plug sig = Inr vs \<Longrightarrow> v \<in> set vs \<Longrightarrow> vd_plugin v = pl_name plug"
    and once: "pl_evaluate plug sig = Inr vs \<Longrightarrow> mset (map vd_pod vs) \<subseteq># mset (sg_pods sig)"
begin

lemma from_signal: "pl_evaluate plug sig = Inr vs \<Longrightarrow> v \<in> set vs \<Longrightarrow> vd_pod v \<in> set (sg_pods sig)"
  using once [of sig vs] mset_subset_eqD by fastforce

lemma at_most_pods: "pl_evaluate plug sig = Inr vs \<Longrightarrow> length vs \<le> length (sg_pods sig)"
  using once [of sig vs] size_mset_mono by fastforce

end

lemma mset_filter_sub: "mset (map f (filter P xs)) \<subseteq># mset (map f xs)"
  by (simp add: image_mset_subseteq_mono)

lemma mset_map_filter_sub:
  assumes "\<And>x y. f x = Some y \<Longrightarrow> g y = h x"
  shows "mset (map g (List.map_filter f xs)) \<subseteq># mset (map h xs)"
proof -
  have "map g (List.map_filter f xs) = map h (filter (\<lambda>x. f x \<noteq> None) xs)"
    using assms by (induction xs) (auto simp: List.map_filter_def)
  then show ?thesis by (simp add: image_mset_subseteq_mono)
qed

lemma usages_pods: "map pu_pod (usagesFor Q sig) = sg_pods sig"
  by (simp add: usagesFor_def map_idI)

interpretation memory: eviction_plugin "memory_plugin Q" for Q
proof
  fix sig :: "'a signal" and vs v
  assume e: "pl_evaluate (memory_plugin Q) sig = Inr vs"
  let ?r = "rankByTierThenUsage Q sig (\<lambda>s. f_of_int (pu_mem s))"
  have "vs = [] \<or> (\<exists>mk n. vs = map mk (take n ?r) \<and> (\<forall>u. vd_pod (mk u) = pu_pod u) \<and>
      (\<forall>u. vd_plugin (mk u) = ''memory-pressure''))"
    using e by (cases rule: memoryPressure_cases [of Q sig]) (auto simp: memory_plugin_def)
  then consider "vs = []" | mk n where "vs = map mk (take n ?r)" "\<And>u. vd_pod (mk u) = pu_pod u"
      "\<And>u. vd_plugin (mk u) = ''memory-pressure''"
    by blast
  note cs = this
  show "vd_plugin v = pl_name (memory_plugin Q)" if "v \<in> set vs"
    using cs that by cases (auto simp: memory_plugin_def)
  show "mset (map vd_pod vs) \<subseteq># mset (sg_pods sig)"
  proof (cases rule: cs)
    case (2 mk n)
    then have "map vd_pod vs = take n (map pu_pod ?r)" by (simp add: take_map)
    moreover have "mset (take n (map pu_pod ?r)) \<subseteq># mset (map pu_pod ?r)"
      by (metis append_take_drop_id mset_append mset_subset_eq_add_left)
    ultimately show ?thesis by (simp only: rank_pods)
  qed simp
qed

locale lawful_sort =
  fixes S :: slice_sort
  assumes law: "slice_sort_law S"
begin

lemma cpu_contract: "eviction_plugin (cpu_plugin S Q)"
proof
  fix sig :: "'a signal" and vs v
  assume e: "pl_evaluate (cpu_plugin S Q) sig = Inr vs"
  show "vd_plugin v = pl_name (cpu_plugin S Q)" if "v \<in> set vs"
    using e that by (auto simp: cpu_plugin_def cpuSuppression_eq Let_def split: if_splits)
  define us where "us = filter (\<lambda>u. pu_level u = QoSReclaimedCores) (usagesFor Q sig)"
  define h where "h = hd (sort_Slice S (\<lambda>a b. pu_cpu b < pu_cpu a) us)"
  have h: "us \<noteq> [] \<Longrightarrow> pu_pod h \<in> set (sg_pods sig)"
    using sort_usage_hd [OF law, of us pu_cpu] by (auto simp: h_def us_def usagesFor_set)
  have "map vd_pod vs = (if cpu_hot sig \<and> us \<noteq> [] then [pu_pod h] else [])"
    using e by (auto simp: cpu_plugin_def cpuSuppression_eq Let_def us_def h_def)
  then show "mset (map vd_pod vs) \<subseteq># mset (sg_pods sig)" using h by simp
qed

lemma overrun_contract: "eviction_plugin (overrun_plugin S Q)"
proof
  fix sig :: "'a signal" and vs v
  assume e: "pl_evaluate (overrun_plugin S Q) sig = Inr vs"
  define lvl where "lvl = np_level (rc_pressure (sg_rec sig))"
  define out where "out = List.map_filter (overrun_step Q lvl) (usagesFor Q sig)"
  have vs: "vs = [] \<or> mset vs = mset out"
    using e sort_Slice_mset [OF law, of vd_score out]
    by (auto simp: overrun_plugin_def reclaimedOverrun_Evaluate_def Let_def out_def lvl_def split: if_splits)
  have step: "vd_pod y = pu_pod u \<and> vd_plugin y = ''reclaimed-overrun''" if "overrun_step Q lvl u = Some y" for u y
    using that by (auto simp: overrun_step_def Let_def split: if_splits)
  have "\<forall>v \<in> set out. vd_plugin v = ''reclaimed-overrun''"
    using step by (auto simp: out_def map_filter_set)
  then show "vd_plugin v = pl_name (overrun_plugin S Q)" if "v \<in> set vs"
    using vs that by (auto simp: overrun_plugin_def dest: mset_eq_setD)
  have "mset (map vd_pod out) \<subseteq># mset (map pu_pod (usagesFor Q sig))"
    unfolding out_def using step by (intro mset_map_filter_sub) blast
  then show "mset (map vd_pod vs) \<subseteq># mset (sg_pods sig)"
    using vs by (auto simp: usages_pods)
qed

end

sublocale lawful_sort \<subseteq> cpu: eviction_plugin "cpu_plugin S Q" for Q
  by (rule cpu_contract)

sublocale lawful_sort \<subseteq> overrun: eviction_plugin "overrun_plugin S Q" for Q
  by (rule overrun_contract)

interpretation insertion: lawful_sort insertion_slice
  by unfold_locales (rule insertion_slice_law)

lemma registry_plugins:
  assumes "slice_sort_law S" and "p \<in> set (BuildPlugins (kqos_registry S Q) disabled)"
  shows "eviction_plugin p"
proof -
  have S: "lawful_sort S" by unfold_locales (rule assms(1))
  have "p \<in> {memory_plugin Q, cpu_plugin S Q, overrun_plugin S Q}"
    using assms(2) by (auto simp: BuildPlugins_def kqos_registry_def split: if_splits)
  then show ?thesis
    using memory.eviction_plugin_axioms lawful_sort.cpu_contract [OF S] lawful_sort.overrun_contract [OF S] by blast
qed

section \<open>A node under memory pressure\<close>

definition example_shared :: "rat pod" where
  "example_shared = example_pod\<lparr>p_uid := ''u-2'', p_name := ''web'', p_annotations := [AnnotationQoSLevel \<mapsto> QoSSharedCores]\<rparr>"

definition example_usage :: "string \<Rightarrow> f64 \<Rightarrow> int \<Rightarrow> rat pod_sample" where
  "example_usage uid cpu mem = \<lparr>sm_uid = uid, sm_namespace = ''demo'', sm_name = uid, sm_level = [],
     sm_cpu = cpu, sm_mem = mem, sm_throttled = 0, sm_requests = Map.empty, sm_limits = Map.empty,
     sm_valid = True, sm_err = False\<rparr>"

definition example_eviction_config :: eviction_config where
  "example_eviction_config = \<lparr>ec_enabled = True, ec_dry_run = False, ec_mem_threshold = 85, ec_cpu_threshold = 92,
     ec_cpu_stall_threshold = 40, ec_max_per_minute = 3, ec_grace_seconds = 30, ec_stabilisation = 30,
     ec_disabled = []\<rparr>"

definition example_signal :: "rat signal" where
  "example_signal =
     \<lparr>sg_sample = (empty_sample 0 4)\<lparr>ns_mem := 900\<rparr>,
      sg_rec = no_recommendation\<lparr>rc_pressure := no_pressure\<lparr>np_level := PressureCritical, np_cpu_some_stalled := 50\<rparr>\<rparr>,
      sg_alloc = [ResourceMemory \<mapsto> 1000], sg_config = example_eviction_config,
      sg_pods = [example_shared, example_pod],
      sg_by_uid = [''u-1'' \<mapsto> example_usage ''u-1'' 5000 100, ''u-2'' \<mapsto> example_usage ''u-2'' 800 200]\<rparr>"

lemmas example_signal_defs = example_signal_def example_eviction_config_def example_usage_def

lemma example_levels [simp]:
  "level_of rat_quantity example_pod = QoSReclaimedCores" "level_of rat_quantity example_shared = QoSSharedCores"
  by (simp_all add: LevelOf_annotated example_shared_def example_pod_def)

lemma example_uids [simp]: "p_uid example_pod = ''u-1''" "p_uid example_shared = ''u-2''"
  by (simp_all add: example_shared_def example_pod_def)

lemma example_usage_of:
  "usage_of rat_quantity example_signal example_pod
     = \<lparr>pu_pod = example_pod, pu_level = QoSReclaimedCores, pu_cpu = 5000, pu_mem = 100\<rparr>"
  "usage_of rat_quantity example_signal example_shared
     = \<lparr>pu_pod = example_shared, pu_level = QoSSharedCores, pu_cpu = 800, pu_mem = 200\<rparr>"
  by (simp_all add: usage_of_def example_signal_defs)

lemma example_ranked:
  "mem_ranked rat_quantity example_signal =
     [usage_of rat_quantity example_signal example_pod, usage_of rat_quantity example_signal example_shared]"
proof -
  have "sg_pods example_signal = [example_shared, example_pod]" by (simp add: example_signal_def)
  then show ?thesis
    by (simp add: mem_ranked_def rankByTierThenUsage_def usagesFor_def example_usage_of EvictionRank_def)
qed

lemma example_readings:
  "bytesOf rat_quantity (sg_alloc example_signal) ResourceMemory = 1000"
  "ns_mem (sg_sample example_signal) = 900" "ec_mem_threshold (sg_config example_signal) = 85"
  "set (sg_pods example_signal) = {example_shared, example_pod}"
  by (auto simp: bytesOf_def rat_quantity_def example_signal_defs)

lemma example_totals:
  "usage_total (mem_ranked rat_quantity example_signal) = 300" "length (mem_ranked rat_quantity example_signal) = 2"
  "usage_total (take 1 (mem_ranked rat_quantity example_signal)) = 100"
  "map pu_pod (take 1 (mem_ranked rat_quantity example_signal)) = [example_pod]"
  "\<forall>u \<in> set (mem_ranked rat_quantity example_signal). 0 \<le> pu_mem u"
  by (simp_all add: example_ranked example_usage_of)

theorem memoryPressure_minimal_witness:
  "\<exists>vs. memoryPressure_Evaluate rat_quantity example_signal = Inr vs \<and> map vd_pod vs = [example_pod]"
proof -
  let ?r = "mem_ranked rat_quantity example_signal"
  have hot: "\<not> 100 * 900 div 1000 < (85::int)" by simp
  have "if 100 * 900 div 1000 < (85::int) then memoryPressure_Evaluate rat_quantity example_signal = Inr []
    else \<exists>vs n. memoryPressure_Evaluate rat_quantity example_signal = Inr vs \<and> map vd_pod vs = map pu_pod (take n ?r) \<and>
      (\<forall>k < n. 800 < 900 - usage_total (take k ?r)) \<and> (n = length ?r \<or> 900 - usage_total (take n ?r) \<le> 800)"
    by (rule memoryPressure_minimal)
       (simp_all only: example_readings example_totals(1-4), simp_all add: max_alloc_def max_i64_def example_totals(5) del: ball_simps)
  from this [unfolded if_not_P [OF hot]] obtain vs n
    where vs: "memoryPressure_Evaluate rat_quantity example_signal = Inr vs"
      "map vd_pod vs = map pu_pod (take n ?r)" "\<forall>k < n. 800 < 900 - usage_total (take k ?r)"
      "n = length ?r \<or> 900 - usage_total (take n ?r) \<le> 800"
    by (elim exE conjE) (rule that)
  have "\<not> 1 < n" using spec [OF vs(3), of 1] example_totals(3) by linarith
  moreover have "n \<noteq> 0" using vs(4) example_totals(2) by (cases n) auto
  ultimately have "n = 1" by linarith
  then show ?thesis using vs(1,2) example_totals(4) by simp
qed

theorem memoryPressure_tiers_witness:
  "\<exists>vs v. memoryPressure_Evaluate rat_quantity (example_signal\<lparr>sg_sample := (empty_sample 0 4)\<lparr>ns_mem := 1000\<rparr>\<rparr>) = Inr vs \<and>
     v \<in> set vs \<and> vd_pod v = example_shared \<and> example_pod \<in> vd_pod ` set vs"
proof -
  let ?sig = "example_signal\<lparr>sg_sample := (empty_sample 0 4)\<lparr>ns_mem := 1000\<rparr>\<rparr>"
  have u: "usage_of rat_quantity ?sig = usage_of rat_quantity example_signal"
    by (simp add: fun_eq_iff usage_of_def)
  then have r: "rankByTierThenUsage rat_quantity ?sig (\<lambda>s. f_of_int (pu_mem s)) = mem_ranked rat_quantity example_signal"
    by (simp add: mem_ranked_def rankByTierThenUsage_def usagesFor_def)
  let ?mk = "memory_verdict 100 1000 85"
  have "memoryPressure_Evaluate rat_quantity ?sig = Inr (memory_take ?mk 200 0 (mem_ranked rat_quantity example_signal))"
    unfolding memoryPressure_Evaluate_def quantityBytes_eq r by (simp add: Let_def example_readings i64_def go_div_def)
  then have e: "memoryPressure_Evaluate rat_quantity ?sig = Inr (map ?mk (mem_ranked rat_quantity example_signal))"
    by (simp add: example_ranked example_usage_of i64_def)
  let ?v = "?mk (usage_of rat_quantity example_signal example_shared)"
  have v: "?v \<in> set (map ?mk (mem_ranked rat_quantity example_signal))" by (simp add: example_ranked)
  have "example_pod \<in> vd_pod ` set (map ?mk (mem_ranked rat_quantity example_signal))"
    using memoryPressure_tiers [OF e v, of example_pod] by (simp add: EvictionRank_def example_readings)
  then show ?thesis using e v by (metis usage_of_fields(1) verdict_fields(1))
qed

theorem cpuSuppression_one_reclaimed_witness:
  "slice_sort_law insertion_slice \<and>
   (\<exists>vs. cpuSuppression_Evaluate insertion_slice rat_quantity example_signal = Inr vs \<and> map vd_pod vs = [example_pod])"
proof -
  obtain vs where vs: "cpuSuppression_Evaluate insertion_slice rat_quantity example_signal = Inr vs"
      "vs \<noteq> []" "length vs \<le> 1" "\<forall>v \<in> set vs. vd_pod v \<in> {example_shared, example_pod} \<and> IsReclaimed rat_quantity (vd_pod v)"
    using cpuSuppression_one_reclaimed [OF insertion_slice_law, of rat_quantity example_signal]
    by (auto simp: cpu_hot_def example_signal_defs IsReclaimed_def)
  then show ?thesis using insertion_slice_law
    by (cases vs) (auto simp: IsReclaimed_def)
qed

theorem reclaimedOverrun_exact_witness:
  "slice_sort_law insertion_slice \<and>
   (\<exists>vs. reclaimedOverrun_Evaluate insertion_slice rat_quantity example_signal = Inr vs \<and> vd_pod ` set vs = {example_pod})"
proof -
  have m: "milliOf rat_quantity (EffectiveRequests rat_quantity example_pod) ResourceCPU = 1500"
    by (simp add: milliOf_def EffectiveRequests_def PodRequests_def sumPod_def add_all_def rl_add_def
        extendedTotal_def rat_quantity_def example_defs Let_def)
  have lvl: "np_level (rc_pressure (sg_rec example_signal)) = PressureCritical" by (simp add: example_signal_def)
  have "3 \<le> fl (5000 / 1500)" using fl_mono [of 3 "5000 / 1500"] by simp
  then have "{pod \<in> set (sg_pods example_signal). np_level (rc_pressure (sg_rec example_signal)) \<noteq> PressureNone \<and>
      IsReclaimed rat_quantity pod \<and> 0 < milliOf rat_quantity (EffectiveRequests rat_quantity pod) ResourceCPU \<and>
      3 \<le> f_div (pu_cpu (usage_of rat_quantity example_signal pod))
        (f_of_int (milliOf rat_quantity (EffectiveRequests rat_quantity pod) ResourceCPU))} = {example_pod}"
    unfolding lvl example_readings by (auto simp: IsReclaimed_def m example_usage_of f_ops)
  then show ?thesis
    using reclaimedOverrun_exact [OF insertion_slice_law, of rat_quantity example_signal] insertion_slice_law by auto
qed

end
