(* ===== verification/Eviction.thy ===== *)
theory Eviction
  imports Eviction_Plugins
begin

text \<open>
  The eviction manager (\<^verbatim>\<open>pkg/agent/eviction/manager.go\<close>). \<open>manager_Run\<close> is one pass:
  the plugins propose, the rules no plugin may override veto, a token bucket limits the rate,
  and what is left is evicted through the Kubernetes API. The API's answer to an eviction is a
  parameter \<open>api\<close>; everything the pass does to the outside (the eviction calls, events,
  counters) is a list of effects in the order the code performs them. Logging is left out.
\<close>

section \<open>The token bucket\<close>

record token_bucket =
  tb_capacity :: int
  tb_tokens :: f64
  tb_window :: duration
  tb_last :: gtime

definition newTokenBucket :: "int \<Rightarrow> duration \<Rightarrow> token_bucket" where
  "newTokenBucket capacity window =
     \<lparr>tb_capacity = capacity, tb_tokens = f_of_int capacity, tb_window = window, tb_last = 0\<rparr>"

definition bucket_configure :: "int \<Rightarrow> duration \<Rightarrow> token_bucket \<Rightarrow> token_bucket" where
  "bucket_configure capacity0 window b =
     (let capacity = (if capacity0 < 0 then 0 else capacity0);
          b1 = b\<lparr>tb_capacity := capacity, tb_window := window\<rparr>
      in if tb_tokens b1 > f_of_int capacity then b1\<lparr>tb_tokens := f_of_int capacity\<rparr> else b1)"

text \<open>The refill at the head of \<^verbatim>\<open>take\<close>.\<close>

definition bucket_refill :: "gtime \<Rightarrow> token_bucket \<Rightarrow> token_bucket" where
  "bucket_refill now b =
     (let b1 = (if time_is_zero (tb_last b) then b\<lparr>tb_last := now\<rparr> else b);
          elapsed = time_sub now (tb_last b1)
      in if elapsed > 0 then
           (let tokens = f_add (tb_tokens b1)
                  (f_mul (f_of_int (tb_capacity b1)) (f_div (f_of_int elapsed) (f_of_int (tb_window b1))))
            in b1\<lparr>tb_tokens := (if tokens > f_of_int (tb_capacity b1) then f_of_int (tb_capacity b1) else tokens),
                  tb_last := now\<rparr>)
         else b1)"

definition bucket_take :: "gtime \<Rightarrow> token_bucket \<Rightarrow> bool \<times> token_bucket" where
  "bucket_take now b =
     (if tb_capacity b = 0 then (False, b)
      else let b1 = bucket_refill now b
        in if tb_tokens b1 < 1 then (False, b1)
           else (True, b1\<lparr>tb_tokens := f_sub (tb_tokens b1) 1\<rparr>))"

section \<open>State and results\<close>

record 'q eviction_manager =
  em_plugins :: "'q plugin list"
  em_recorder :: bool
  em_budget :: token_bucket
  em_breached_since :: gtime
  em_recent :: "string \<Rightarrow> gtime option"

definition eviction_NewManager :: "bool \<Rightarrow> 'q plugin list \<Rightarrow> 'q eviction_manager" where
  "eviction_NewManager recorder plugins =
     \<lparr>em_plugins = plugins, em_recorder = recorder, em_budget = newTokenBucket 3 minute,
      em_breached_since = 0, em_recent = Map.empty\<rparr>"

definition SetPlugins :: "'q plugin list \<Rightarrow> 'q eviction_manager \<Rightarrow> 'q eviction_manager" where
  "SetPlugins plugins m = m\<lparr>em_plugins := plugins\<rparr>"

datatype evict_reply = EvictOK | EvictTooManyRequests | EvictFailed

datatype 'q effect =
    CountProposed string string
  | CountSuppressed string int
  | CountError string
  | CountEvicted string string QoSLevel
  | EmitEvent "'q pod" string string string
  | CallEvict "'q pod" int

record 'q run_result =
  rs_proposed :: nat
  rs_evicted :: "'q verdict list"
  rs_suppressed :: "string \<Rightarrow> int"
  rs_effects :: "'q effect list"

definition empty_result :: "'q run_result" where
  "empty_result = \<lparr>rs_proposed = 0, rs_evicted = [], rs_suppressed = (\<lambda>_. 0), rs_effects = []\<rparr>"

definition emit :: "'q effect list \<Rightarrow> 'q run_result \<Rightarrow> 'q run_result" where
  "emit es r = r\<lparr>rs_effects := rs_effects r @ es\<rparr>"

definition suppressed_inc :: "string \<Rightarrow> 'q run_result \<Rightarrow> 'q run_result" where
  "suppressed_inc cause r = r\<lparr>rs_suppressed := (rs_suppressed r)(cause := rs_suppressed r cause + 1)\<rparr>"

definition suppress :: "string \<Rightarrow> 'q run_result \<Rightarrow> 'q run_result" where
  "suppress cause r = emit [CountSuppressed cause 1] (suppressed_inc cause r)"

definition pod_key :: "'q pod \<Rightarrow> string" where
  "pod_key pod = p_namespace pod @ ''/'' @ p_name pod"

section \<open>The pass\<close>

definition trackBreach :: "'q signal \<Rightarrow> gtime \<Rightarrow> 'q eviction_manager \<Rightarrow> 'q eviction_manager" where
  "trackBreach sig now m =
     (if np_level (rc_pressure (sg_rec sig)) = PressureNone then m\<lparr>em_breached_since := 0\<rparr>
      else if time_is_zero (em_breached_since m) then m\<lparr>em_breached_since := now\<rparr>
      else m)"

text \<open>\<^verbatim>\<open>veto\<close> names the rule that blocks an eviction; the empty string allows it.\<close>

definition veto :: "'q quantity_ops \<Rightarrow> (string \<Rightarrow> gtime option) \<Rightarrow> 'q verdict \<Rightarrow> gtime \<Rightarrow> string" where
  "veto Q recent v now =
     (let pod = vd_pod v; level = level_of Q pod
      in if \<not> Evictable level then ''system-tier''
         else if IsMirrorPod pod then ''mirror-pod''
         else if p_deletion pod \<noteq> None then ''already-terminating''
         else if IsTerminal pod then ''already-terminal''
         else if (case p_priority pod of Some p \<Rightarrow> p \<ge> 2000000000 | None \<Rightarrow> False) then ''system-critical-priority''
         else if (case recent (pod_key pod) of Some t \<Rightarrow> time_sub now t < 2 * minute | None \<Rightarrow> False)
           then ''recently-evicted''
         else [])"

definition event_effects :: "bool \<Rightarrow> 'q pod \<Rightarrow> string \<Rightarrow> string \<Rightarrow> string \<Rightarrow> 'q effect list" where
  "event_effects recorder pod kind reason message = (if recorder then [EmitEvent pod kind reason message] else [])"

definition gcRecent :: "gtime \<Rightarrow> (string \<Rightarrow> gtime option) \<Rightarrow> (string \<Rightarrow> gtime option)" where
  "gcRecent now recent =
     (\<lambda>k. case recent k of None \<Rightarrow> None | Some t \<Rightarrow> if time_sub now t > 10 * minute then None else Some t)"

type_synonym 'q evict_api = "'q pod \<Rightarrow> int \<Rightarrow> evict_reply"
type_synonym 'q pass_state = "'q eviction_manager \<times> 'q run_result"

text \<open>
  The object \<^verbatim>\<open>evict\<close> posts to the eviction endpoint of the pod's namespace; the API's reply
  to it is what \<^verbatim>\<open>evict_api\<close> answers.
\<close>

record evict_object =
  ev_namespace :: string
  ev_name :: string
  ev_grace :: int

definition evict_request :: "'q pod \<Rightarrow> int \<Rightarrow> evict_object" where
  "evict_request pod grace = \<lparr>ev_namespace = p_namespace pod, ev_name = p_name pod, ev_grace = grace\<rparr>"

text \<open>An API server sees nothing of a pod but its namespace and name.\<close>

definition evict_by_name :: "(evict_object \<Rightarrow> evict_reply) \<Rightarrow> 'q evict_api" where
  "evict_by_name post pod grace = post (evict_request pod grace)"

lemma evict_by_name_key:
  "pod_key p = pod_key q \<Longrightarrow> p_namespace p = p_namespace q \<Longrightarrow> evict_by_name post p g = evict_by_name post q g"
  by (simp add: evict_by_name_def evict_request_def pod_key_def)

text \<open>The end of the loop's body: the verdict is allowed and a token has been taken.\<close>

definition evict_allowed ::
  "'q evict_api \<Rightarrow> 'q quantity_ops \<Rightarrow> eviction_config \<Rightarrow> gtime \<Rightarrow> 'q verdict \<Rightarrow> 'q pass_state \<Rightarrow> 'q pass_state"
where
  "evict_allowed api Q cfg now v st =
     (case st of (m, res) \<Rightarrow>
        let pod = vd_pod v; level = level_of Q pod
        in if ec_dry_run cfg then
             (m, suppress ''dry-run''
                   (emit (event_effects (em_recorder m) pod ''Normal'' ''KqosEvictionDryRun'' (vd_message v)) res))
           else
             let res1 = emit [CallEvict pod (ec_grace_seconds cfg)] res
             in case api pod (ec_grace_seconds cfg) of
                  EvictOK \<Rightarrow>
                    (m\<lparr>em_recent := (em_recent m)(pod_key pod \<mapsto> now)\<rparr>,
                     (emit (CountEvicted (vd_plugin v) (vd_reason v) level
                        # event_effects (em_recorder m) pod ''Warning'' ''KqosEvicted'' (vd_message v)) res1)
                       \<lparr>rs_evicted := rs_evicted res1 @ [v]\<rparr>)
                | EvictTooManyRequests \<Rightarrow>
                    (m, suppressed_inc ''disruption-budget'' (emit [CountError ''disruption-budget''] res1))
                | EvictFailed \<Rightarrow>
                    (m, suppressed_inc ''api-error'' (emit [CountError ''api-error''] res1)))"

fun evict_loop ::
  "'q evict_api \<Rightarrow> 'q quantity_ops \<Rightarrow> eviction_config \<Rightarrow> gtime \<Rightarrow> 'q verdict list \<Rightarrow> string list
     \<Rightarrow> 'q pass_state \<Rightarrow> 'q pass_state"
where
  "evict_loop api Q cfg now [] seen st = st"
| "evict_loop api Q cfg now (v # vs) seen (m, res) =
     (let key = pod_key (vd_pod v)
      in if key \<in> set seen then evict_loop api Q cfg now vs seen (m, res)
         else
           let cause = veto Q (em_recent m) v now
           in if cause \<noteq> [] then evict_loop api Q cfg now vs (key # seen) (m, suppress cause res)
              else case bucket_take now (em_budget m) of
                  (False, b) \<Rightarrow> (m\<lparr>em_budget := b\<rparr>, suppress ''rate-limited'' res)
                | (True, b) \<Rightarrow>
                    evict_loop api Q cfg now vs (key # seen)
                      (evict_allowed api Q cfg now v (m\<lparr>em_budget := b\<rparr>, res)))"

text \<open>What the plugins propose; a plugin that fails is skipped.\<close>

definition proposals :: "'q signal \<Rightarrow> 'q plugin list \<Rightarrow> 'q verdict list" where
  "proposals sig plugins =
     concat (map (\<lambda>p. case pl_evaluate p sig of Inl err \<Rightarrow> [] | Inr vs \<Rightarrow> vs) plugins)"

definition manager_Run ::
  "'q evict_api \<Rightarrow> 'q quantity_ops \<Rightarrow> 'q signal \<Rightarrow> gtime \<Rightarrow> 'q eviction_manager \<Rightarrow> 'q pass_state"
where
  "manager_Run api Q sig now m =
     (let cfg = sg_config sig; res = empty_result
      in if \<not> ec_enabled cfg then (m, res)
         else if ns_degraded (sg_sample sig) then (m, suppress ''degraded-sample'' res)
         else
           let m1 = trackBreach sig now m;
               verdicts = proposals sig (em_plugins m1);
               res1 = (emit (map (\<lambda>v. CountProposed (vd_plugin v) (vd_reason v)) verdicts) res)
                        \<lparr>rs_proposed := length verdicts\<rparr>
           in if verdicts = [] then (m1, res1)
              else
                let wait = i64 (ec_stabilisation cfg * second)
                in if wait > 0 \<and> (time_is_zero (em_breached_since m1) \<or> time_sub now (em_breached_since m1) < wait) then
                     (m1, (emit [CountSuppressed ''stabilising'' (int (length verdicts))] res1)
                            \<lparr>rs_suppressed := (rs_suppressed res1)(''stabilising'' := int (length verdicts))\<rparr>)
                   else
                     let m2 = m1\<lparr>em_budget := bucket_configure (ec_max_per_minute cfg) minute (em_budget m1)\<rparr>
                     in case evict_loop api Q cfg now verdicts [] (m2, res1) of
                          (m3, res2) \<Rightarrow> (m3\<lparr>em_recent := gcRecent now (em_recent m3)\<rparr>, res2))"

section \<open>One pass\<close>

text \<open>The pods an eviction call may be made for.\<close>

definition may_evict :: "'q quantity_ops \<Rightarrow> (string \<Rightarrow> gtime option) \<Rightarrow> gtime \<Rightarrow> 'q pod \<Rightarrow> bool" where
  "may_evict Q recent now pod \<longleftrightarrow>
     level_of Q pod \<noteq> QoSSystemCores \<and> \<not> IsMirrorPod pod \<and> p_deletion pod = None \<and> \<not> IsTerminal pod \<and>
     (\<forall>p. p_priority pod = Some p \<longrightarrow> p < 2000000000) \<and>
     (\<forall>t. recent (pod_key pod) = Some t \<longrightarrow> 2 * minute \<le> now - t)"

lemma veto_none: "veto Q recent v now = [] \<longleftrightarrow> may_evict Q recent now (vd_pod v)"
proof -
  have t: "time_sub now t < 2 * minute \<longleftrightarrow> \<not> 2 * minute \<le> now - t" for t
    by (subst time_sub_less_iff) (auto simp: minute_def min_i64_def max_i64_def)
  show ?thesis
    by (auto simp: veto_def may_evict_def Evictable_def Let_def t split: option.splits)
qed

lemma may_evict_cong:
  "r (pod_key pod) = r' (pod_key pod) \<Longrightarrow> may_evict Q r now pod = may_evict Q r' now pod"
  by (simp add: may_evict_def)

abbreviation verdict_key :: "'q verdict \<Rightarrow> string" where
  "verdict_key v \<equiv> pod_key (vd_pod v)"

lemma result_fields [simp]:
  "rs_evicted (emit es r) = rs_evicted r" "rs_suppressed (emit es r) = rs_suppressed r"
  "rs_proposed (emit es r) = rs_proposed r" "rs_effects (emit es r) = rs_effects r @ es"
  "rs_evicted (suppressed_inc c r) = rs_evicted r" "rs_effects (suppressed_inc c r) = rs_effects r"
  "rs_proposed (suppressed_inc c r) = rs_proposed r"
  "rs_evicted (suppress c r) = rs_evicted r" "rs_effects (suppress c r) = rs_effects r @ [CountSuppressed c 1]"
  "rs_proposed (suppress c r) = rs_proposed r"
  by (simp_all add: emit_def suppressed_inc_def suppress_def)

definition calls :: "'q effect list \<Rightarrow> ('q pod \<times> int) list" where
  "calls es = List.map_filter (\<lambda>e. case e of CallEvict pod g \<Rightarrow> Some (pod, g) | _ \<Rightarrow> None) es"

lemma calls_simps [simp]:
  "calls [] = []" "calls (es @ fs) = calls es @ calls fs" "calls (CallEvict pod g # es) = (pod, g) # calls es"
  "calls (CountSuppressed c n # es) = calls es" "calls (CountError c # es) = calls es"
  "calls (CountEvicted p r l # es) = calls es" "calls (event_effects b pod k r msg) = []"
  "calls (map (\<lambda>v. CountProposed (f v) (h v)) vs) = []"
  by (simp_all add: calls_def List.map_filter_def event_effects_def o_def)

text \<open>
  What the loop adds to a pass: victims that were allowed in the state it started from, under
  keys not seen before and pairwise distinct; a call for each pod it tried, of which the
  accepted ones are the victims; the victims noted as recently evicted.
\<close>

definition loop_adds ::
  "'q evict_api \<Rightarrow> 'q quantity_ops \<Rightarrow> eviction_config \<Rightarrow> gtime \<Rightarrow> 'q verdict list \<Rightarrow> string list
     \<Rightarrow> 'q pass_state \<Rightarrow> 'q pass_state \<Rightarrow> bool"
where
  "loop_adds api Q cfg now vs seen st st' \<longleftrightarrow>
     (\<exists>new tried. rs_evicted (snd st') = rs_evicted (snd st) @ new \<and>
        calls (rs_effects (snd st')) = calls (rs_effects (snd st)) @ map (\<lambda>v. (vd_pod v, ec_grace_seconds cfg)) tried \<and>
        new = filter (\<lambda>v. api (vd_pod v) (ec_grace_seconds cfg) = EvictOK) tried \<and>
        (ec_dry_run cfg \<longrightarrow> tried = []) \<and>
        set tried \<subseteq> set vs \<and> distinct (map verdict_key tried) \<and>
        (\<forall>v \<in> set tried. verdict_key v \<notin> set seen \<and> may_evict Q (em_recent (fst st)) now (vd_pod v)) \<and>
        em_recent (fst st') = (\<lambda>k. if k \<in> verdict_key ` set new then Some now else em_recent (fst st) k) \<and>
        em_plugins (fst st') = em_plugins (fst st) \<and> em_recorder (fst st') = em_recorder (fst st) \<and>
        em_breached_since (fst st') = em_breached_since (fst st) \<and>
        rs_proposed (snd st') = rs_proposed (snd st))"

lemma loop_adds_none:
  assumes "rs_evicted (snd st') = rs_evicted (snd st)" "calls (rs_effects (snd st')) = calls (rs_effects (snd st))"
    "em_recent (fst st') = em_recent (fst st)" "em_plugins (fst st') = em_plugins (fst st)"
    "em_recorder (fst st') = em_recorder (fst st)" "em_breached_since (fst st') = em_breached_since (fst st)"
    "rs_proposed (snd st') = rs_proposed (snd st)"
  shows "loop_adds api Q cfg now vs seen st st'"
  unfolding loop_adds_def using assms by (intro exI [of _ "[]"]) simp

lemma loop_adds_weaken:
  assumes "loop_adds api Q cfg now vs seen' st1 st'" and "set seen \<subseteq> set seen'"
    and "rs_evicted (snd st1) = rs_evicted (snd st)" "calls (rs_effects (snd st1)) = calls (rs_effects (snd st))"
    "em_recent (fst st1) = em_recent (fst st)" "em_plugins (fst st1) = em_plugins (fst st)"
    "em_recorder (fst st1) = em_recorder (fst st)" "em_breached_since (fst st1) = em_breached_since (fst st)"
    "rs_proposed (snd st1) = rs_proposed (snd st)"
  shows "loop_adds api Q cfg now (v # vs) seen st st'"
proof -
  obtain new tried where "rs_evicted (snd st') = rs_evicted (snd st1) @ new"
    "calls (rs_effects (snd st')) = calls (rs_effects (snd st1)) @ map (\<lambda>v. (vd_pod v, ec_grace_seconds cfg)) tried"
    "new = filter (\<lambda>v. api (vd_pod v) (ec_grace_seconds cfg) = EvictOK) tried"
    "ec_dry_run cfg \<longrightarrow> tried = []" "set tried \<subseteq> set vs" "distinct (map verdict_key tried)"
    "\<forall>v \<in> set tried. verdict_key v \<notin> set seen' \<and> may_evict Q (em_recent (fst st1)) now (vd_pod v)"
    "em_recent (fst st') = (\<lambda>k. if k \<in> verdict_key ` set new then Some now else em_recent (fst st1) k)"
    "em_plugins (fst st') = em_plugins (fst st1)" "em_recorder (fst st') = em_recorder (fst st1)"
    "em_breached_since (fst st') = em_breached_since (fst st1)" "rs_proposed (snd st') = rs_proposed (snd st1)"
    using assms(1) unfolding loop_adds_def by blast
  then show ?thesis
    unfolding loop_adds_def using assms(2-) by (intro exI [of _ new] exI [of _ tried]) auto
qed

lemma evict_allowed_cases:
  assumes "st1 = evict_allowed api Q cfg now v (m, res)"
  shows "(ec_dry_run cfg \<and> fst st1 = m \<and> rs_evicted (snd st1) = rs_evicted res \<and>
            calls (rs_effects (snd st1)) = calls (rs_effects res)) \<or>
    (\<not> ec_dry_run cfg \<and> calls (rs_effects (snd st1)) = calls (rs_effects res) @ [(vd_pod v, ec_grace_seconds cfg)] \<and>
       (if api (vd_pod v) (ec_grace_seconds cfg) = EvictOK
        then fst st1 = m\<lparr>em_recent := (em_recent m)(verdict_key v \<mapsto> now)\<rparr> \<and> rs_evicted (snd st1) = rs_evicted res @ [v]
        else fst st1 = m \<and> rs_evicted (snd st1) = rs_evicted res))"
    and "rs_proposed (snd st1) = rs_proposed res"
  using assms by (auto simp: evict_allowed_def Let_def emit_def split: evict_reply.splits)

lemma loop_adds_call:
  assumes "loop_adds api Q cfg now vs (verdict_key v # seen) st1 st'"
    and "calls (rs_effects (snd st1)) = calls (rs_effects (snd st)) @ [(vd_pod v, ec_grace_seconds cfg)]"
    and "\<not> ec_dry_run cfg" "verdict_key v \<notin> set seen" "may_evict Q (em_recent (fst st)) now (vd_pod v)"
    and "if api (vd_pod v) (ec_grace_seconds cfg) = EvictOK
        then em_recent (fst st1) = (em_recent (fst st))(verdict_key v \<mapsto> now) \<and> rs_evicted (snd st1) = rs_evicted (snd st) @ [v]
        else em_recent (fst st1) = em_recent (fst st) \<and> rs_evicted (snd st1) = rs_evicted (snd st)"
    and "em_plugins (fst st1) = em_plugins (fst st)" "em_recorder (fst st1) = em_recorder (fst st)"
      "em_breached_since (fst st1) = em_breached_since (fst st)" "rs_proposed (snd st1) = rs_proposed (snd st)"
  shows "loop_adds api Q cfg now (v # vs) seen st st'"
proof -
  let ?ok = "\<lambda>v. api (vd_pod v) (ec_grace_seconds cfg) = EvictOK"
  let ?call = "\<lambda>v. (vd_pod v, ec_grace_seconds cfg)"
  obtain tried where t: "rs_evicted (snd st') = rs_evicted (snd st1) @ filter ?ok tried"
    "calls (rs_effects (snd st')) = calls (rs_effects (snd st1)) @ map ?call tried"
    "set tried \<subseteq> set vs" "distinct (map verdict_key tried)"
    "\<forall>v' \<in> set tried. verdict_key v' \<notin> set (verdict_key v # seen) \<and> may_evict Q (em_recent (fst st1)) now (vd_pod v')"
    "em_recent (fst st') = (\<lambda>k. if k \<in> verdict_key ` set (filter ?ok tried) then Some now else em_recent (fst st1) k)"
    "em_plugins (fst st') = em_plugins (fst st1)" "em_recorder (fst st') = em_recorder (fst st1)"
    "em_breached_since (fst st') = em_breached_since (fst st1)" "rs_proposed (snd st') = rs_proposed (snd st1)"
    using assms(1) unfolding loop_adds_def by blast
  have same: "em_recent (fst st1) k = em_recent (fst st) k" if "k \<noteq> verdict_key v" for k
    using assms(6) that by (simp split: if_splits)
  have "\<forall>v' \<in> set tried. verdict_key v' \<notin> set seen \<and> may_evict Q (em_recent (fst st)) now (vd_pod v')"
  proof
    fix v' assume "v' \<in> set tried"
    then have "verdict_key v' \<noteq> verdict_key v" "verdict_key v' \<notin> set seen"
      "may_evict Q (em_recent (fst st1)) now (vd_pod v')" using t(5) by auto
    then show "verdict_key v' \<notin> set seen \<and> may_evict Q (em_recent (fst st)) now (vd_pod v')"
      using may_evict_cong [of "em_recent (fst st1)" "vd_pod v'" "em_recent (fst st)"] same by simp
  qed
  moreover have "distinct (map verdict_key (v # tried))" using t(4,5) by auto
  moreover have "em_recent (fst st') =
      (\<lambda>k. if k \<in> verdict_key ` set (filter ?ok (v # tried)) then Some now else em_recent (fst st) k)"
    using assms(6) unfolding t(6) by (auto simp: fun_eq_iff)
  moreover have victims: "rs_evicted (snd st') = rs_evicted (snd st) @ filter ?ok (v # tried)"
    using assms(6) t(1) by (simp split: if_splits)
  moreover have "set (v # tried) \<subseteq> set (v # vs)" using t(3) by auto
  ultimately show ?thesis
    unfolding loop_adds_def using assms(2-5,7-) t(2,3,7-) victims
    by (intro exI [of _ "filter ?ok (v # tried)"] exI [of _ "v # tried"] conjI) simp_all
qed

lemma evict_loop_adds: "loop_adds api Q cfg now vs seen (m, res) (evict_loop api Q cfg now vs seen (m, res))"
proof (induction vs arbitrary: seen m res)
  case Nil
  show ?case by (simp add: loop_adds_none)
next
  case (Cons v vs)
  let ?key = "verdict_key v"
  consider (dup) "?key \<in> set seen" | (vetoed) "?key \<notin> set seen" "veto Q (em_recent m) v now \<noteq> []"
    | (dry) b where "?key \<notin> set seen" "veto Q (em_recent m) v now = []" "bucket_take now (em_budget m) = (False, b)"
    | (taken) b where "?key \<notin> set seen" "veto Q (em_recent m) v now = []" "bucket_take now (em_budget m) = (True, b)"
    by (cases "bucket_take now (em_budget m)") (metis (full_types))
  then show ?case
  proof cases
    case dup
    then show ?thesis
      using loop_adds_weaken [OF Cons.IH [of seen m res], of seen "(m, res)"] by simp
  next
    case vetoed
    then show ?thesis
      using loop_adds_weaken [OF Cons.IH [of "?key # seen" m "suppress (veto Q (em_recent m) v now) res"],
          of seen "(m, res)"]
      by (simp add: Let_def subset_insertI)
  next
    case (dry b)
    then show ?thesis by (simp add: Let_def) (rule loop_adds_none, simp_all)
  next
    case (taken b)
    let ?m = "m\<lparr>em_budget := b\<rparr>"
    define st1 where "st1 = evict_allowed api Q cfg now v (?m, res)"
    note a = evict_allowed_cases [OF st1_def]
    have ih: "loop_adds api Q cfg now vs (?key # seen) st1 (evict_loop api Q cfg now vs (?key # seen) st1)"
      using Cons.IH [of "?key # seen" "fst st1" "snd st1"] by simp
    have step: "evict_loop api Q cfg now (v # vs) seen (m, res) = evict_loop api Q cfg now vs (?key # seen) st1"
      using taken by (simp add: st1_def)
    have me: "may_evict Q (em_recent m) now (vd_pod v)" using taken(2) by (simp add: veto_none)
    show ?thesis
    proof (cases "ec_dry_run cfg")
      case True
      then show ?thesis
        unfolding step using a by (intro loop_adds_weaken [OF ih]) auto
    next
      case False
      then show ?thesis
        unfolding step using a taken(1) me by (intro loop_adds_call [OF ih]) (auto split: if_splits)
    qed
  qed
qed

text \<open>
  A pass either leaves the budget and the recently evicted pods alone and evicts nothing, or
  it has passed every gate and runs the loop on the proposals.
\<close>

definition waited :: "eviction_config \<Rightarrow> gtime \<Rightarrow> 'q eviction_manager \<Rightarrow> bool" where
  "waited cfg now m \<longleftrightarrow>
     (let wait = i64 (ec_stabilisation cfg * second)
      in 0 < wait \<longrightarrow> em_breached_since m \<noteq> 0 \<and> wait \<le> time_sub now (em_breached_since m))"

definition quiet :: "'q eviction_manager \<Rightarrow> 'q eviction_manager \<Rightarrow> 'q run_result \<Rightarrow> bool" where
  "quiet m m' res \<longleftrightarrow> rs_evicted res = [] \<and> calls (rs_effects res) = [] \<and> em_recent m' = em_recent m \<and>
     em_budget m' = em_budget m \<and> em_plugins m' = em_plugins m"

lemma trackBreach_fields [simp]:
  "em_plugins (trackBreach sig now m) = em_plugins m" "em_budget (trackBreach sig now m) = em_budget m"
  "em_recent (trackBreach sig now m) = em_recent m" "em_recorder (trackBreach sig now m) = em_recorder m"
  by (simp_all add: trackBreach_def)

definition loop_start :: "'q signal \<Rightarrow> gtime \<Rightarrow> 'q eviction_manager \<Rightarrow> 'q pass_state" where
  "loop_start sig now m =
     (let m1 = trackBreach sig now m; vs = proposals sig (em_plugins m)
      in (m1\<lparr>em_budget := bucket_configure (ec_max_per_minute (sg_config sig)) minute (em_budget m1)\<rparr>,
          (emit (map (\<lambda>v. CountProposed (vd_plugin v) (vd_reason v)) vs) empty_result)\<lparr>rs_proposed := length vs\<rparr>))"

lemma manager_Run_cases:
  assumes "manager_Run api Q sig now m = (m', res)"
  obtains (off) "\<not> ec_enabled (sg_config sig) \<or> ns_degraded (sg_sample sig)" "quiet m m' res" "m' = m"
      "rs_proposed res = 0"
  | (idle) "ec_enabled (sg_config sig)" "\<not> ns_degraded (sg_sample sig)" "quiet m m' res" "m' = trackBreach sig now m"
      "rs_proposed res = length (proposals sig (em_plugins m))"
  | (active) m3 where "ec_enabled (sg_config sig)" "\<not> ns_degraded (sg_sample sig)"
      "waited (sg_config sig) now (trackBreach sig now m)"
      "evict_loop api Q (sg_config sig) now (proposals sig (em_plugins m)) [] (loop_start sig now m) = (m3, res)"
      "m' = m3\<lparr>em_recent := gcRecent now (em_recent m3)\<rparr>"
proof -
  let ?wait = "i64 (ec_stabilisation (sg_config sig) * second)"
  let ?m1 = "trackBreach sig now m"
  consider (a) "\<not> ec_enabled (sg_config sig) \<or> ns_degraded (sg_sample sig)"
    | (b) "ec_enabled (sg_config sig)" "\<not> ns_degraded (sg_sample sig)"
        "proposals sig (em_plugins m) = [] \<or> \<not> waited (sg_config sig) now ?m1"
    | (c) "ec_enabled (sg_config sig)" "\<not> ns_degraded (sg_sample sig)"
        "proposals sig (em_plugins m) \<noteq> []" "waited (sg_config sig) now ?m1"
    by blast
  then show ?thesis
  proof cases
    case a
    then show ?thesis
      using assms by (intro off) (auto simp: manager_Run_def Let_def quiet_def empty_result_def split: if_splits)
  next
    case b
    then show ?thesis
      using assms
      by (intro idle) (auto simp: manager_Run_def Let_def quiet_def empty_result_def waited_def time_is_zero_def
          not_le emit_def split: if_splits)
  next
    case c
    have "\<not> (?wait > 0 \<and> (time_is_zero (em_breached_since ?m1) \<or> time_sub now (em_breached_since ?m1) < ?wait))"
      using c(4) by (auto simp: waited_def time_is_zero_def Let_def)
    then show ?thesis
      using assms c
      by (intro active [of "fst (evict_loop api Q (sg_config sig) now (proposals sig (em_plugins m)) [] (loop_start sig now m))"])
         (auto simp: manager_Run_def loop_start_def Let_def split: prod.splits)
  qed
qed

lemma loop_start_fields [simp]:
  "em_recent (fst (loop_start sig now m)) = em_recent m" "em_plugins (fst (loop_start sig now m)) = em_plugins m"
  "em_recorder (fst (loop_start sig now m)) = em_recorder m"
  "em_breached_since (fst (loop_start sig now m)) = em_breached_since (trackBreach sig now m)"
  "em_budget (fst (loop_start sig now m)) = bucket_configure (ec_max_per_minute (sg_config sig)) minute (em_budget m)"
  "rs_evicted (snd (loop_start sig now m)) = []" "calls (rs_effects (snd (loop_start sig now m))) = []"
  "rs_proposed (snd (loop_start sig now m)) = length (proposals sig (em_plugins m))"
  by (simp_all add: loop_start_def Let_def empty_result_def)

lemma proposals_from_signal:
  assumes "\<forall>p \<in> set plugins. eviction_plugin p" and "v \<in> set (proposals sig plugins)"
  shows "vd_pod v \<in> set (sg_pods sig)"
proof -
  obtain p vs where p: "p \<in> set plugins" "pl_evaluate p sig = Inr vs" "v \<in> set vs"
    using assms(2) by (auto simp: proposals_def dest: sym split: sum.splits)
  then have "eviction_plugin p" using assms(1) by blast
  then show ?thesis using p(2,3) by (rule eviction_plugin.from_signal)
qed

lemma active_loop:
  assumes "evict_loop api Q (sg_config sig) now (proposals sig (em_plugins m)) [] (loop_start sig now m) = (m3, res)"
  obtains tried where
    "rs_evicted res = filter (\<lambda>v. api (vd_pod v) (ec_grace_seconds (sg_config sig)) = EvictOK) tried"
    "calls (rs_effects res) = map (\<lambda>v. (vd_pod v, ec_grace_seconds (sg_config sig))) tried"
    "ec_dry_run (sg_config sig) \<longrightarrow> tried = []" "set tried \<subseteq> set (proposals sig (em_plugins m))"
    "distinct (map verdict_key tried)" "\<forall>v \<in> set tried. may_evict Q (em_recent m) now (vd_pod v)"
    "em_recent m3 = (\<lambda>k. if k \<in> verdict_key ` set (rs_evicted res) then Some now else em_recent m k)"
    "em_plugins m3 = em_plugins m" "em_breached_since m3 = em_breached_since (trackBreach sig now m)"
    "rs_proposed res = length (proposals sig (em_plugins m))"
proof -
  have "loop_adds api Q (sg_config sig) now (proposals sig (em_plugins m)) [] (loop_start sig now m) (m3, res)"
    using evict_loop_adds [of api Q "sg_config sig" now "proposals sig (em_plugins m)" "[]"
        "fst (loop_start sig now m)" "snd (loop_start sig now m)"] assms by simp
  then show ?thesis
    unfolding loop_adds_def fst_conv snd_conv loop_start_fields append_Nil by (elim exE conjE) (rule that, simp_all)
qed

definition run_adds ::
  "'q evict_api \<Rightarrow> 'q quantity_ops \<Rightarrow> 'q signal \<Rightarrow> gtime \<Rightarrow> 'q eviction_manager \<Rightarrow> 'q eviction_manager
     \<Rightarrow> 'q run_result \<Rightarrow> 'q verdict list \<Rightarrow> bool"
where
  "run_adds api Q sig now m m' res tried \<longleftrightarrow>
     calls (rs_effects res) = map (\<lambda>v. (vd_pod v, ec_grace_seconds (sg_config sig))) tried \<and>
     rs_evicted res = filter (\<lambda>v. api (vd_pod v) (ec_grace_seconds (sg_config sig)) = EvictOK) tried \<and>
     set tried \<subseteq> set (proposals sig (em_plugins m)) \<and> distinct (map verdict_key tried) \<and>
     (tried \<noteq> [] \<longrightarrow> ec_enabled (sg_config sig) \<and> \<not> ns_degraded (sg_sample sig) \<and> \<not> ec_dry_run (sg_config sig) \<and>
        waited (sg_config sig) now (trackBreach sig now m)) \<and>
     (\<forall>v \<in> set tried. may_evict Q (em_recent m) now (vd_pod v)) \<and> em_plugins m' = em_plugins m"

lemma manager_Run_adds:
  assumes "manager_Run api Q sig now m = (m', res)"
  shows "\<exists>tried. run_adds api Q sig now m m' res tried"
  using assms
proof (cases rule: manager_Run_cases)
  case off
  then show ?thesis by (intro exI [of _ "[]"]) (simp add: run_adds_def quiet_def)
next
  case idle
  then show ?thesis by (intro exI [of _ "[]"]) (simp add: run_adds_def quiet_def)
next
  case (active m3)
  from active(4) show ?thesis
  proof (rule active_loop)
    fix tried
    assume "rs_evicted res = filter (\<lambda>v. api (vd_pod v) (ec_grace_seconds (sg_config sig)) = EvictOK) tried"
      "calls (rs_effects res) = map (\<lambda>v. (vd_pod v, ec_grace_seconds (sg_config sig))) tried"
      "ec_dry_run (sg_config sig) \<longrightarrow> tried = []" "set tried \<subseteq> set (proposals sig (em_plugins m))"
      "distinct (map verdict_key tried)" "\<forall>v \<in> set tried. may_evict Q (em_recent m) now (vd_pod v)"
      "em_plugins m3 = em_plugins m"
    then show ?thesis
      unfolding run_adds_def using active(1-3,5) by (intro exI [of _ tried]) auto
  qed
qed

text \<open>
  C4. Whatever the plugins propose and however the API answers, an eviction call is made only for
  a pod of the signal that is not of the system tier, not a mirror pod, not terminating or
  terminal, below the system-critical priorities and not told to go in the last two minutes;
  only while eviction is enabled, the sample is measured, the policy is not a dry run and the
  pressure episode has lasted the stabilisation period; at most once per pod of a pass, with
  the policy's grace period. The pass counts as evicted exactly the pods the API accepted.
\<close>

theorem Run_only_allowed:
  assumes "manager_Run api Q sig now m = (m', res)" and "slice_sort_law S"
    and "em_plugins m = BuildPlugins (kqos_registry S Q) disabled"
  shows "distinct (map (pod_key \<circ> fst) (calls (rs_effects res))) \<and>
    map vd_pod (rs_evicted res) = map fst (filter (\<lambda>(pod, g). api pod g = EvictOK) (calls (rs_effects res))) \<and>
    (\<forall>(pod, g) \<in> set (calls (rs_effects res)).
       pod \<in> set (sg_pods sig) \<and> g = ec_grace_seconds (sg_config sig) \<and> ec_enabled (sg_config sig) \<and>
       \<not> ns_degraded (sg_sample sig) \<and> \<not> ec_dry_run (sg_config sig) \<and>
       waited (sg_config sig) now (trackBreach sig now m) \<and>
       level_of Q pod \<noteq> QoSSystemCores \<and> \<not> IsMirrorPod pod \<and> p_deletion pod = None \<and> \<not> IsTerminal pod \<and>
       (\<forall>p. p_priority pod = Some p \<longrightarrow> p < 2000000000) \<and>
       (\<forall>t. em_recent m (pod_key pod) = Some t \<longrightarrow> 2 * minute \<le> now - t))"
proof -
  obtain tried where t: "run_adds api Q sig now m m' res tried"
    using manager_Run_adds [OF assms(1)] by blast
  have pods: "vd_pod v \<in> set (sg_pods sig)" if "v \<in> set tried" for v
    using proposals_from_signal [of "em_plugins m" v sig] registry_plugins [OF assms(2)] assms(3) t that
    unfolding run_adds_def by auto
  have "distinct (map (pod_key \<circ> fst) (calls (rs_effects res)))"
    using t by (simp add: run_adds_def o_def)
  moreover have "map vd_pod (rs_evicted res)
      = map fst (filter (\<lambda>(pod, g). api pod g = EvictOK) (calls (rs_effects res)))"
    using t by (simp add: run_adds_def filter_map o_def)
  moreover have "\<forall>(pod, g) \<in> set (calls (rs_effects res)). \<exists>v \<in> set tried. pod = vd_pod v \<and> g = ec_grace_seconds (sg_config sig)"
    using t by (auto simp: run_adds_def)
  ultimately show ?thesis
    using t pods unfolding run_adds_def may_evict_def by fastforce
qed

section \<open>The rate limit\<close>

definition bucket_ok :: "int \<Rightarrow> token_bucket \<Rightarrow> bool" where
  "bucket_ok C b \<longleftrightarrow> tb_capacity b = C \<and> 0 \<le> C \<and> C < 2 ^ 31 \<and> tb_window b = minute \<and>
     0 \<le> tb_tokens b \<and> tb_tokens b \<le> of_int C"

lemma f_of_int_exact [simp]: "0 \<le> n \<Longrightarrow> n \<le> 2 ^ 53 \<Longrightarrow> f_of_int n = of_int n"
  by (simp add: f_of_int_def)

lemma fl_upper: "0 \<le> x \<Longrightarrow> fl x \<le> x + x / 2 ^ 53"
proof -
  assume "0 \<le> x"
  then have "fl x - x \<le> x / 2 ^ 53" using order_trans [OF abs_ge_self fl_err [of x]] by (simp only: abs_of_nonneg)
  then show ?thesis by linarith
qed

text \<open>
  What a refill may add, in exact arithmetic: the capacity times the elapsed share of the
  window, and the rounding of three operations.
\<close>

lemma refill_error:
  assumes "0 \<le> C" "C < 2 ^ 31" "0 \<le> tok" "tok \<le> of_int C" "0 < el" "el < minute"
  shows "f_add tok (f_mul (f_of_int C) (f_div (f_of_int el) (f_of_int minute)))
    \<le> tok + of_int C * of_int el / of_int minute + 1 / 2 ^ 19"
proof -
  let ?e = "1 / 2 ^ 53 :: rat" and ?c = "of_int C :: rat" and ?q = "of_int el / of_int minute :: rat"
  have c: "0 \<le> ?c" "?c \<le> 2 ^ 31" using assms(1,2) by (auto simp: of_int_le_iff)
  have q: "0 \<le> ?q" "?q \<le> 1" using assms(5,6) by (auto simp: minute_def divide_le_eq_1)
  have ints: "f_of_int C = ?c" "f_of_int el = of_int el" "f_of_int minute = of_int minute"
    using assms by (simp_all add: minute_def)
  define q' where "q' = fl ?q"
  have q': "0 \<le> q'" "q' \<le> ?q + ?e" "q' \<le> 1"
    using fl_upper [OF q(1)] q fl_le_int [of ?q 1] by (auto simp: q'_def)
  have cq: "0 \<le> ?c * q'" "?c * q' \<le> ?c * ?q + 2 ^ 31 * ?e" "?c * q' \<le> 2 ^ 31"
  proof -
    show "0 \<le> ?c * q'" using c q' by simp
    have "?c * q' \<le> ?c * (?q + ?e)" using c q' by (intro mult_left_mono) auto
    also have "\<dots> \<le> ?c * ?q + 2 ^ 31 * ?e" using c by (simp add: distrib_left)
    finally show "?c * q' \<le> ?c * ?q + 2 ^ 31 * ?e" .
    have "?c * q' \<le> 2 ^ 31 * 1" using c q' by (intro mult_mono) auto
    then show "?c * q' \<le> 2 ^ 31" by simp
  qed
  define p where "p = fl (?c * q')"
  have p: "0 \<le> p" "p \<le> ?c * ?q + 2 ^ 31 * ?e + 2 ^ 31 * ?e" "p \<le> 2 ^ 32"
  proof -
    show "0 \<le> p" using cq(1) by (simp add: p_def)
    have "p \<le> ?c * q' + ?c * q' / 2 ^ 53" using fl_upper [OF cq(1)] by (simp add: p_def)
    also have "\<dots> \<le> ?c * q' + 2 ^ 31 * ?e" using divide_right_mono [OF cq(3), of "2 ^ 53"] by simp
    finally have u: "p \<le> ?c * q' + 2 ^ 31 * ?e" .
    then show "p \<le> ?c * ?q + 2 ^ 31 * ?e + 2 ^ 31 * ?e" using cq(2) by linarith
    show "p \<le> 2 ^ 32" using u cq(3) by simp
  qed
  have "fl (tok + p) \<le> tok + p + (tok + p) / 2 ^ 53" using assms(3) p(1) by (intro fl_upper) simp
  also have "\<dots> \<le> tok + p + 2 ^ 33 * ?e" using assms(4) c p(3) by (simp add: field_simps)
  also have "\<dots> \<le> tok + ?c * ?q + 1 / 2 ^ 19" using p(2) by simp
  finally show ?thesis by (simp add: f_add_def f_mul_def f_div_def ints flip: q'_def p_def)
qed

text \<open>Spending a token rounds up by little and stays inside the bucket.\<close>

lemma spend_token:
  assumes "1 \<le> t" "t \<le> of_int C" "0 \<le> C" "C < 2 ^ 31"
  shows "f_sub t 1 \<le> t - 1 + 1 / 2 ^ 19 \<and> 0 \<le> f_sub t 1 \<and> f_sub t 1 \<le> of_int C"
proof -
  have C': "(of_int C :: rat) \<le> 2 ^ 31" using assms(4) of_int_le_iff [of C "2 ^ 31"] by simp
  have "fl (t - 1) \<le> (t - 1) + (t - 1) / 2 ^ 53" using assms(1) by (intro fl_upper) simp
  moreover have "(t - 1) / 2 ^ 53 \<le> 2 ^ 31 / 2 ^ 53" using assms(2) C' by (intro divide_right_mono, linarith) simp
  moreover have "(2::rat) ^ 31 / 2 ^ 53 \<le> 1 / 2 ^ 19" by simp
  ultimately have "fl (t - 1) \<le> t - 1 + 1 / 2 ^ 19" by linarith
  moreover have "fl (t - 1) \<le> of_int C" using assms by (intro fl_le_int) auto
  ultimately show ?thesis using assms(1) by (simp add: f_sub_def)
qed

text \<open>A refill keeps the bucket's size and lets in what flows at its rate, and nothing the first time.\<close>

lemma bucket_refill_ok: "bucket_ok C b \<Longrightarrow> bucket_ok C (bucket_refill now b)"
  by (auto simp: bucket_ok_def bucket_refill_def Let_def f_add_def f_mul_def f_div_def f_of_int_def
      minute_def intro!: fl_nonneg add_nonneg_nonneg mult_nonneg_nonneg divide_nonneg_nonneg)

lemma bucket_refill_first:
  "tb_last b = 0 \<Longrightarrow> 0 < now \<Longrightarrow> tb_last (bucket_refill now b) = now \<and> tb_tokens (bucket_refill now b) = tb_tokens b"
  by (simp add: bucket_refill_def time_is_zero_def time_sub_def min_i64_def max_i64_def Let_def)

lemma bucket_refill_later:
  assumes "bucket_ok C b" "tb_last b \<noteq> 0" "b1 = bucket_refill now b"
  shows "tb_last b \<le> tb_last b1 \<and> tb_last b1 \<le> max (tb_last b) now \<and>
    tb_tokens b1 \<le> tb_tokens b + of_int C * of_int (tb_last b1 - tb_last b) / of_int minute + 1 / 2 ^ 19"
proof (cases "tb_last b < now")
  case False
  then have "b1 = b" using assms(2,3) time_sub_pos_iff [of now "tb_last b"]
    by (simp add: bucket_refill_def time_is_zero_def Let_def)
  then show ?thesis by simp
next
  case True
  let ?el = "time_sub now (tb_last b)" and ?gain = "of_int C * of_int (now - tb_last b) / of_int minute :: rat"
  have C: "tb_capacity b = C" "0 \<le> C" "C < 2 ^ 31" "tb_window b = minute" "0 \<le> tb_tokens b" "tb_tokens b \<le> of_int C"
    using assms(1) by (simp_all add: bucket_ok_def)
  have el: "0 < ?el" using True by (simp add: time_sub_pos_iff)
  have fC: "f_of_int C = of_int C" using C by simp
  have b1: "tb_last b1 = now" "tb_tokens b1 = min (of_int C)
      (f_add (tb_tokens b) (f_mul (f_of_int C) (f_div (f_of_int ?el) (f_of_int minute))))"
    using assms(2) el by (auto simp: assms(3) bucket_refill_def time_is_zero_def Let_def C fC min_def)
  have "tb_tokens b1 \<le> tb_tokens b + ?gain + 1 / 2 ^ 19"
  proof (cases "now - tb_last b < minute")
    case short: True
    with True have "?el = now - tb_last b" by (auto simp: time_sub_def minute_def min_i64_def max_i64_def)
    then show ?thesis using refill_error [OF C(2,3,5,6) el] short b1(2) by simp
  next
    case False
    have "(of_int C :: rat) * of_int minute \<le> of_int C * of_int (now - tb_last b)"
      using False C(2) by (intro mult_left_mono) (simp_all only: of_int_le_iff of_int_0_le_iff not_less)
    then have "(of_int C :: rat) \<le> ?gain" by (simp add: minute_def field_simps)
    then show ?thesis using b1(2) C(5) by (simp add: min_def)
  qed
  then show ?thesis using b1(1) True by simp
qed

text \<open>A take with the capacity \<open>C\<close>: what it grants, and the tokens and the clock it leaves.\<close>

lemma bucket_take_step:
  assumes "bucket_ok C b" "0 < now" "bucket_take now b = (granted, b')"
  shows "bucket_ok C b'"
    and "tb_last b \<noteq> 0 \<Longrightarrow> tb_last b \<le> tb_last b' \<and> tb_last b' \<le> max (tb_last b) now \<and>
      (if granted then 1 else 0) + tb_tokens b'
        \<le> tb_tokens b + of_int C * of_int (tb_last b' - tb_last b) / of_int minute + 1 / 2 ^ 18"
    and "tb_last b = 0 \<Longrightarrow> (granted \<longrightarrow> tb_last b' = now) \<and> (tb_last b' = 0 \<or> tb_last b' = now) \<and>
      (if granted then 1 else 0) + tb_tokens b' \<le> tb_tokens b + 1 / 2 ^ 18"
proof -
  define b1 where "b1 = bucket_refill now b"
  have C: "tb_capacity b = C" "0 \<le> C" "C < 2 ^ 31" using assms(1) by (simp_all add: bucket_ok_def)
  have ok1: "bucket_ok C b1" unfolding b1_def by (rule bucket_refill_ok [OF assms(1)])
  have out: "b' = (if granted then b1\<lparr>tb_tokens := f_sub (tb_tokens b1) 1\<rparr> else if C = 0 then b else b1)"
    "granted \<Longrightarrow> 1 \<le> tb_tokens b1"
    using assms(3) C(1) by (auto simp: bucket_take_def b1_def Let_def split: if_splits)
  have "tb_tokens b1 \<le> of_int C" using ok1 by (simp add: bucket_ok_def)
  note s = spend_token [OF out(2) this C(2,3)]
  show "bucket_ok C b'" using out(1) s ok1 assms(1) by (auto simp: bucket_ok_def)
  show "tb_last b \<noteq> 0 \<Longrightarrow> tb_last b \<le> tb_last b' \<and> tb_last b' \<le> max (tb_last b) now \<and>
      (if granted then 1 else 0) + tb_tokens b'
        \<le> tb_tokens b + of_int C * of_int (tb_last b' - tb_last b) / of_int minute + 1 / 2 ^ 18"
    using out(1) s bucket_refill_later [OF assms(1) _ b1_def] by (auto split: if_splits)
  show "tb_last b = 0 \<Longrightarrow> (granted \<longrightarrow> tb_last b' = now) \<and> (tb_last b' = 0 \<or> tb_last b' = now) \<and>
      (if granted then 1 else 0) + tb_tokens b' \<le> tb_tokens b + 1 / 2 ^ 18"
    using out(1) s bucket_refill_first [OF _ assms(2), of b, folded b1_def] by (auto split: if_splits)
qed

text \<open>
  The account of a bucket since \<open>t0\<close>: \<open>n\<close> grants in \<open>k\<close> takes, the last of them before \<open>T\<close>,
  and the tokens left never exceed a full bucket and what has flowed in.
\<close>

definition account :: "int \<Rightarrow> gtime \<Rightarrow> gtime \<Rightarrow> nat \<Rightarrow> nat \<Rightarrow> token_bucket \<Rightarrow> bool" where
  "account C t0 T n k b \<longleftrightarrow> bucket_ok C b \<and> 0 < t0 \<and> tb_last b \<le> T \<and> t0 \<le> T \<and> (tb_last b = 0 \<or> t0 \<le> tb_last b) \<and>
     of_nat n + tb_tokens b
       \<le> of_int C + of_int C * of_int (max t0 (tb_last b) - t0) / of_int minute + of_nat k / 2 ^ 18"

lemma gain_mono:
  "0 \<le> C \<Longrightarrow> a \<le> (b::int) \<Longrightarrow> of_int C * of_int a / of_int minute \<le> (of_int C * of_int b / of_int minute :: rat)"
  by (intro divide_right_mono mult_left_mono) (simp_all add: minute_def)

lemma account_take:
  assumes a: "account C t0 T n k b" and now: "t0 \<le> now" "now \<le> T" and t: "bucket_take now b = (granted, b')"
  shows "account C t0 T (n + (if granted then 1 else 0)) (Suc k) b'"
proof -
  have ok: "bucket_ok C b" and pos: "0 < now" and C: "0 \<le> C" using a now by (auto simp: account_def bucket_ok_def)
  note s = bucket_take_step [OF ok pos t]
  let ?g = "if granted then 1 else 0 :: rat"
  let ?gain = "\<lambda>x. of_int C * of_int x / of_int minute :: rat"
  have cnt: "of_nat (n + (if granted then 1 else 0)) = (of_nat n + ?g :: rat)" by simp
  have k: "(of_nat (Suc k) :: rat) / 2 ^ 18 = of_nat k / 2 ^ 18 + 1 / 2 ^ 18" by (simp add: add_divide_distrib)
  have base: "of_nat n + tb_tokens b \<le> of_int C + ?gain (max t0 (tb_last b) - t0) + of_nat k / 2 ^ 18"
    using a by (simp add: account_def)
  show ?thesis
  proof (cases "tb_last b = 0")
    case True
    have l: "tb_last b' = 0 \<or> tb_last b' = now" and i: "?g + tb_tokens b' \<le> tb_tokens b + 1 / 2 ^ 18"
      using s(3) True by blast+
    have "?gain (max t0 (tb_last b) - t0) \<le> ?gain (max t0 (tb_last b') - t0)"
      using C True a l now by (intro gain_mono) (auto simp: account_def)
    then have "of_nat n + ?g + tb_tokens b' \<le> of_int C + ?gain (max t0 (tb_last b') - t0) + (of_nat k / 2 ^ 18 + 1 / 2 ^ 18)"
      using base i by linarith
    then show ?thesis
      using a now l s(1) unfolding account_def cnt k by auto
  next
    case False
    have l: "tb_last b \<le> tb_last b'" "tb_last b' \<le> max (tb_last b) now"
      and i: "?g + tb_tokens b' \<le> tb_tokens b + ?gain (tb_last b' - tb_last b) + 1 / 2 ^ 18"
      using s(2) False by blast+
    have t0: "t0 \<le> tb_last b" using a False by (simp add: account_def)
    have "?gain (max t0 (tb_last b) - t0) + ?gain (tb_last b' - tb_last b) = ?gain (max t0 (tb_last b') - t0)"
      using t0 l(1) by (simp add: max_def diff_divide_distrib algebra_simps flip: add_divide_distrib)
    then have "of_nat n + ?g + tb_tokens b' \<le> of_int C + ?gain (max t0 (tb_last b') - t0) + (of_nat k / 2 ^ 18 + 1 / 2 ^ 18)"
      using base i by linarith
    then show ?thesis
      using a now l t0 s(1) unfolding account_def cnt k by auto
  qed
qed

lemma account_more_takes: "account C t0 T n k b \<Longrightarrow> k \<le> k' \<Longrightarrow> n' \<le> n \<Longrightarrow> account C t0 T n' k' b"
proof -
  assume a: "account C t0 T n k b" and k: "k \<le> k'" and n: "n' \<le> n"
  have "(of_nat k :: rat) / 2 ^ 18 \<le> of_nat k' / 2 ^ 18" using k by (intro divide_right_mono) simp_all
  moreover have "(of_nat n' :: rat) \<le> of_nat n" using n by simp
  ultimately show ?thesis using a unfolding account_def by linarith
qed

lemma account_configure: "account C t0 T n k b \<Longrightarrow> account C t0 T n k (bucket_configure C minute b)"
  by (auto simp: account_def bucket_ok_def bucket_configure_def Let_def not_less)

lemma evict_loop_account:
  assumes "account C t0 T (n + length (rs_evicted res)) k (em_budget m)" and "t0 \<le> now" "now \<le> T"
    and "evict_loop api Q cfg now vs seen (m, res) = (m', res')"
  shows "account C t0 T (n + length (rs_evicted res')) (k + length vs) (em_budget m')"
  using assms
proof (induction vs arbitrary: seen m res k)
  case (Cons v vs)
  let ?key = "verdict_key v"
  obtain granted b where t: "bucket_take now (em_budget m) = (granted, b)" by fastforce
  note a = account_take [OF Cons.prems(1-3) t]
  consider (dup) "?key \<in> set seen" | (vetoed) "?key \<notin> set seen" "veto Q (em_recent m) v now \<noteq> []"
    | (dry) "?key \<notin> set seen" "veto Q (em_recent m) v now = []" "\<not> granted"
    | (taken) "?key \<notin> set seen" "veto Q (em_recent m) v now = []" "granted"
    by blast
  then show ?case
  proof cases
    case dup
    then show ?thesis
      using Cons.IH [of res "Suc k" m seen] account_more_takes [OF Cons.prems(1), of "Suc k"] Cons.prems by simp
  next
    case vetoed
    let ?r = "suppress (veto Q (em_recent m) v now) res"
    have "account C t0 T (n + length (rs_evicted ?r)) (Suc k) (em_budget m)"
      using account_more_takes [OF Cons.prems(1), of "Suc k"] by simp
    then show ?thesis using Cons.IH [of ?r "Suc k" m "?key # seen"] vetoed Cons.prems by (simp add: Let_def)
  next
    case dry
    then have "em_budget m' = b" "rs_evicted res' = rs_evicted res" using Cons.prems(4) t by (auto simp: Let_def)
    then show ?thesis using account_more_takes [OF a] dry by simp
  next
    case taken
    define st1 where "st1 = evict_allowed api Q cfg now v (m\<lparr>em_budget := b\<rparr>, res)"
    note e = evict_allowed_cases(1) [OF st1_def]
    have b: "em_budget (fst st1) = b" and len: "length (rs_evicted (snd st1)) \<le> Suc (length (rs_evicted res))"
      using e by (auto split: if_splits)
    have "account C t0 T (n + length (rs_evicted (snd st1))) (Suc k) (em_budget (fst st1))"
      using account_more_takes [OF a order_refl] taken(3) len b by simp
    then show ?thesis
      using Cons.IH [of "snd st1" "Suc k" "fst st1" "?key # seen"] Cons.prems taken t by (simp add: st1_def Let_def)
  qed
qed simp

section \<open>Sequences of passes\<close>

text \<open>
  The manager driven by its ticks. A tick advances the clock and runs a pass; the history
  records the evictions with their times, the number of proposals, and for every pass the pressure
  level, or \<^const>\<open>None\<close> where the pass returned before it looked at the level, being disabled or given
  a degraded sample.
\<close>

record 'q tick =
  tk_dt :: duration
  tk_signal :: "'q signal"
  tk_api :: "'q evict_api"

record 'q history =
  hi_mgr :: "'q eviction_manager"
  hi_clock :: gtime
  hi_evicted :: "(gtime \<times> string) list"
  hi_proposed :: nat
  hi_tracked :: "(gtime \<times> pressure_level option) list"

definition looked :: "'q signal \<Rightarrow> bool" where
  "looked sig \<longleftrightarrow> ec_enabled (sg_config sig) \<and> \<not> ns_degraded (sg_sample sig)"

definition tick_run :: "'q quantity_ops \<Rightarrow> 'q tick \<Rightarrow> 'q history \<Rightarrow> 'q history" where
  "tick_run Q e h =
     (let now = hi_clock h + tk_dt e; sig = tk_signal e
      in case manager_Run (tk_api e) Q sig now (hi_mgr h) of (m', res) \<Rightarrow>
        \<lparr>hi_mgr = m', hi_clock = now,
         hi_evicted = hi_evicted h @ map (\<lambda>v. (now, verdict_key v)) (rs_evicted res),
         hi_proposed = hi_proposed h + rs_proposed res,
         hi_tracked = hi_tracked h @ [(now, if looked sig then Some (np_level (rc_pressure (sg_rec sig))) else None)]\<rparr>)"

lemma tick_run_fields:
  assumes "manager_Run (tk_api e) Q (tk_signal e) (hi_clock h + tk_dt e) (hi_mgr h) = (m', res)"
  shows "hi_mgr (tick_run Q e h) = m'" "hi_clock (tick_run Q e h) = hi_clock h + tk_dt e"
    "hi_evicted (tick_run Q e h) = hi_evicted h @ map (\<lambda>v. (hi_clock h + tk_dt e, verdict_key v)) (rs_evicted res)"
    "hi_proposed (tick_run Q e h) = hi_proposed h + rs_proposed res"
    "hi_tracked (tick_run Q e h) = hi_tracked h @ [(hi_clock h + tk_dt e,
       if looked (tk_signal e) then Some (np_level (rc_pressure (sg_rec (tk_signal e)))) else None)]"
  using assms by (simp_all add: tick_run_def Let_def)

definition start_history :: "gtime \<Rightarrow> 'q eviction_manager \<Rightarrow> 'q history" where
  "start_history t0 m = \<lparr>hi_mgr = m, hi_clock = t0, hi_evicted = [], hi_proposed = 0, hi_tracked = []\<rparr>"

lemma manager_Run_account:
  assumes "manager_Run api Q sig now m = (m', res)" and "account C t0 T n k (em_budget m)" "t0 \<le> now" "now \<le> T"
    and "ec_max_per_minute (sg_config sig) = C"
  shows "account C t0 T (n + length (rs_evicted res)) (k + rs_proposed res) (em_budget m')"
  using assms(1)
proof (cases rule: manager_Run_cases)
  case off
  then show ?thesis using assms(2) by (simp add: quiet_def)
next
  case idle
  then show ?thesis using account_more_takes [OF assms(2)] by (simp add: quiet_def)
next
  case (active m3)
  have "rs_proposed res = length (proposals sig (em_plugins m))"
    using active(4) by (rule active_loop)
  moreover have "account C t0 T (n + length (rs_evicted res)) (k + length (proposals sig (em_plugins m))) (em_budget m3)"
    using evict_loop_account [of C t0 T n "snd (loop_start sig now m)" k "fst (loop_start sig now m)" now api Q
        "sg_config sig" "proposals sig (em_plugins m)" "[]" m3 res]
      account_configure [OF assms(2)] assms(3-5) active(4) by simp
  ultimately show ?thesis using active(5) by simp
qed

lemma manager_Run_recent:
  assumes "manager_Run api Q sig now m = (m', res)"
  shows "(rs_evicted res = [] \<and> em_recent m' = em_recent m) \<or>
    em_recent m' = gcRecent now (\<lambda>k. if k \<in> verdict_key ` set (rs_evicted res) then Some now else em_recent m k)"
  using assms
proof (cases rule: manager_Run_cases)
  case (active m3)
  have "em_recent m3 = (\<lambda>k. if k \<in> verdict_key ` set (rs_evicted res) then Some now else em_recent m k)"
    using active(4) by (rule active_loop)
  then show ?thesis using active(5) by simp
qed (simp_all add: quiet_def)

lemma manager_Run_breach:
  assumes "manager_Run api Q sig now m = (m', res)"
  shows "em_breached_since m' = em_breached_since (if looked sig then trackBreach sig now m else m)"
  using assms
proof (cases rule: manager_Run_cases)
  case (active m3)
  have "em_breached_since m3 = em_breached_since (trackBreach sig now m)"
    using active(4) by (rule active_loop)
  then show ?thesis using active(1,2,5) by (simp add: looked_def)
qed (auto simp add: looked_def)

lemma account_later: "account C t0 T n k b \<Longrightarrow> T \<le> T' \<Longrightarrow> account C t0 T' n k b"
  by (simp add: account_def)

definition rate_inv :: "int \<Rightarrow> gtime \<Rightarrow> 'q history \<Rightarrow> bool" where
  "rate_inv C t0 h \<longleftrightarrow> t0 \<le> hi_clock h \<and>
     account C t0 (hi_clock h) (length (hi_evicted h)) (hi_proposed h) (em_budget (hi_mgr h))"

interpretation rate: transition_system "tick_run Q" "rate_inv C t0"
  "\<lambda>e. 0 \<le> tk_dt e \<and> ec_max_per_minute (sg_config (tk_signal e)) = C" for Q C t0
proof
  fix h :: "'a history" and e :: "'a tick"
  assume h: "rate_inv C t0 h" and e: "0 \<le> tk_dt e \<and> ec_max_per_minute (sg_config (tk_signal e)) = C"
  obtain m' res where r: "manager_Run (tk_api e) Q (tk_signal e) (hi_clock h + tk_dt e) (hi_mgr h) = (m', res)"
    by fastforce
  have "account C t0 (hi_clock h + tk_dt e) (length (hi_evicted h)) (hi_proposed h) (em_budget (hi_mgr h))"
    using h e account_later by (auto simp: rate_inv_def)
  then show "rate_inv C t0 (tick_run Q e h)"
    using manager_Run_account [OF r] h e by (simp add: rate_inv_def tick_run_fields [OF r])
qed

text \<open>
  C14. The rate limit holds over any sequence of passes, whatever the plugins propose and however
  the API answers: with a limit of \<open>C\<close> evictions per minute, at most \<open>C\<close> at once plus \<open>C\<close> for
  every minute that passes, up to a rounding error of one eviction in 262144 proposals.
\<close>

theorem eviction_rate:
  assumes "bucket_ok C (em_budget m)" and "0 < t0" "tb_last (em_budget m) \<in> {0, t0}"
    and "\<forall>e \<in> set es. 0 \<le> tk_dt e \<and> ec_max_per_minute (sg_config (tk_signal e)) = C"
    and "h = fold (tick_run Q) es (start_history t0 m)"
  shows "(of_nat (length (hi_evicted h)) :: rat)
    \<le> of_int C + of_int C * of_int (hi_clock h - t0) / of_int minute + of_nat (hi_proposed h) / 2 ^ 18"
proof -
  have "rate_inv C t0 (start_history t0 m)"
    using assms(1-3) by (auto simp: rate_inv_def account_def start_history_def bucket_ok_def)
  then have inv: "rate_inv C t0 h" unfolding assms(5) using assms(4) by (rule rate.run_inv)
  have "of_int C * of_int (max t0 (tb_last (em_budget (hi_mgr h))) - t0) / of_int minute
      \<le> (of_int C * of_int (hi_clock h - t0) / of_int minute :: rat)"
    using inv by (intro gain_mono) (auto simp: rate_inv_def account_def bucket_ok_def)
  moreover have "0 \<le> tb_tokens (em_budget (hi_mgr h))" using inv by (simp add: rate_inv_def account_def bucket_ok_def)
  ultimately show ?thesis using inv unfolding rate_inv_def account_def by linarith
qed

definition spaced_inv :: "'q history \<Rightarrow> bool" where
  "spaced_inv h \<longleftrightarrow>
     (\<forall>(t, k) \<in> set (hi_evicted h). t \<le> hi_clock h \<and>
        (hi_clock h - t \<le> 10 * minute \<longrightarrow> (\<exists>t'. em_recent (hi_mgr h) k = Some t' \<and> t \<le> t'))) \<and>
     sorted_wrt (\<lambda>(t, k) (t', k'). k = k' \<longrightarrow> t + 2 * minute \<le> t') (hi_evicted h)"

lemma gcRecent_keeps: "now - t \<le> 10 * minute \<Longrightarrow> r k = Some t \<Longrightarrow> gcRecent now r k = Some t"
  using time_sub_greater_iff [of "10 * minute" now t]
  by (auto simp: gcRecent_def minute_def min_i64_def max_i64_def)

interpretation spaced: transition_system "tick_run Q" spaced_inv "\<lambda>e. 0 \<le> tk_dt e" for Q
proof
  fix h :: "'a history" and e :: "'a tick"
  assume h: "spaced_inv h" and e: "0 \<le> tk_dt e"
  define now where "now = hi_clock h + tk_dt e"
  obtain m' res where r: "manager_Run (tk_api e) Q (tk_signal e) now (hi_mgr h) = (m', res)"
    by fastforce
  let ?keys = "verdict_key ` set (rs_evicted res)"
  obtain tried where t: "run_adds (tk_api e) Q (tk_signal e) now (hi_mgr h) m' res tried"
    using manager_Run_adds [OF r] by blast
  have ev: "set (rs_evicted res) \<subseteq> set tried" "distinct (map verdict_key (rs_evicted res))"
    using t unfolding run_adds_def by (auto simp: distinct_map_filter)
  have old: "t \<le> now \<and> (now - t \<le> 10 * minute \<longrightarrow> (\<exists>t'. em_recent (hi_mgr h) k = Some t' \<and> t \<le> t'))"
    if "(t, k) \<in> set (hi_evicted h)" for t k
    using h that e by (force simp: spaced_inv_def now_def)
  have m': "\<exists>t'. em_recent m' k = Some t' \<and> t \<le> t'"
    if "(t, k) \<in> set (hi_evicted h) \<or> t = now \<and> k \<in> ?keys" "now - t \<le> 10 * minute" for t k
  proof (cases "k \<in> ?keys")
    case True
    then have "em_recent m' = gcRecent now (\<lambda>k. if k \<in> ?keys then Some now else em_recent (hi_mgr h) k)"
      using manager_Run_recent [OF r] by auto
    then have "em_recent m' k = Some now" using True by (simp add: gcRecent_keeps minute_def)
    then show ?thesis using that(1) old by auto
  next
    case False
    then have "(t, k) \<in> set (hi_evicted h)" using that(1) by blast
    then have "\<exists>t'. em_recent (hi_mgr h) k = Some t' \<and> t \<le> t'" using old that(2) by blast
    then obtain t' where t': "em_recent (hi_mgr h) k = Some t'" "t \<le> t'" by blast
    then have "now - t' \<le> 10 * minute" using that(2) by linarith
    then have "em_recent m' k = Some t'"
      using manager_Run_recent [OF r] False t'(1) by (auto simp: gcRecent_keeps)
    then show ?thesis using t'(2) by blast
  qed
  have gap: "t + 2 * minute \<le> now" if "(t, verdict_key v) \<in> set (hi_evicted h)" "v \<in> set (rs_evicted res)" for t v
  proof (cases "now - t \<le> 10 * minute")
    case True
    then have "\<exists>t'. em_recent (hi_mgr h) (verdict_key v) = Some t' \<and> t \<le> t'" using old [OF that(1)] by blast
    then obtain t' where "em_recent (hi_mgr h) (verdict_key v) = Some t'" "t \<le> t'" by blast
    moreover have "may_evict Q (em_recent (hi_mgr h)) now (vd_pod v)" using t that(2) ev(1) by (auto simp: run_adds_def)
    ultimately show ?thesis by (simp add: may_evict_def)
  qed (simp add: minute_def)
  have new: "sorted_wrt (\<lambda>(t, k) (t', k'). k = k' \<longrightarrow> t + 2 * minute \<le> t') (map (\<lambda>v. (now, verdict_key v)) (rs_evicted res))"
    using ev(2) by (simp add: sorted_wrt_map distinct_map sorted_wrt_iff_nth_less distinct_conv_nth)
  show "spaced_inv (tick_run Q e h)"
    unfolding spaced_inv_def tick_run_fields [OF r [unfolded now_def]] sorted_wrt_append
    using h old m' gap new unfolding spaced_inv_def now_def [symmetric] by auto
qed

text \<open>
  C26. No pod is told to go twice within two minutes, over any sequence of passes on a clock that
  does not go backwards: two evictions under the same name are at least that far apart, even
  after the manager has forgotten the first.
\<close>

theorem eviction_spacing:
  assumes "\<forall>e \<in> set es. 0 \<le> tk_dt e" and "h = fold (tick_run Q) es (start_history t0 m)"
  shows "sorted_wrt (\<lambda>(t, k) (t', k'). k = k' \<longrightarrow> t + 2 * minute \<le> t') (hi_evicted h)"
proof -
  have "spaced_inv (start_history t0 m)" by (simp add: spaced_inv_def start_history_def)
  then have "spaced_inv h" unfolding assms(2) using assms(1) by (rule spaced.run_inv)
  then show ?thesis by (simp add: spaced_inv_def)
qed

text \<open>No pass of a stretch saw the node free of pressure: each saw some, or did not look.\<close>

definition stressed :: "(gtime \<times> pressure_level option) list \<Rightarrow> bool" where
  "stressed xs \<longleftrightarrow> (\<forall>x \<in> set xs. snd x \<noteq> Some PressureNone)"

definition breach_inv :: "'q history \<Rightarrow> bool" where
  "breach_inv h \<longleftrightarrow> 0 < hi_clock h \<and>
     (em_breached_since (hi_mgr h) \<noteq> 0 \<longrightarrow>
       (\<exists>pre l suf. hi_tracked h = pre @ (em_breached_since (hi_mgr h), Some l) # suf \<and>
          l \<noteq> PressureNone \<and> stressed suf))"

interpretation breach: transition_system "tick_run Q" breach_inv "\<lambda>e. 0 \<le> tk_dt e" for Q
proof
  fix h :: "'a history" and e :: "'a tick"
  assume h: "breach_inv h" and e: "0 \<le> tk_dt e"
  define now where "now = hi_clock h + tk_dt e"
  define lvl where "lvl = np_level (rc_pressure (sg_rec (tk_signal e)))"
  obtain m' res where r: "manager_Run (tk_api e) Q (tk_signal e) now (hi_mgr h) = (m', res)"
    by fastforce
  note f = tick_run_fields [OF r [unfolded now_def]]
  let ?b = "em_breached_since (hi_mgr h)"
  have now: "0 < now" using h e by (simp add: breach_inv_def now_def)
  have b': "em_breached_since m' = (if \<not> looked (tk_signal e) then ?b
      else if lvl = PressureNone then 0 else if ?b = 0 then now else ?b)"
    using manager_Run_breach [OF r] by (simp add: trackBreach_def lvl_def time_is_zero_def)
  have "\<exists>pre l suf. hi_tracked (tick_run Q e h) = pre @ (em_breached_since m', Some l) # suf \<and>
      l \<noteq> PressureNone \<and> stressed suf" if "em_breached_since m' \<noteq> 0"
  proof (cases "?b = 0")
    case True
    then show ?thesis
      using that b' by (intro exI [of _ "hi_tracked h"] exI [of _ lvl] exI [of _ "[]"])
        (auto simp: f stressed_def lvl_def now_def split: if_splits)
  next
    case False
    then obtain pre l suf where "hi_tracked h = pre @ (?b, Some l) # suf" "l \<noteq> PressureNone" "stressed suf"
      using h by (auto simp: breach_inv_def)
    then show ?thesis
      using that b' False
      by (intro exI [of _ pre] exI [of _ l] exI [of _ "suf @ [(now, if looked (tk_signal e) then Some lvl else None)]"])
         (auto simp: f stressed_def lvl_def now_def split: if_splits)
  qed
  then show "breach_inv (tick_run Q e h)" using now by (simp add: breach_inv_def f now_def)
qed

lemma stabilisation_exact: "0 \<le> n \<Longrightarrow> n < 2 ^ 31 \<Longrightarrow> i64 (n * second) = n * second"
  by (intro i64_id in_i64I) (simp_all add: second_def)

text \<open>
  C28. What the stabilisation period waits for. A pass that evicts comes at least the period after a pass
  that saw pressure, and of all passes since that one none saw the node free of pressure: each either
  saw pressure or returned before it looked, being disabled or given a degraded sample. So a single bad
  sample never evicts, and a recovery that a pass measures restarts the wait; a recovery that falls into
  disabled or degraded passes does not.
\<close>

theorem eviction_waits:
  assumes "0 < t0" "\<forall>e \<in> set (es @ [e]). 0 \<le> tk_dt e"
    and "h = fold (tick_run Q) es (start_history t0 (eviction_NewManager recorder plugins))"
    and "hi_evicted (tick_run Q e h) \<noteq> hi_evicted h"
    and "0 < ec_stabilisation (sg_config (tk_signal e))" "ec_stabilisation (sg_config (tk_signal e)) < 2 ^ 31"
  shows "\<exists>pre t l suf. hi_tracked (tick_run Q e h) = pre @ (t, Some l) # suf \<and> l \<noteq> PressureNone \<and> stressed suf \<and>
    t + ec_stabilisation (sg_config (tk_signal e)) * second \<le> hi_clock (tick_run Q e h)"
proof -
  let ?now = "hi_clock h + tk_dt e" and ?wait = "ec_stabilisation (sg_config (tk_signal e)) * second"
  let ?h' = "tick_run Q e h"
  obtain m' res where r: "manager_Run (tk_api e) Q (tk_signal e) ?now (hi_mgr h) = (m', res)" by fastforce
  note f = tick_run_fields [OF r]
  have "breach_inv (start_history t0 (eviction_NewManager recorder plugins))"
    using assms(1) by (simp add: breach_inv_def start_history_def eviction_NewManager_def)
  then have "breach_inv h" unfolding assms(3) using assms(2) by (intro breach.run_inv) auto
  then have inv: "breach_inv ?h'" using assms(2) by (intro breach.step_inv) auto
  obtain tried where t: "run_adds (tk_api e) Q (tk_signal e) ?now (hi_mgr h) m' res tried"
    using manager_Run_adds [OF r] by blast
  have "tried \<noteq> []" using t assms(4) by (auto simp: run_adds_def f)
  then have w: "waited (sg_config (tk_signal e)) ?now (trackBreach (tk_signal e) ?now (hi_mgr h))"
    and l: "looked (tk_signal e)" using t by (simp_all add: run_adds_def looked_def)
  have b: "em_breached_since m' = em_breached_since (trackBreach (tk_signal e) ?now (hi_mgr h))"
    using manager_Run_breach [OF r] l by simp
  have pos: "0 < ?wait" using assms(5) by (simp add: second_def)
  have nz: "em_breached_since m' \<noteq> 0" and le: "?wait \<le> time_sub ?now (em_breached_since m')"
    using w pos b assms(5,6) by (simp_all add: waited_def Let_def stabilisation_exact)
  have "time_sub ?now (em_breached_since m') \<le> ?now - em_breached_since m'"
    using le pos by (auto simp: time_sub_def min_i64_def max_i64_def)
  then have "em_breached_since m' + ?wait \<le> ?now" using le by linarith
  moreover obtain pre l suf where "hi_tracked ?h' = pre @ (em_breached_since m', Some l) # suf"
      "l \<noteq> PressureNone" "stressed suf"
    using nz inv unfolding breach_inv_def f(1) by blast
  ultimately show ?thesis unfolding f(2) by blast
qed

section \<open>Rejected evictions\<close>

lemma evict_allowed_same:
  "em_budget (fst (evict_allowed api Q cfg now v st)) = em_budget (fst st)"
  "k \<noteq> verdict_key v \<Longrightarrow> em_recent (fst (evict_allowed api Q cfg now v st)) k = em_recent (fst st) k"
  "calls (rs_effects (snd (evict_allowed api Q cfg now v st))) = calls (rs_effects (snd st))
     @ (if ec_dry_run cfg then [] else [(vd_pod v, ec_grace_seconds cfg)])"
  by (auto simp: evict_allowed_def Let_def emit_def split: prod.splits evict_reply.splits)

lemma evict_loop_any_api:
  assumes "em_budget (fst st1) = em_budget (fst st2)"
    and "\<forall>k. k \<notin> set seen \<longrightarrow> em_recent (fst st1) k = em_recent (fst st2) k"
    and "calls (rs_effects (snd st1)) = calls (rs_effects (snd st2))"
  shows "em_budget (fst (evict_loop api Q cfg now vs seen st1)) = em_budget (fst (evict_loop api' Q cfg now vs seen st2)) \<and>
    calls (rs_effects (snd (evict_loop api Q cfg now vs seen st1)))
      = calls (rs_effects (snd (evict_loop api' Q cfg now vs seen st2)))"
  using assms
proof (induction vs arbitrary: seen st1 st2)
  case (Cons v vs)
  obtain m1 r1 m2 r2 where st: "st1 = (m1, r1)" "st2 = (m2, r2)" by fastforce
  let ?key = "verdict_key v"
  obtain granted b where t: "bucket_take now (em_budget m1) = (granted, b)" "bucket_take now (em_budget m2) = (granted, b)"
    using Cons.prems(1) st by (metis fst_conv surj_pair)
  show ?case
  proof (cases "?key \<in> set seen")
    case True
    then show ?thesis using Cons.IH [of "(m1, r1)" "(m2, r2)" seen] Cons.prems st by simp
  next
    case fresh: False
    have "may_evict Q (em_recent m1) now (vd_pod v) = may_evict Q (em_recent m2) now (vd_pod v)"
      using Cons.prems(2) fresh st by (intro may_evict_cong) simp
    then have v: "veto Q (em_recent m1) v now = [] \<longleftrightarrow> veto Q (em_recent m2) v now = []" by (simp add: veto_none)
    show ?thesis
    proof (cases "veto Q (em_recent m1) v now = []")
      case False
      then show ?thesis
        using Cons.IH [of "(m1, suppress (veto Q (em_recent m1) v now) r1)" "(m2, suppress (veto Q (em_recent m2) v now) r2)"
            "?key # seen"] Cons.prems st v fresh by (simp add: Let_def)
    next
      case True
      then show ?thesis
        using Cons.IH [of "evict_allowed api Q cfg now v (m1\<lparr>em_budget := b\<rparr>, r1)"
            "evict_allowed api' Q cfg now v (m2\<lparr>em_budget := b\<rparr>, r2)" "?key # seen"]
          Cons.prems st v fresh t
        by (cases granted) (simp_all add: Let_def evict_allowed_same)
    qed
  qed
qed simp

definition run_passes :: "'q signal \<Rightarrow> gtime \<Rightarrow> 'q eviction_manager \<Rightarrow> bool" where
  "run_passes sig now m \<longleftrightarrow> ec_enabled (sg_config sig) \<and> \<not> ns_degraded (sg_sample sig) \<and>
     proposals sig (em_plugins m) \<noteq> [] \<and> waited (sg_config sig) now (trackBreach sig now m)"

lemma gate_iff:
  "waited cfg now m \<longleftrightarrow>
    \<not> (0 < i64 (ec_stabilisation cfg * second) \<and>
       (time_is_zero (em_breached_since m) \<or> time_sub now (em_breached_since m) < i64 (ec_stabilisation cfg * second)))"
  by (auto simp: waited_def time_is_zero_def Let_def)

lemma manager_Run_loop:
  "run_passes sig now m \<Longrightarrow> manager_Run api Q sig now m =
     (case evict_loop api Q (sg_config sig) now (proposals sig (em_plugins m)) [] (loop_start sig now m) of
        (m3, res) \<Rightarrow> (m3\<lparr>em_recent := gcRecent now (em_recent m3)\<rparr>, res))"
  unfolding run_passes_def gate_iff by (auto simp: manager_Run_def loop_start_def Let_def)

lemma manager_Run_stop: "\<not> run_passes sig now m \<Longrightarrow> manager_Run api Q sig now m = manager_Run api' Q sig now m"
  unfolding run_passes_def gate_iff by (auto simp: manager_Run_def Let_def)

text \<open>A pass that is not gated calls the API for its first proposal, if nothing vetoes it and a token is left.\<close>

lemma evict_loop_calls:
  "\<exists>xs. calls (rs_effects (snd (evict_loop api Q cfg now vs seen st))) = calls (rs_effects (snd st)) @ xs"
proof (induction vs arbitrary: seen st)
  case (Cons v vs)
  obtain m r where st: "st = (m, r)" by fastforce
  obtain granted b where t: "bucket_take now (em_budget m) = (granted, b)" by fastforce
  let ?st = "evict_allowed api Q cfg now v (m\<lparr>em_budget := b\<rparr>, r)"
  obtain xs where "calls (rs_effects (snd (evict_loop api Q cfg now vs (pod_key (vd_pod v) # seen) ?st))) = calls (rs_effects (snd ?st)) @ xs"
    using Cons.IH by blast
  then show ?case
    using Cons.IH [of seen "(m, r)"] Cons.IH [of "pod_key (vd_pod v) # seen" "(m, suppress (veto Q (em_recent m) v now) r)"] t
    by (cases granted) (simp_all add: st Let_def evict_allowed_same)
qed simp

lemma Run_calls_first:
  assumes "run_passes sig now m" "proposals sig (em_plugins m) = v # vs" "may_evict Q (em_recent m) now (vd_pod v)"
    and "bucket_take now (bucket_configure (ec_max_per_minute (sg_config sig)) minute (em_budget m)) = (True, b)"
    and "\<not> ec_dry_run (sg_config sig)"
  shows "(vd_pod v, ec_grace_seconds (sg_config sig)) \<in> set (calls (rs_effects (snd (manager_Run api Q sig now m))))"
proof -
  obtain m1 r1 where l: "loop_start sig now m = (m1, r1)" by fastforce
  then have f: "em_recent m1 = em_recent m" "calls (rs_effects r1) = []"
    "em_budget m1 = bucket_configure (ec_max_per_minute (sg_config sig)) minute (em_budget m)"
    using loop_start_fields [of sig now m] by simp_all
  have v: "veto Q (em_recent m1) v now = []" using assms(3) by (simp add: f(1) veto_none)
  let ?st = "evict_allowed api Q (sg_config sig) now v (m1\<lparr>em_budget := b\<rparr>, r1)"
  have "calls (rs_effects (snd ?st)) = [(vd_pod v, ec_grace_seconds (sg_config sig))]"
    using assms(5) by (simp add: evict_allowed_same f)
  moreover have "evict_loop api Q (sg_config sig) now (v # vs) [] (m1, r1)
      = evict_loop api Q (sg_config sig) now vs [pod_key (vd_pod v)] ?st"
    using v assms(4) by (simp add: Let_def f(3))
  ultimately show ?thesis
    using evict_loop_calls [of api Q "sg_config sig" now vs "[pod_key (vd_pod v)]" ?st]
    by (auto simp: manager_Run_loop [OF assms(1)] assms(2) l split: prod.splits)
qed

text \<open>
  A rejected eviction stops nothing: the pods a pass tries to evict, in their order, and the
  budget it spends are the same whatever the API answers, so one pod behind a disruption
  budget does not keep the manager from the next.
\<close>

theorem Run_tries_regardless:
  assumes "manager_Run api Q sig now m = (m1, res1)" and "manager_Run api' Q sig now m = (m2, res2)"
  shows "calls (rs_effects res1) = calls (rs_effects res2) \<and> em_budget m1 = em_budget m2"
proof (cases "run_passes sig now m")
  case False
  then show ?thesis using assms manager_Run_stop [of sig now m api Q api'] by simp
next
  case True
  let ?l = "\<lambda>api. evict_loop api Q (sg_config sig) now (proposals sig (em_plugins m)) [] (loop_start sig now m)"
  have "calls (rs_effects res1) = calls (rs_effects (snd (?l api)))" "em_budget m1 = em_budget (fst (?l api))"
    "calls (rs_effects res2) = calls (rs_effects (snd (?l api')))" "em_budget m2 = em_budget (fst (?l api'))"
    using assms by (auto simp: manager_Run_loop [OF True] split: prod.splits)
  then show ?thesis using evict_loop_any_api [of "loop_start sig now m" "loop_start sig now m"] by simp
qed

section \<open>A node that evicts\<close>

text \<open>
  The manager with the memory plugin alone, on the node of \<^const>\<open>example_signal\<close>: the first
  tick waits, the second, thirty seconds later, evicts the reclaimed pod.
\<close>

definition example_disabled :: "string list" where
  "example_disabled = [''cpu-suppression'', ''reclaimed-overrun'']"

definition example_manager :: "rat eviction_manager" where
  "example_manager = eviction_NewManager True (BuildPlugins (kqos_registry insertion_slice rat_quantity) example_disabled)"

definition eviction_tick :: "duration \<Rightarrow> rat tick" where
  "eviction_tick dt = \<lparr>tk_dt = dt, tk_signal = example_signal, tk_api = (\<lambda>pod g. EvictOK)\<rparr>"

definition example_verdict :: "rat verdict" where
  "example_verdict = memory_verdict 90 1000 85 (usage_of rat_quantity example_signal example_pod)"

lemma example_plugins:
  "BuildPlugins (kqos_registry insertion_slice rat_quantity) example_disabled = [memory_plugin rat_quantity]"
  by (simp add: BuildPlugins_def kqos_registry_def example_disabled_def)

lemma example_proposals: "proposals example_signal [memory_plugin rat_quantity] = [example_verdict]"
proof -
  have "memoryPressure_Evaluate rat_quantity example_signal
      = Inr (memory_take (memory_verdict 90 1000 85) 100 0 (mem_ranked rat_quantity example_signal))"
    unfolding memoryPressure_Evaluate_def quantityBytes_eq mem_ranked_def
    by (simp add: Let_def example_readings i64_def go_div_def)
  then show ?thesis
    by (simp add: proposals_def memory_plugin_def example_ranked example_usage_of i64_def example_verdict_def)
qed

lemma example_gates:
  "ec_enabled (sg_config example_signal)" "\<not> ns_degraded (sg_sample example_signal)"
  "\<not> ec_dry_run (sg_config example_signal)" "ec_stabilisation (sg_config example_signal) = 30"
  "ec_max_per_minute (sg_config example_signal) = 3"
  "np_level (rc_pressure (sg_rec example_signal)) = PressureCritical"
  by (simp_all add: example_signal_def example_eviction_config_def empty_sample_def)

lemma example_may_evict: "may_evict rat_quantity Map.empty now example_pod"
  by (simp add: may_evict_def) (simp add: example_pod_def IsMirrorPod_def IsTerminal_def MirrorPodAnnotationKey_def AnnotationQoSLevel_def)

lemma example_first:
  "0 < now \<Longrightarrow> \<exists>res. manager_Run api rat_quantity example_signal now example_manager =
     (example_manager\<lparr>em_breached_since := now\<rparr>, res) \<and> rs_evicted res = [] \<and> rs_proposed res = 1"
  by (simp add: manager_Run_def example_gates example_manager_def eviction_NewManager_def trackBreach_def
      time_is_zero_def example_plugins example_proposals stabilisation_exact Let_def time_sub_def second_def
      min_i64_def max_i64_def)
    (simp add: empty_result_def i64_def)

lemma example_second:
  assumes "0 < since" "now = since + 30 * second"
  shows "\<exists>m' res. manager_Run (\<lambda>pod g. EvictOK) rat_quantity example_signal now
      (example_manager\<lparr>em_breached_since := since\<rparr>) = (m', res) \<and> rs_evicted res = [example_verdict] \<and> rs_proposed res = 1"
proof -
  let ?m = "example_manager\<lparr>em_breached_since := since\<rparr>"
  have m: "em_plugins ?m = [memory_plugin rat_quantity]" "em_recent ?m = Map.empty" "em_budget ?m = newTokenBucket 3 minute"
    by (simp_all add: example_manager_def eviction_NewManager_def example_plugins)
  have b: "trackBreach example_signal now ?m = ?m"
    using assms by (simp add: trackBreach_def example_gates time_is_zero_def)
  have pass: "run_passes example_signal now ?m"
    using assms b m by (simp add: run_passes_def example_gates example_proposals waited_def stabilisation_exact
        time_sub_def second_def min_i64_def max_i64_def i64_def)
  have t: "\<exists>b. bucket_take now (bucket_configure 3 minute (newTokenBucket 3 minute)) = (True, b)"
    by (simp add: bucket_take_def bucket_configure_def newTokenBucket_def bucket_refill_def time_is_zero_def Let_def
        time_sub_def min_i64_def max_i64_def)
  have v: "veto rat_quantity Map.empty example_verdict now = []"
    by (simp add: veto_none example_verdict_def example_may_evict)
  obtain b where b': "bucket_take now (bucket_configure 3 minute (newTokenBucket 3 minute)) = (True, b)" using t by blast
  obtain m0 r0 where l: "loop_start example_signal now ?m = (m0, r0)" by fastforce
  then have "em_recent m0 = Map.empty" "em_budget m0 = bucket_configure 3 minute (newTokenBucket 3 minute)"
    "rs_evicted r0 = []" "rs_proposed r0 = 1"
    using loop_start_fields [of example_signal now ?m] m by (simp_all add: example_gates example_proposals)
  then show ?thesis
    unfolding manager_Run_loop [OF pass] m(1) example_proposals l
    using v b' by (simp add: evict_allowed_def Let_def example_gates split: prod.splits)
qed

theorem Run_only_allowed_witness:
  "\<exists>m' res. manager_Run (\<lambda>pod g. EvictOK) rat_quantity example_signal (40 * second)
      (example_manager\<lparr>em_breached_since := 10 * second\<rparr>) = (m', res) \<and> rs_evicted res = [example_verdict] \<and>
     map fst (calls (rs_effects res)) = [example_pod]"
proof -
  let ?m = "example_manager\<lparr>em_breached_since := 10 * second\<rparr>"
  obtain m' res where r: "manager_Run (\<lambda>pod g. EvictOK) rat_quantity example_signal (40 * second) ?m = (m', res)"
      "rs_evicted res = [example_verdict]"
    using example_second [of "10 * second" "40 * second"] by (auto simp: second_def)
  have "em_plugins ?m = BuildPlugins (kqos_registry insertion_slice rat_quantity) example_disabled"
    by (simp add: example_manager_def eviction_NewManager_def)
  then have "map vd_pod (rs_evicted res) = map fst (calls (rs_effects res))"
    using Run_only_allowed [OF r(1) insertion_slice_law] by simp
  then show ?thesis using r by (intro exI [of _ m'] exI [of _ res]) (simp add: example_verdict_def)
qed

lemma example_history:
  "\<exists>h. h = fold (tick_run rat_quantity) [eviction_tick second, eviction_tick (30 * second)] (start_history second example_manager) \<and>
     hi_evicted h = [(32 * second, pod_key example_pod)] \<and> hi_clock h = 32 * second \<and> hi_proposed h = 2 \<and>
     hi_evicted (fold (tick_run rat_quantity) [eviction_tick second] (start_history second example_manager)) = []"
proof -
  let ?t = eviction_tick
  have tick: "tk_api (?t d) = (\<lambda>pod g. EvictOK)" "tk_signal (?t d) = example_signal" "tk_dt (?t d) = d" for d
    by (simp_all add: eviction_tick_def)
  define h0 where "h0 = start_history second example_manager"
  have h0: "hi_clock h0 = second" "hi_mgr h0 = example_manager" "hi_evicted h0 = []" "hi_proposed h0 = 0"
    by (simp_all add: h0_def start_history_def)
  define h1 where "h1 = tick_run rat_quantity (?t second) h0"
  obtain r1 where r1: "manager_Run (tk_api (?t second)) rat_quantity (tk_signal (?t second)) (hi_clock h0 + tk_dt (?t second)) (hi_mgr h0)
      = (example_manager\<lparr>em_breached_since := 2 * second\<rparr>, r1)" "rs_evicted r1 = []" "rs_proposed r1 = 1"
    using example_first [of "2 * second" "\<lambda>pod g. EvictOK"] by (auto simp: tick h0 second_def)
  have h1: "hi_mgr h1 = example_manager\<lparr>em_breached_since := 2 * second\<rparr>" "hi_clock h1 = 2 * second"
    "hi_evicted h1 = []" "hi_proposed h1 = 1"
    by (simp_all add: h1_def tick_run_fields [OF r1(1)] r1 h0 tick)
  obtain m2 r2 where r2: "manager_Run (tk_api (?t (30 * second))) rat_quantity (tk_signal (?t (30 * second)))
      (hi_clock h1 + tk_dt (?t (30 * second))) (hi_mgr h1) = (m2, r2)" "rs_evicted r2 = [example_verdict]" "rs_proposed r2 = 1"
    using example_second [of "2 * second" "32 * second"] by (auto simp: tick h1 second_def)
  define h2 where "h2 = tick_run rat_quantity (?t (30 * second)) h1"
  have "hi_evicted h2 = [(32 * second, pod_key example_pod)]" "hi_clock h2 = 32 * second" "hi_proposed h2 = 2"
    by (simp_all add: h2_def tick_run_fields [OF r2(1)] r2 h1 tick example_verdict_def)
  then show ?thesis using h1(3) by (simp add: h2_def h1_def h0_def)
qed

lemma example_ticks_ok:
  "\<forall>e \<in> set [eviction_tick second, eviction_tick (30 * second)]. 0 \<le> tk_dt e \<and>
     ec_max_per_minute (sg_config (tk_signal e)) = 3 \<and> ec_stabilisation (sg_config (tk_signal e)) = 30"
  by (simp add: eviction_tick_def second_def example_gates)

theorem eviction_rate_witness:
  "\<exists>h. h = fold (tick_run rat_quantity) [eviction_tick second, eviction_tick (30 * second)] (start_history second example_manager) \<and>
     length (hi_evicted h) = 1 \<and> (of_nat (length (hi_evicted h)) :: rat) \<le> 3 + 3 * of_int (31 * second) / of_int minute + 2 / 2 ^ 18"
proof -
  obtain h where h: "h = fold (tick_run rat_quantity) [eviction_tick second, eviction_tick (30 * second)] (start_history second example_manager)"
      "length (hi_evicted h) = 1" "hi_clock h = 32 * second" "hi_proposed h = 2"
    using example_history by auto
  have "bucket_ok 3 (em_budget example_manager)" "tb_last (em_budget example_manager) \<in> {0, second}"
    by (simp_all add: bucket_ok_def example_manager_def eviction_NewManager_def newTokenBucket_def)
  then have "(of_nat (length (hi_evicted h)) :: rat)
      \<le> of_int 3 + of_int 3 * of_int (hi_clock h - second) / of_int minute + of_nat (hi_proposed h) / 2 ^ 18"
    using example_ticks_ok by (intro eviction_rate [OF _ _ _ _ h(1)]) (auto simp: second_def)
  then show ?thesis using h by (intro exI [of _ h]) simp
qed

theorem eviction_spacing_witness:
  "\<exists>h. h = fold (tick_run rat_quantity) [eviction_tick second, eviction_tick (30 * second)] (start_history second example_manager) \<and>
     hi_evicted h = [(32 * second, pod_key example_pod)] \<and>
     sorted_wrt (\<lambda>(t, k) (t', k'). k = k' \<longrightarrow> t + 2 * minute \<le> t') (hi_evicted h)"
proof -
  obtain h where h: "h = fold (tick_run rat_quantity) [eviction_tick second, eviction_tick (30 * second)] (start_history second example_manager)"
      "hi_evicted h = [(32 * second, pod_key example_pod)]"
    using example_history by auto
  show ?thesis using h eviction_spacing [OF _ h(1)] example_ticks_ok by blast
qed

theorem eviction_waits_witness:
  "\<exists>h pre t l suf. h = fold (tick_run rat_quantity) [eviction_tick second] (start_history second example_manager) \<and>
     hi_tracked (tick_run rat_quantity (eviction_tick (30 * second)) h) = pre @ (t, Some l) # suf \<and>
     l \<noteq> PressureNone \<and> stressed suf \<and> t + 30 * second \<le> 32 * second"
proof -
  define h where "h = fold (tick_run rat_quantity) [eviction_tick second] (start_history second example_manager)"
  have h': "hi_evicted (tick_run rat_quantity (eviction_tick (30 * second)) h) = [(32 * second, pod_key example_pod)]"
    "hi_clock (tick_run rat_quantity (eviction_tick (30 * second)) h) = 32 * second" "hi_evicted h = []"
    using example_history by (simp_all add: h_def)
  have m: "example_manager = eviction_NewManager True [memory_plugin rat_quantity]"
    by (simp add: example_manager_def example_plugins)
  have "\<exists>pre t l suf. hi_tracked (tick_run rat_quantity (eviction_tick (30 * second)) h) = pre @ (t, Some l) # suf \<and>
    l \<noteq> PressureNone \<and> stressed suf \<and>
    t + ec_stabilisation (sg_config (tk_signal (eviction_tick (30 * second)))) * second
      \<le> hi_clock (tick_run rat_quantity (eviction_tick (30 * second)) h)"
    using h' example_ticks_ok
    by (intro eviction_waits [OF _ _ h_def [unfolded m]]) (simp_all add: second_def)
  then show ?thesis using h'(2) example_ticks_ok h_def by auto
qed

text \<open>
  Two brief spikes with a recovery between them do add up to an eviction when the recovery falls into a
  degraded stretch: the pass that finds the node calm returns before it resets the clock.
\<close>

definition calm_degraded_tick :: "rat tick" where
  "calm_degraded_tick = (eviction_tick (15 * second))\<lparr>tk_signal := example_signal
     \<lparr>sg_sample := (sg_sample example_signal)\<lparr>ns_degraded := True\<rparr>,
      sg_rec := (sg_rec example_signal)\<lparr>rc_pressure := no_pressure\<lparr>np_level := PressureNone\<rparr>\<rparr>\<rparr>\<rparr>"

theorem spikes_add_up:
  "np_level (rc_pressure (sg_rec (tk_signal calm_degraded_tick))) = PressureNone \<and>
   hi_evicted (fold (tick_run rat_quantity) [eviction_tick second, calm_degraded_tick, eviction_tick (15 * second)]
     (start_history second example_manager)) = [(32 * second, pod_key example_pod)]"
proof -
  define h0 where "h0 = start_history second example_manager"
  have h0: "hi_clock h0 = second" "hi_mgr h0 = example_manager" "hi_evicted h0 = []"
    by (simp_all add: h0_def start_history_def)
  have tick: "tk_api (eviction_tick d) = (\<lambda>pod g. EvictOK)" "tk_signal (eviction_tick d) = example_signal"
    "tk_dt (eviction_tick d) = d" for d by (simp_all add: eviction_tick_def)
  define h1 where "h1 = tick_run rat_quantity (eviction_tick second) h0"
  obtain r1 where r1: "manager_Run (tk_api (eviction_tick second)) rat_quantity (tk_signal (eviction_tick second))
      (hi_clock h0 + tk_dt (eviction_tick second)) (hi_mgr h0)
      = (example_manager\<lparr>em_breached_since := 2 * second\<rparr>, r1)" "rs_evicted r1 = []"
    using example_first [of "2 * second" "\<lambda>pod g. EvictOK"] by (auto simp: tick h0 second_def)
  have h1: "hi_mgr h1 = example_manager\<lparr>em_breached_since := 2 * second\<rparr>" "hi_clock h1 = 2 * second" "hi_evicted h1 = []"
    by (simp_all add: h1_def tick_run_fields [OF r1(1)] r1 h0 tick)
  define h2 where "h2 = tick_run rat_quantity calm_degraded_tick h1"
  have "ec_enabled (sg_config (tk_signal calm_degraded_tick))" "ns_degraded (sg_sample (tk_signal calm_degraded_tick))"
    and dt: "tk_dt calm_degraded_tick = 15 * second" by (simp_all add: calm_degraded_tick_def example_gates eviction_tick_def)
  then have r2: "manager_Run (tk_api calm_degraded_tick) rat_quantity (tk_signal calm_degraded_tick)
      (hi_clock h1 + tk_dt calm_degraded_tick) (hi_mgr h1) = (hi_mgr h1, suppress ''degraded-sample'' empty_result)"
    by (simp add: manager_Run_def Let_def)
  have h2: "hi_mgr h2 = hi_mgr h1" "hi_clock h2 = 17 * second" "hi_evicted h2 = []"
    by (simp_all add: h2_def tick_run_fields [OF r2] h1 dt suppress_def emit_def empty_result_def)
  define t3 where "t3 = eviction_tick (15 * second)"
  obtain m3 r3 where r3: "manager_Run (tk_api t3) rat_quantity (tk_signal t3) (hi_clock h2 + tk_dt t3) (hi_mgr h2) = (m3, r3)"
      "rs_evicted r3 = [example_verdict]"
    using example_second [of "2 * second" "32 * second"] by (auto simp: tick h1 h2 t3_def second_def)
  have vp: "vd_pod example_verdict = example_pod" by (simp add: example_verdict_def)
  have dt3: "tk_dt t3 = 15 * second" by (simp add: t3_def tick)
  have "hi_evicted (tick_run rat_quantity t3 h2) = [(32 * second, pod_key example_pod)]"
    by (simp only: tick_run_fields(3) [OF r3(1)] r3(2) h2 dt3) (simp add: vp second_def)
  moreover have "np_level (rc_pressure (sg_rec (tk_signal calm_degraded_tick))) = PressureNone"
    by (simp add: calm_degraded_tick_def)
  ultimately show ?thesis by (simp add: t3_def h2_def h1_def h0_def)
qed

theorem Run_tries_regardless_witness:
  "\<exists>m1 res1. manager_Run (\<lambda>pod g. EvictTooManyRequests) rat_quantity example_signal (40 * second)
      (example_manager\<lparr>em_breached_since := 10 * second\<rparr>) = (m1, res1) \<and>
     calls (rs_effects res1) = calls (rs_effects (snd (manager_Run (\<lambda>pod g. EvictOK) rat_quantity example_signal (40 * second)
      (example_manager\<lparr>em_breached_since := 10 * second\<rparr>))))"
proof -
  let ?run = "\<lambda>api. manager_Run api rat_quantity example_signal (40 * second) (example_manager\<lparr>em_breached_since := 10 * second\<rparr>)"
  obtain m1 res1 m2 res2 where r: "?run (\<lambda>pod g. EvictTooManyRequests) = (m1, res1)" "?run (\<lambda>pod g. EvictOK) = (m2, res2)"
    by fastforce
  show ?thesis using Run_tries_regardless [OF r] r by simp
qed

end
