(* ===== verification/Webhook.thy ===== *)
theory Webhook
  imports QoS
begin

text \<open>
  The mutating admission webhook (\<^verbatim>\<open>pkg/webhook/pod.go\<close>). The decoder's result, the
  policy read from the API server and the two JSON encodings are parameters: the pod of a
  request is \<^const>\<open>None\<close> where decoding failed, \<open>snap\<close> encodes the snapshot of rewritten
  resources, \<open>enc\<close> tells whether the mutated pod could be encoded. A validation error is a
  value of a datatype with what its message prints.
\<close>

section \<open>Requests and answers\<close>

type_synonym 'q snapshot = "string \<Rightarrow> ('q resource_list \<times> 'q resource_list) option"

datatype 'q validation_error =
    InvalidLevel QoSLevel
  | DedicatedWithoutCPU string
  | DedicatedFractional string 'q
  | ReclaimedZeroMemoryLimit string
  | ReclaimedPriority int
  | NUMAWithoutDedicated QoSLevel

record 'q admission_request =
  rq_namespace :: string
  rq_pod :: "'q pod option"

datatype 'q admission_response =
    Allowed string
  | Denied "'q validation_error"
  | PatchedTo "'q pod"

definition explicitLevel :: "'q pod \<Rightarrow> QoSLevel \<times> bool" where
  "explicitLevel pod =
     (case p_annotations pod AnnotationQoSLevel of None \<Rightarrow> ([], False) | Some v \<Rightarrow> (v, IsValid v))"

definition webhook_config_of :: "webhook_config option \<Rightarrow> webhook_config" where
  "webhook_config_of policy =
     (case policy of
        None \<Rightarrow> \<lparr>wc_default_level = QoSSharedCores, wc_rewrite = True, wc_exempt = []\<rparr>
      | Some cfg \<Rightarrow> if \<not> IsValid (wc_default_level cfg) then cfg\<lparr>wc_default_level := QoSSharedCores\<rparr> else cfg)"

section \<open>Validation\<close>

text \<open>\<^verbatim>\<open>strings.Join\<close> of the known levels with a comma and a blank, for the error about an invalid one.\<close>

definition joinLevels :: string where
  "joinLevels = concat (map (\<lambda>l. l @ '', '') (butlast KnownQoSLevels)) @ last KnownQoSLevels"

lemma joinLevels_text: "joinLevels = ''system_cores, dedicated_cores, shared_cores, reclaimed_cores''"
  by (simp add: joinLevels_def KnownQoSLevels_def level_defs)

fun validate_dedicated :: "'q quantity_ops \<Rightarrow> 'q container list \<Rightarrow> 'q validation_error option" where
  "validate_dedicated Q [] = None"
| "validate_dedicated Q (c # cs) =
     (case c_requests c ResourceCPU of
        None \<Rightarrow> Some (DedicatedWithoutCPU (c_name c))
      | Some q \<Rightarrow>
          if q_is_zero Q q then Some (DedicatedWithoutCPU (c_name c))
          else if go_mod (q_milli Q q) 1000 \<noteq> 0 then Some (DedicatedFractional (c_name c) q)
          else validate_dedicated Q cs)"

fun validate_reclaimed :: "'q quantity_ops \<Rightarrow> 'q container list \<Rightarrow> 'q validation_error option" where
  "validate_reclaimed Q [] = None"
| "validate_reclaimed Q (c # cs) =
     (case c_limits c ResourceMemory of
        Some q \<Rightarrow> if q_is_zero Q q then Some (ReclaimedZeroMemoryLimit (c_name c)) else validate_reclaimed Q cs
      | None \<Rightarrow> validate_reclaimed Q cs)"

definition validate_priority :: "'q pod \<Rightarrow> 'q validation_error option" where
  "validate_priority pod =
     (case p_priority pod of Some p \<Rightarrow> if p > 0 then Some (ReclaimedPriority p) else None | None \<Rightarrow> None)"

definition first_error :: "'e option \<Rightarrow> 'e option \<Rightarrow> 'e option" where
  "first_error a b = (case a of Some e \<Rightarrow> Some e | None \<Rightarrow> b)"

definition validate :: "'q quantity_ops \<Rightarrow> 'q pod \<Rightarrow> QoSLevel \<Rightarrow> 'q validation_error option" where
  "validate Q pod level =
     (if \<not> IsValid level then Some (InvalidLevel level)
      else
        first_error (if level = QoSDedicatedCores then validate_dedicated Q (p_containers pod) else None)
       (first_error (if level = QoSReclaimedCores
                     then first_error (validate_reclaimed Q (p_containers pod)) (validate_priority pod) else None)
          (if p_annotations pod AnnotationNUMABinding = Some ''true'' \<and> level \<noteq> QoSDedicatedCores
           then Some (NUMAWithoutDedicated level) else None)))"

section \<open>Rewriting reclaimed pods\<close>

definition setExtended :: "'q quantity_ops \<Rightarrow> 'q container \<Rightarrow> string \<Rightarrow> int \<Rightarrow> 'q container" where
  "setExtended Q c name value =
     c\<lparr>c_requests := (c_requests c)(name \<mapsto> q_new Q value), c_limits := (c_limits c)(name \<mapsto> q_new Q value)\<rparr>"

definition rewrite_cpu :: "'q quantity_ops \<Rightarrow> 'q option \<Rightarrow> 'q container \<Rightarrow> 'q container \<times> bool" where
  "rewrite_cpu Q cpuReq c =
     (case cpuReq of
        Some q \<Rightarrow>
          if \<not> q_is_zero Q q then
            (setExtended Q (c\<lparr>c_requests := (c_requests c)(ResourceCPU := None),
                              c_limits := (c_limits c)(ResourceCPU := None)\<rparr>) ResourceReclaimedCPU (q_milli Q q), True)
          else (c, False)
      | None \<Rightarrow> (c, False))"

definition reclaimed_mib :: "'q quantity_ops \<Rightarrow> 'q \<Rightarrow> int" where
  "reclaimed_mib Q q = (let mib = go_div (q_value Q q) (1024 * 1024) in if mib < 1 then 1 else mib)"

definition rewrite_mem :: "'q quantity_ops \<Rightarrow> 'q option \<Rightarrow> 'q container \<Rightarrow> 'q container \<times> bool" where
  "rewrite_mem Q memReq c =
     (case memReq of
        Some q \<Rightarrow>
          if \<not> q_is_zero Q q then
            let c1 = c\<lparr>c_requests := (c_requests c)(ResourceMemory := None)\<rparr>;
                c2 = (if c_limits c1 ResourceMemory = None then c1\<lparr>c_limits := (c_limits c1)(ResourceMemory \<mapsto> q)\<rparr> else c1)
            in (setExtended Q c2 ResourceReclaimedMemory (reclaimed_mib Q q), True)
          else (c, False)
      | None \<Rightarrow> (c, False))"

fun rewrite_containers ::
  "'q quantity_ops \<Rightarrow> 'q container list \<Rightarrow> 'q snapshot \<Rightarrow> 'q container list \<times> 'q snapshot \<times> bool"
where
  "rewrite_containers Q [] snapshot = ([], snapshot, False)"
| "rewrite_containers Q (c # cs) snapshot =
     (let cpuReq = c_requests c ResourceCPU; memReq = c_requests c ResourceMemory
      in if cpuReq = None \<and> memReq = None then
           (case rewrite_containers Q cs snapshot of (cs', s', changed) \<Rightarrow> (c # cs', s', changed))
         else
           (case rewrite_cpu Q cpuReq c of (c1, ch1) \<Rightarrow>
            case rewrite_mem Q memReq c1 of (c2, ch2) \<Rightarrow>
            case rewrite_containers Q cs (snapshot(c_name c \<mapsto> (c_requests c, c_limits c))) of (cs', s', changed) \<Rightarrow>
              (c2 # cs', s', ch1 \<or> ch2 \<or> changed)))"

definition rewriteReclaimed :: "'q quantity_ops \<Rightarrow> ('q snapshot \<Rightarrow> string option) \<Rightarrow> 'q pod \<Rightarrow> 'q pod \<times> bool" where
  "rewriteReclaimed Q snap pod =
     (case rewrite_containers Q (p_containers pod) Map.empty of (cs, snapshot, changed) \<Rightarrow>
        let pod1 = pod\<lparr>p_containers := cs\<rparr>
        in (if changed then
              (case snap snapshot of
                 Some raw \<Rightarrow> pod1\<lparr>p_annotations := (p_annotations pod1)(AnnotationOriginalResources \<mapsto> raw)\<rparr>
               | None \<Rightarrow> pod1)
            else pod1, changed))"

section \<open>Handle\<close>

definition decide_level :: "'q quantity_ops \<Rightarrow> webhook_config \<Rightarrow> 'q pod \<Rightarrow> QoSLevel" where
  "decide_level Q cfg pod =
     (case explicitLevel pod of (level0, explicit) \<Rightarrow>
        if \<not> explicit then
          let level1 = wc_default_level cfg;
              level2 = (if \<not> IsValid level1 then QoSSharedCores else level1);
              inferred = level_of Q pod
          in if inferred \<noteq> QoSSharedCores then inferred else level2
        else level0)"

text \<open>The answer, and the level and the action \<^verbatim>\<open>WebhookMutations\<close> counts.\<close>

definition webhook_Handle ::
  "'q quantity_ops \<Rightarrow> ('q snapshot \<Rightarrow> string option) \<Rightarrow> ('q pod \<Rightarrow> bool) \<Rightarrow> webhook_config option
     \<Rightarrow> 'q admission_request \<Rightarrow> 'q admission_response \<times> string \<times> string"
where
  "webhook_Handle Q snap enc policy req =
     (case rq_pod req of
        None \<Rightarrow> (Allowed ''kqos could not decode the pod'', ''unknown'', ''decode-error'')
      | Some pod \<Rightarrow>
          let cfg = webhook_config_of policy
          in if rq_namespace req \<in> set (wc_exempt cfg) then
               (Allowed ''namespace is exempt from kqos'', ''unknown'', ''exempt'')
             else
               let level = decide_level Q cfg pod
               in case validate Q pod level of
                    Some err \<Rightarrow> (Denied err, level, ''denied'')
                  | None \<Rightarrow>
                      let pod1 = pod\<lparr>p_annotations := (p_annotations pod)(AnnotationQoSLevel \<mapsto> level)\<rparr>;
                          (pod2, rewritten) =
                            (if level = QoSReclaimedCores \<and> wc_rewrite cfg then rewriteReclaimed Q snap pod1
                             else (pod1, False));
                          action = (if rewritten then ''rewritten'' else ''annotated'')
                      in if \<not> enc pod2 then
                           (Allowed ''kqos could not serialise its mutation'', level, action)
                         else (PatchedTo pod2, level, action))"

section \<open>What a rewritten container looks like\<close>

definition rewrite_container :: "'q quantity_ops \<Rightarrow> 'q container \<Rightarrow> 'q container" where
  "rewrite_container Q c =
     fst (rewrite_mem Q (c_requests c ResourceMemory) (fst (rewrite_cpu Q (c_requests c ResourceCPU) c)))"

definition rewritable :: "'q quantity_ops \<Rightarrow> 'q container \<Rightarrow> bool" where
  "rewritable Q c \<longleftrightarrow> nonzero Q (c_requests c ResourceCPU) \<or> nonzero Q (c_requests c ResourceMemory)"

lemma rewrite_flags:
  "snd (rewrite_cpu Q m c) \<longleftrightarrow> nonzero Q m" "snd (rewrite_mem Q m c) \<longleftrightarrow> nonzero Q m"
  by (auto simp: rewrite_cpu_def rewrite_mem_def nonzero_def Let_def split: option.splits)

lemma rewrite_containers_eq:
  "fst (rewrite_containers Q cs s) = map (rewrite_container Q) cs \<and>
   (snd (snd (rewrite_containers Q cs s)) \<longleftrightarrow> (\<exists>c \<in> set cs. rewritable Q c))"
proof (induction cs arbitrary: s)
  case (Cons c cs)
  show ?case
  proof (cases "c_requests c ResourceCPU = None \<and> c_requests c ResourceMemory = None")
    case True
    then have "rewrite_container Q c = c" "\<not> rewritable Q c"
      by (simp_all add: rewrite_container_def rewrite_cpu_def rewrite_mem_def rewritable_def nonzero_def)
    then show ?thesis using True Cons.IH [of s] by (auto simp: Let_def split: prod.splits)
  next
    case False
    obtain c1 ch1 where c1: "rewrite_cpu Q (c_requests c ResourceCPU) c = (c1, ch1)" by fastforce
    obtain c2 ch2 where c2: "rewrite_mem Q (c_requests c ResourceMemory) c1 = (c2, ch2)" by fastforce
    have "rewrite_container Q c = c2" "rewritable Q c \<longleftrightarrow> ch1 \<or> ch2"
      using c1 c2 rewrite_flags [of Q "c_requests c ResourceCPU" c] rewrite_flags(2) [of Q "c_requests c ResourceMemory" c1]
      by (simp_all add: rewrite_container_def rewritable_def)
    note c12 = this
    define s1 where "s1 = s(c_name c \<mapsto> (c_requests c, c_limits c))"
    obtain cs' s' ch where r: "rewrite_containers Q cs s1 = (cs', s', ch)"
      by (metis surj_pair)
    have "rewrite_containers Q (c # cs) s = (c2 # cs', s', ch1 \<or> ch2 \<or> ch)"
      using False c1 c2 r unfolding s1_def by (simp only: rewrite_containers.simps Let_def if_False prod.case)
    then show ?thesis using Cons.IH [of s1] c12 r by (simp del: rewrite_containers.simps)
  qed
qed simp

lemma rewrite_container_fields:
  "c_name (rewrite_container Q c) = c_name c"
  "c_requests (rewrite_container Q c) ResourceCPU
     = (if nonzero Q (c_requests c ResourceCPU) then None else c_requests c ResourceCPU)"
  "c_requests (rewrite_container Q c) ResourceMemory
     = (if nonzero Q (c_requests c ResourceMemory) then None else c_requests c ResourceMemory)"
  "c_requests (rewrite_container Q c) ResourceReclaimedCPU
     = (if nonzero Q (c_requests c ResourceCPU) then Some (q_new Q (q_milli Q (the (c_requests c ResourceCPU))))
        else c_requests c ResourceReclaimedCPU)"
  "c_requests (rewrite_container Q c) ResourceReclaimedMemory
     = (if nonzero Q (c_requests c ResourceMemory) then Some (q_new Q (reclaimed_mib Q (the (c_requests c ResourceMemory))))
        else c_requests c ResourceReclaimedMemory)"
  "c_limits (rewrite_container Q c) ResourceReclaimedCPU
     = (if nonzero Q (c_requests c ResourceCPU) then Some (q_new Q (q_milli Q (the (c_requests c ResourceCPU))))
        else c_limits c ResourceReclaimedCPU)"
  "c_limits (rewrite_container Q c) ResourceReclaimedMemory
     = (if nonzero Q (c_requests c ResourceMemory) then Some (q_new Q (reclaimed_mib Q (the (c_requests c ResourceMemory))))
        else c_limits c ResourceReclaimedMemory)"
  "c_limits (rewrite_container Q c) ResourceCPU
     = (if nonzero Q (c_requests c ResourceCPU) then None else c_limits c ResourceCPU)"
  "c_limits (rewrite_container Q c) ResourceMemory
     = (if nonzero Q (c_requests c ResourceMemory) \<and> c_limits c ResourceMemory = None
        then c_requests c ResourceMemory else c_limits c ResourceMemory)"
  by (auto simp: rewrite_container_def rewrite_cpu_def rewrite_mem_def setExtended_def nonzero_def Let_def
      split: option.splits)

lemma rewrite_container_noop: "\<not> rewritable Q c \<Longrightarrow> rewrite_container Q c = c"
  by (auto simp: rewrite_container_def rewritable_def rewrite_cpu_def rewrite_mem_def nonzero_def split: option.splits)

lemma rewritten_not_rewritable: "\<not> rewritable Q (rewrite_container Q c)"
  by (simp add: rewritable_def rewrite_container_fields) (simp add: nonzero_def)

lemma rewriteReclaimed_fields:
  "p_containers (fst (rewriteReclaimed Q snap pod)) = map (rewrite_container Q) (p_containers pod)"
  "snd (rewriteReclaimed Q snap pod) \<longleftrightarrow> (\<exists>c \<in> set (p_containers pod). rewritable Q c)"
  "p_annotations (fst (rewriteReclaimed Q snap pod)) AnnotationQoSLevel = p_annotations pod AnnotationQoSLevel"
  "p_annotations (fst (rewriteReclaimed Q snap pod)) AnnotationNUMABinding = p_annotations pod AnnotationNUMABinding"
  "p_priority (fst (rewriteReclaimed Q snap pod)) = p_priority pod"
  "p_init_containers (fst (rewriteReclaimed Q snap pod)) = p_init_containers pod"
  "p_uid (fst (rewriteReclaimed Q snap pod)) = p_uid pod"
  "p_namespace (fst (rewriteReclaimed Q snap pod)) = p_namespace pod" "p_name (fst (rewriteReclaimed Q snap pod)) = p_name pod"
  using rewrite_containers_eq [of Q "p_containers pod" Map.empty]
  by (auto simp: rewriteReclaimed_def Let_def split: prod.splits option.splits)

lemma rewriteReclaimed_noop:
  assumes "\<forall>c \<in> set (p_containers pod). \<not> rewritable Q c"
  shows "rewriteReclaimed Q snap pod = (pod, False)"
proof -
  have "fst (rewrite_containers Q (p_containers pod) Map.empty) = p_containers pod"
    "\<not> snd (snd (rewrite_containers Q (p_containers pod) Map.empty))"
    using assms rewrite_containers_eq [of Q "p_containers pod" Map.empty]
    by (auto simp: rewrite_container_noop map_idI)
  moreover obtain cs s ch where "rewrite_containers Q (p_containers pod) Map.empty = (cs, s, ch)"
    by (rule prod_cases3)
  ultimately have "rewrite_containers Q (p_containers pod) Map.empty = (p_containers pod, s, False)"
    by simp
  then show ?thesis by (simp add: rewriteReclaimed_def)
qed

section \<open>Admission\<close>

lemma validate_dedicated_none:
  "validate_dedicated Q cs = None \<longleftrightarrow>
     (\<forall>c \<in> set cs. nonzero Q (c_requests c ResourceCPU) \<and> go_mod (milliOf Q (c_requests c) ResourceCPU) 1000 = 0)"
  by (induction cs) (auto simp: nonzero_def milliOf_def split: option.splits)

lemma validate_reclaimed_none:
  "validate_reclaimed Q cs = None \<longleftrightarrow>
     (\<forall>c \<in> set cs. \<forall>q. c_limits c ResourceMemory = Some q \<longrightarrow> \<not> q_is_zero Q q)"
  by (induction cs) (auto split: option.splits)

text \<open>What a pod must satisfy to be admitted at a level.\<close>

definition admissible :: "'q quantity_ops \<Rightarrow> 'q pod \<Rightarrow> QoSLevel \<Rightarrow> bool" where
  "admissible Q pod level \<longleftrightarrow> IsValid level \<and>
     (level = QoSDedicatedCores \<longrightarrow> (\<forall>c \<in> set (p_containers pod).
        nonzero Q (c_requests c ResourceCPU) \<and> go_mod (milliOf Q (c_requests c) ResourceCPU) 1000 = 0)) \<and>
     (level = QoSReclaimedCores \<longrightarrow>
        (\<forall>c \<in> set (p_containers pod). \<forall>q. c_limits c ResourceMemory = Some q \<longrightarrow> \<not> q_is_zero Q q) \<and>
        (\<forall>p. p_priority pod = Some p \<longrightarrow> p \<le> 0)) \<and>
     (p_annotations pod AnnotationNUMABinding = Some ''true'' \<longrightarrow> level = QoSDedicatedCores)"

lemma validate_none: "validate Q pod level = None \<longleftrightarrow> admissible Q pod level"
proof -
  have f: "first_error a b = None \<longleftrightarrow> a = None \<and> b = None" for a b :: "'x option"
    by (simp add: first_error_def split: option.splits)
  have p: "validate_priority pod = None \<longleftrightarrow> (\<forall>p. p_priority pod = Some p \<longrightarrow> p \<le> 0)"
    by (auto simp: validate_priority_def split: option.splits)
  show ?thesis
    by (auto simp: validate_def admissible_def f p validate_dedicated_none validate_reclaimed_none)
qed

lemma decide_level_valid [simp]: "IsValid (decide_level Q cfg pod)"
  by (auto simp: decide_level_def explicitLevel_def Let_def split: option.splits)

lemma decide_level_annotated:
  "p_annotations pod AnnotationQoSLevel = Some v \<Longrightarrow> IsValid v \<Longrightarrow> decide_level Q cfg pod = v"
  by (simp add: decide_level_def explicitLevel_def)

lemma Handle_patched:
  assumes "webhook_Handle Q snap enc policy req = (PatchedTo pod', lvl, action)"
  obtains pod pod1 where "rq_pod req = Some pod" "rq_namespace req \<notin> set (wc_exempt (webhook_config_of policy))"
    "lvl = decide_level Q (webhook_config_of policy) pod" "admissible Q pod lvl" "enc pod'"
    "pod1 = pod\<lparr>p_annotations := (p_annotations pod)(AnnotationQoSLevel \<mapsto> lvl)\<rparr>"
    "pod' = (if lvl = QoSReclaimedCores \<and> wc_rewrite (webhook_config_of policy)
             then fst (rewriteReclaimed Q snap pod1) else pod1)"
  using assms unfolding validate_none [symmetric]
  by (auto simp: webhook_Handle_def Let_def split: option.splits if_splits prod.splits)

lemma admissible_annotated:
  "admissible Q (pod\<lparr>p_annotations := (p_annotations pod)(AnnotationQoSLevel \<mapsto> lvl)\<rparr>) l = admissible Q pod l"
  by (simp add: admissible_def)

lemma admissible_rewritten:
  assumes "admissible Q pod QoSReclaimedCores"
  shows "admissible Q (fst (rewriteReclaimed Q snap pod)) QoSReclaimedCores"
  using assms unfolding admissible_def rewriteReclaimed_fields
  by (auto simp: rewrite_container_fields nonzero_def split: if_splits option.splits)


text \<open>
  C39. The webhook fails open. Whatever level the pod states, whatever the policy says and whatever the
  encoder does, it denies exactly the pods that could be decoded, whose namespace is not exempt, and
  that do not satisfy the demands of the level decided for them: a dedicated pod with a container that
  does not request whole cores, a reclaimed one with a zero memory limit or a positive priority, NUMA
  binding on anything but a dedicated pod. A level annotation that is not one of the four is never the
  reason of a denial.
\<close>

theorem Handle_denies:
  "((\<exists>err. fst (webhook_Handle Q snap enc policy req) = Denied err) \<longleftrightarrow>
    (\<exists>pod. rq_pod req = Some pod \<and> rq_namespace req \<notin> set (wc_exempt (webhook_config_of policy)) \<and>
       \<not> admissible Q pod (decide_level Q (webhook_config_of policy) pod))) \<and>
   fst (webhook_Handle Q snap enc policy req) \<noteq> Denied (InvalidLevel l)"
proof
  show "(\<exists>err. fst (webhook_Handle Q snap enc policy req) = Denied err) \<longleftrightarrow>
    (\<exists>pod. rq_pod req = Some pod \<and> rq_namespace req \<notin> set (wc_exempt (webhook_config_of policy)) \<and>
       \<not> admissible Q pod (decide_level Q (webhook_config_of policy) pod))"
    unfolding validate_none [symmetric]
    by (cases "rq_pod req") (auto simp: webhook_Handle_def Let_def split: option.splits prod.splits)
  have d: "validate_dedicated Q cs \<noteq> Some (InvalidLevel l)" for cs
    by (induction cs) (auto split: option.splits)
  have r: "validate_reclaimed Q cs \<noteq> Some (InvalidLevel l)" for cs
    by (induction cs) (auto split: option.splits)
  have "validate Q pod lvl \<noteq> Some (InvalidLevel l)" if "IsValid lvl" for pod lvl
    using d r that by (auto simp: validate_def first_error_def validate_priority_def split: option.splits)
  then show "fst (webhook_Handle Q snap enc policy req) \<noteq> Denied (InvalidLevel l)"
    using decide_level_valid [of Q "webhook_config_of policy"]
    by (auto simp: webhook_Handle_def Let_def split: option.splits prod.splits)
qed

section \<open>What the scheduler sees of a reclaimed pod\<close>

text \<open>
  C9. The patch of a reclaimed pod, rewriting being on: no application container of the patched pod
  requests an amount of cpu or memory other than zero. A cpu request is carried by the extended resource
  in millicores, and the cpu limit is gone, so there is nothing to default a cpu request back from. A
  memory request is carried in mebibytes rounded down but never to zero, and the container has a memory
  limit, its own or else one equal to the request; where no memory was requested the memory limit is what
  it was, possibly none. Each extended resource is requested and limited in equal amounts. The statement
  is about the webhook's patch: a pod of an exempt namespace, and one the webhook fails open on, gets no
  patch, and the API server defaults the memory request of a stored pod back from its memory limit.
\<close>

theorem Handle_reclaimed_rewritten:
  assumes "webhook_Handle Q snap enc policy req = (PatchedTo pod', QoSReclaimedCores, action)"
    and "rq_pod req = Some pod" "wc_rewrite (webhook_config_of policy)"
  shows "list_all2 (\<lambda>c c'.
      \<not> nonzero Q (c_requests c' ResourceCPU) \<and> \<not> nonzero Q (c_requests c' ResourceMemory) \<and>
      (nonzero Q (c_requests c ResourceCPU) \<longrightarrow> c_limits c' ResourceCPU = None \<and>
         c_requests c' ResourceReclaimedCPU = Some (q_new Q (milliOf Q (c_requests c) ResourceCPU)) \<and>
         c_limits c' ResourceReclaimedCPU = c_requests c' ResourceReclaimedCPU) \<and>
      c_limits c' ResourceMemory = (if nonzero Q (c_requests c ResourceMemory) \<and> c_limits c ResourceMemory = None
         then c_requests c ResourceMemory else c_limits c ResourceMemory) \<and>
      (nonzero Q (c_requests c ResourceMemory) \<longrightarrow> c_limits c' ResourceMemory \<noteq> None \<and>
         c_requests c' ResourceReclaimedMemory
           = Some (q_new Q (max 1 (go_div (bytesOf Q (c_requests c) ResourceMemory) 1048576))) \<and>
         c_limits c' ResourceReclaimedMemory = c_requests c' ResourceReclaimedMemory))
    (p_containers pod) (p_containers pod')"
  using assms(1)
proof (rule Handle_patched)
  fix pod0 pod1
  assume "rq_pod req = Some pod0"
    "pod1 = pod0\<lparr>p_annotations := (p_annotations pod0)(AnnotationQoSLevel \<mapsto> QoSReclaimedCores)\<rparr>"
    "pod' = (if QoSReclaimedCores = QoSReclaimedCores \<and> wc_rewrite (webhook_config_of policy)
             then fst (rewriteReclaimed Q snap pod1) else pod1)"
  then have "p_containers pod' = map (rewrite_container Q) (p_containers pod)"
    using assms(2,3) by (simp add: rewriteReclaimed_fields)
  moreover have "\<not> nonzero Q (c_requests (rewrite_container Q c) ResourceCPU)"
    "\<not> nonzero Q (c_requests (rewrite_container Q c) ResourceMemory)" for c
    using rewritten_not_rewritable [of Q c] by (simp_all add: rewritable_def)
  moreover have "reclaimed_mib Q q = max 1 (go_div (q_value Q q) 1048576)" for q
    by (simp add: reclaimed_mib_def Let_def max_def)
  ultimately show ?thesis
    by (auto simp: list_all2_map2 list.rel_refl_strong rewrite_container_fields milliOf_def bytesOf_def nonzero_def
        intro!: list.rel_refl_strong split: option.splits)
qed

lemma extended_fold:
  assumes "\<forall>c \<in> set cs. 0 \<le> bytesOf Q (c_requests c) n" "0 \<le> acc"
    and "acc + (\<Sum>c\<leftarrow>cs. bytesOf Q (c_requests c) n) \<le> max_i64"
  shows "fold (\<lambda>c total. case c_requests c n of Some q \<Rightarrow> i64 (total + q_value Q q) | None \<Rightarrow> total) cs acc
    = acc + (\<Sum>c\<leftarrow>cs. bytesOf Q (c_requests c) n)"
  using assms
proof (induction cs arbitrary: acc)
  case (Cons c cs)
  let ?b = "bytesOf Q (c_requests c) n"
  have rest: "0 \<le> (\<Sum>c\<leftarrow>cs. bytesOf Q (c_requests c) n)" using Cons.prems(1) by (intro sum_list_nonneg) auto
  have "i64 (acc + ?b) = acc + ?b"
    using Cons.prems rest by (intro i64_id) (auto simp: in_i64_def min_i64_def)
  then have step: "(case c_requests c n of Some q \<Rightarrow> i64 (acc + q_value Q q) | None \<Rightarrow> acc) = acc + ?b"
    by (simp add: bytesOf_def split: option.splits)
  show ?case using Cons.IH [of "acc + ?b"] Cons.prems by (simp add: step add.assoc)
qed simp

lemma PodRequests_none:
  assumes "quantity_laws Q amount" "p_init_containers pod = []" "\<forall>c \<in> set (p_containers pod). c_requests c n = None"
  shows "PodRequests Q pod n = None"
proof -
  have "picked c_requests n cs = []" if "\<forall>c \<in> set cs. c_requests c n = None" for cs :: "'a container list"
    using that by (induction cs) simp_all
  then show ?thesis
    using add_all_amount [OF assms(1), of c_requests "p_containers pod" Map.empty n] assms(2,3)
    by (simp add: PodRequests_def sumPod_def)
qed

lemma rewritten_effective:
  assumes "quantity_laws Q amount" and "p_init_containers pod = []"
    and "\<forall>c \<in> set (p_containers pod). c_requests c ResourceReclaimedCPU = None \<and>
       (\<forall>q. c_requests c ResourceCPU = Some q \<longrightarrow> 0 < amount q \<and> 1000 * amount q \<le> of_int max_i64)"
    and "(\<Sum>c\<leftarrow>p_containers pod. milliOf Q (c_requests c) ResourceCPU) \<le> max_i64"
  shows "PodRequests Q (fst (rewriteReclaimed Q snap pod)) ResourceCPU = None"
    and "milliOf Q (EffectiveRequests Q (fst (rewriteReclaimed Q snap pod))) ResourceCPU
      = (\<Sum>c\<leftarrow>p_containers pod. milliOf Q (c_requests c) ResourceCPU)"
proof -
  let ?pod = "fst (rewriteReclaimed Q snap pod)" and ?f = "rewrite_container Q"
  let ?sum = "\<Sum>c\<leftarrow>p_containers pod. milliOf Q (c_requests c) ResourceCPU"
  note laws = quantity_lawsD [OF assms(1)]
  have pos: "nonzero Q (Some q) \<and> 0 \<le> q_milli Q q \<and> q_milli Q q \<le> max_i64"
    if "c \<in> set (p_containers pod)" "c_requests c ResourceCPU = Some q" for c q
  proof -
    have a: "0 < amount q" "1000 * amount q \<le> of_int max_i64" using assms(3) that by auto
    then have "0 \<le> \<lceil>1000 * amount q\<rceil>" "\<lceil>1000 * amount q\<rceil> \<le> max_i64" by (simp_all add: ceiling_le_iff le_ceiling_iff)
    then have "q_milli Q q = \<lceil>1000 * amount q\<rceil>" using a(1) by (intro laws(6)) (auto simp: in_i64_def min_i64_def)
    then show ?thesis using a(1) laws(1) [of q] \<open>0 \<le> \<lceil>1000 * amount q\<rceil>\<close> \<open>\<lceil>1000 * amount q\<rceil> \<le> max_i64\<close>
      by (simp add: nonzero_def)
  qed
  have none: "c_requests (?f c) ResourceCPU = None" if "c \<in> set (p_containers pod)" for c
    using pos [OF that] by (cases "c_requests c ResourceCPU") (auto simp: rewrite_container_fields)
  have val: "bytesOf Q (c_requests (?f c)) ResourceReclaimedCPU = milliOf Q (c_requests c) ResourceCPU \<and>
      0 \<le> milliOf Q (c_requests c) ResourceCPU" if c: "c \<in> set (p_containers pod)" for c
  proof (cases "c_requests c ResourceCPU")
    case None
    then show ?thesis using assms(3) c
      by (auto simp: rewrite_container_fields nonzero_def bytesOf_def milliOf_def)
  next
    case (Some q)
    then have p: "nonzero Q (Some q)" "0 \<le> q_milli Q q" "q_milli Q q \<le> max_i64" using pos [OF c] by auto
    then have "q_value Q (q_new Q (q_milli Q q)) = q_milli Q q"
      by (intro q_value_new [OF assms(1)]) (auto simp: in_i64_def min_i64_def)
    then show ?thesis using Some p by (simp add: rewrite_container_fields bytesOf_def milliOf_def)
  qed
  have sums: "(\<Sum>c\<leftarrow>p_containers ?pod. bytesOf Q (c_requests c) ResourceReclaimedCPU) = ?sum"
    using val by (simp add: rewriteReclaimed_fields o_def cong: map_cong)
  have total: "extendedTotal Q ?pod ResourceReclaimedCPU = ?sum"
    unfolding extendedTotal_def
    using val assms(4) sums by (subst extended_fold) (auto simp: rewriteReclaimed_fields)
  show native: "PodRequests Q ?pod ResourceCPU = None"
    using none assms(2) by (intro PodRequests_none [OF assms(1)]) (auto simp: rewriteReclaimed_fields)
  have nonneg: "0 \<le> ?sum" using val by (intro sum_list_nonneg) auto
  then have "in_i64 ?sum" using assms(4) by (simp add: in_i64_def min_i64_def)
  then have "q_milli Q (q_new_milli Q ?sum) = ?sum" using nonneg by (intro q_milli_new_milli [OF assms(1)])
  then show "milliOf Q (EffectiveRequests Q ?pod) ResourceCPU = ?sum"
    using native total nonneg by (auto simp: EffectiveRequests_def milliOf_def Let_def)
qed

text \<open>
  C33. The rewriting loses nothing the agent needs: for a pod without init containers whose
  containers request cpu in positive amounts or not at all, the effective cpu request read
  from the rewritten pod is the sum of what the containers asked for before.
\<close>

theorem rewrite_then_effective:
  assumes "quantity_laws Q amount" and "p_init_containers pod = []"
    and "\<forall>c \<in> set (p_containers pod). c_requests c ResourceReclaimedCPU = None \<and>
       (\<forall>q. c_requests c ResourceCPU = Some q \<longrightarrow> 0 < amount q \<and> 1000 * amount q \<le> of_int max_i64)"
    and "(\<Sum>c\<leftarrow>p_containers pod. milliOf Q (c_requests c) ResourceCPU) \<le> max_i64"
  shows "milliOf Q (EffectiveRequests Q (fst (rewriteReclaimed Q snap pod))) ResourceCPU
    = (\<Sum>c\<leftarrow>p_containers pod. milliOf Q (c_requests c) ResourceCPU)"
  using assms by (rule rewritten_effective(2))

text \<open>
  The webhook patches the pod of its own patch to itself and never rejects it. The pod the API server
  stores differs from the patch where it defaulted a memory request back, and the deployed configuration
  (\<^verbatim>\<open>reinvocationPolicy: Never\<close>) does not show a stored pod to the webhook again.
\<close>

lemma Handle_own_patch:
  assumes "webhook_Handle Q snap enc policy req = (PatchedTo pod', lvl, action)"
  shows "webhook_Handle Q snap enc policy (req\<lparr>rq_pod := Some pod'\<rparr>) = (PatchedTo pod', lvl, ''annotated'')"
  using assms
proof (rule Handle_patched)
  fix pod pod1
  assume p: "rq_namespace req \<notin> set (wc_exempt (webhook_config_of policy))"
    "lvl = decide_level Q (webhook_config_of policy) pod" "admissible Q pod lvl" "enc pod'"
    "pod1 = pod\<lparr>p_annotations := (p_annotations pod)(AnnotationQoSLevel \<mapsto> lvl)\<rparr>"
    "pod' = (if lvl = QoSReclaimedCores \<and> wc_rewrite (webhook_config_of policy)
             then fst (rewriteReclaimed Q snap pod1) else pod1)"
  let ?r = "lvl = QoSReclaimedCores \<and> wc_rewrite (webhook_config_of policy)"
  have ann: "p_annotations pod' AnnotationQoSLevel = Some lvl" by (simp add: p(6) rewriteReclaimed_fields) (simp add: p(5))
  then have lvl: "decide_level Q (webhook_config_of policy) pod' = lvl"
    using p(2) by (intro decide_level_annotated) simp_all
  have "admissible Q pod1 lvl" using p(3) by (simp add: p(5) admissible_annotated)
  then have ok: "validate Q pod' lvl = None"
    using p(6) admissible_rewritten [of Q pod1 snap] by (auto simp: validate_none)
  have same: "pod'\<lparr>p_annotations := (p_annotations pod')(AnnotationQoSLevel \<mapsto> lvl)\<rparr> = pod'"
    using ann by (simp add: fun_upd_idem)
  have "rewriteReclaimed Q snap pod' = (pod', False)" if ?r
    using that p(6) by (intro rewriteReclaimed_noop) (simp add: rewriteReclaimed_fields rewritten_not_rewritable)
  then show ?thesis
    using p(1,4) lvl ok same by (simp add: webhook_Handle_def Let_def)
qed

section \<open>Examples\<close>

definition example_request :: "rat admission_request" where
  "example_request = \<lparr>rq_namespace = ''demo'', rq_pod = Some example_pod\<rparr>"

lemma example_handled:
  "\<exists>pod'. webhook_Handle rat_quantity (\<lambda>s. Some ''{}'') (\<lambda>p. True) None example_request
     = (PatchedTo pod', QoSReclaimedCores, ''rewritten'')"
proof -
  have l: "decide_level rat_quantity (webhook_config_of None) example_pod = QoSReclaimedCores"
    by (rule decide_level_annotated) (simp_all add: example_pod_def)
  have "admissible rat_quantity example_pod QoSReclaimedCores"
    by (auto simp: admissible_def example_defs rat_quantity_def)
  then have v: "validate rat_quantity example_pod QoSReclaimedCores = None" by (simp add: validate_none)
  have c: "wc_exempt (webhook_config_of None) = []" "wc_rewrite (webhook_config_of None)"
    by (simp_all add: webhook_config_of_def)
  have "\<exists>c \<in> set (p_containers example_pod). rewritable rat_quantity c"
    by (simp add: example_defs rewritable_def nonzero_def rat_quantity_def)
  then have "snd (rewriteReclaimed rat_quantity (\<lambda>s. Some ''{}'')
      (example_pod\<lparr>p_annotations := (p_annotations example_pod)(AnnotationQoSLevel \<mapsto> QoSReclaimedCores)\<rparr>))"
    by (simp add: rewriteReclaimed_fields)
  then obtain p2 where "rewriteReclaimed rat_quantity (\<lambda>s. Some ''{}'')
      (example_pod\<lparr>p_annotations := (p_annotations example_pod)(AnnotationQoSLevel \<mapsto> QoSReclaimedCores)\<rparr>) = (p2, True)"
    by (metis (full_types) prod.collapse)
  then show ?thesis
    by (simp add: webhook_Handle_def example_request_def c l v Let_def)
qed


theorem Handle_reclaimed_rewritten_witness:
  "\<exists>pod' c'. webhook_Handle rat_quantity (\<lambda>s. Some ''{}'') (\<lambda>p. True) None example_request
     = (PatchedTo pod', QoSReclaimedCores, ''rewritten'') \<and> p_containers pod' = [c'] \<and>
     c_requests c' ResourceReclaimedCPU = Some 1500"
proof -
  obtain pod' where h: "webhook_Handle rat_quantity (\<lambda>s. Some ''{}'') (\<lambda>p. True) None example_request
      = (PatchedTo pod', QoSReclaimedCores, ''rewritten'')" using example_handled by blast
  have r: "rq_pod example_request = Some example_pod" "wc_rewrite (webhook_config_of None)"
    by (simp_all add: example_request_def webhook_config_of_def)
  have nz: "nonzero rat_quantity (c_requests example_container ResourceCPU)"
    "q_new rat_quantity (milliOf rat_quantity (c_requests example_container) ResourceCPU) = 1500"
    by (simp_all add: example_container_def nonzero_def rat_quantity_def milliOf_def)
  have p: "p_containers example_pod = [example_container]" by (simp add: example_pod_def)
  obtain c' where c': "p_containers pod' = [c']"
    "nonzero rat_quantity (c_requests example_container ResourceCPU) \<longrightarrow> c_limits c' ResourceCPU = None \<and>
       c_requests c' ResourceReclaimedCPU
         = Some (q_new rat_quantity (milliOf rat_quantity (c_requests example_container) ResourceCPU)) \<and>
       c_limits c' ResourceReclaimedCPU = c_requests c' ResourceReclaimedCPU"
    using Handle_reclaimed_rewritten [OF h r] unfolding p list_all2_Cons1 list_all2_Nil by blast
  then have "c_requests c' ResourceReclaimedCPU = Some 1500" using nz by simp
  with h c'(1) show ?thesis by (intro exI [of _ pod'] exI [of _ c'] conjI)
qed

theorem rewrite_then_effective_witness:
  "quantity_laws rat_quantity (\<lambda>q. q) \<and>
   milliOf rat_quantity (EffectiveRequests rat_quantity (fst (rewriteReclaimed rat_quantity (\<lambda>s. Some ''{}'') example_pod))) ResourceCPU = 1500"
proof -
  have m: "milliOf rat_quantity (c_requests example_container) ResourceCPU = 1500"
    by (simp add: example_container_def milliOf_def rat_quantity_def)
  have p: "p_containers example_pod = [example_container]" "p_init_containers example_pod = []"
    by (simp_all add: example_pod_def)
  have "milliOf rat_quantity (EffectiveRequests rat_quantity (fst (rewriteReclaimed rat_quantity (\<lambda>s. Some ''{}'') example_pod))) ResourceCPU
      = (\<Sum>c\<leftarrow>p_containers example_pod. milliOf rat_quantity (c_requests c) ResourceCPU)"
  proof (rule rewrite_then_effective [OF quantity_laws_rat])
    show "(\<Sum>c\<leftarrow>p_containers example_pod. milliOf rat_quantity (c_requests c) ResourceCPU) \<le> max_i64"
      by (simp add: p m max_i64_def)
  qed (auto simp: p max_i64_def example_container_def)
  then show ?thesis by (simp add: p m quantity_laws_rat)
qed

text \<open>
  The hypotheses matter: a sibling container that requests cpu explicitly as zero keeps that
  entry, and the effective request of the rewritten pod is then zero although it carries two
  thousand reclaimed millicores; and an init container keeps its native request.
\<close>

definition cpu_container :: "rat \<Rightarrow> rat container" where
  "cpu_container q = \<lparr>c_name = ''c'', c_requests = [ResourceCPU \<mapsto> q], c_limits = Map.empty\<rparr>"

theorem zero_sibling_hides_reclaimed:
  "milliOf rat_quantity (EffectiveRequests rat_quantity (fst (rewriteReclaimed rat_quantity snap
     (example_pod\<lparr>p_containers := [cpu_container 2, cpu_container 0]\<rparr>)))) ResourceCPU = 0"
  by (simp add: milliOf_def EffectiveRequests_def PodRequests_def sumPod_def rewriteReclaimed_fields add_all_def
      rl_add_def rewrite_container_fields cpu_container_def nonzero_def rat_quantity_def Let_def example_pod_def)

theorem init_container_keeps_native:
  "PodRequests rat_quantity (fst (rewriteReclaimed rat_quantity snap
     (example_pod\<lparr>p_init_containers := [cpu_container 2]\<rparr>))) ResourceCPU = Some 2"
  by (simp add: PodRequests_def sumPod_def rewriteReclaimed_fields add_all_def max_all_def rl_add_def
      rewrite_container_fields cpu_container_def nonzero_def rat_quantity_def example_defs)

end
