(* ===== verification/Node_Profile.thy ===== *)
theory Node_Profile
  imports CPUPool Sysadvisor
begin

text \<open>
  What the agent reports and the control plane reads: the \<^verbatim>\<open>NodeResourceProfile\<close>
  (\<^verbatim>\<open>pkg/apis/kqos/v1alpha1/noderesourceprofile_types.go\<close>), the part of a Kubernetes node
  kqos reads, conditions and their update (\<^verbatim>\<open>setCondition\<close>, the same function in
  \<^verbatim>\<open>pkg/agent/report.go\<close> and \<^verbatim>\<open>pkg/controller/profile/controller.go\<close>). Answers of the
  API server are values of a sum: an \<open>api_error\<close> or the object.
\<close>

datatype api_error = NotFound | AlreadyExists | OtherError

section \<open>Conditions\<close>

record condition =
  cn_type :: string
  cn_status :: string
  cn_reason :: string
  cn_message :: string
  cn_transition :: gtime

definition ConditionTrue :: string where "ConditionTrue = ''True''"
definition ConditionFalse :: string where "ConditionFalse = ''False''"

lemma condition_statuses [simp]: "ConditionTrue \<noteq> ConditionFalse" "ConditionFalse \<noteq> ConditionTrue"
  by (simp_all add: ConditionTrue_def ConditionFalse_def)

fun setCondition :: "gtime \<Rightarrow> condition \<Rightarrow> condition list \<Rightarrow> condition list" where
  "setCondition now cond [] = [cond\<lparr>cn_transition := now\<rparr>]"
| "setCondition now cond (c # cs) =
     (if cn_type c \<noteq> cn_type cond then c # setCondition now cond cs
      else if cn_status c = cn_status cond then cond\<lparr>cn_transition := cn_transition c\<rparr> # cs
      else cond\<lparr>cn_transition := now\<rparr> # cs)"

definition find_condition :: "string \<Rightarrow> condition list \<Rightarrow> condition option" where
  "find_condition t cs = List.find (\<lambda>c. cn_type c = t) cs"

lemma find_condition_simps [simp]:
  "find_condition t [] = None"
  "find_condition t (c # cs) = (if cn_type c = t then Some c else find_condition t cs)"
  by (simp_all add: find_condition_def)

text \<open>The update touches one condition; the transition time moves only when the status does.\<close>

lemma find_setCondition:
  "find_condition t (setCondition now cond cs) =
     (if t = cn_type cond then
        Some (cond\<lparr>cn_transition :=
          (case find_condition t cs of
             Some c \<Rightarrow> if cn_status c = cn_status cond then cn_transition c else now
           | None \<Rightarrow> now)\<rparr>)
      else find_condition t cs)"
  by (induction cs) auto

lemma setCondition_types:
  "map cn_type (setCondition now cond cs) =
     (if cn_type cond \<in> cn_type ` set cs then map cn_type cs else map cn_type cs @ [cn_type cond])"
  by (induction cs) auto

section \<open>Ownership\<close>

record owner_ref =
  or_api :: string
  or_kind :: string
  or_name :: string
  or_uid :: string

definition LabelManaged :: string where "LabelManaged = ''kqos.io/managed''"

definition managed_labels :: "string \<Rightarrow> string option" where
  "managed_labels = [LabelManaged \<mapsto> ''true'']"

section \<open>Nodes and profiles\<close>

record 'q node =
  nd_name :: string
  nd_uid :: string
  nd_labels :: "string \<Rightarrow> string option"
  nd_capacity :: "'q resource_list"
  nd_allocatable :: "'q resource_list"

record 'q qos_allocation =
  qa_pods :: int
  qa_requested :: "'q resource_list"
  qa_limits :: "'q resource_list"
  qa_actual :: "'q resource_list"

record 'q profile_status =
  nr_capacity :: "'q resource_list"
  nr_allocatable :: "'q resource_list"
  nr_allocations :: "QoSLevel \<Rightarrow> 'q qos_allocation option"
  nr_reclaimable :: "'q resource_list"
  nr_pressure :: node_pressure
  nr_pools :: "cpuset_pool_status list"
  nr_zones :: "zone_status list"
  nr_revision :: int
  nr_last_report :: gtime
  nr_conditions :: "condition list"

record 'q node_profile =
  pf_node_name :: string
  pf_status :: "'q profile_status"

definition empty_status :: "'q profile_status" where
  "empty_status = \<lparr>nr_capacity = Map.empty, nr_allocatable = Map.empty, nr_allocations = Map.empty,
     nr_reclaimable = Map.empty, nr_pressure = no_pressure, nr_pools = [], nr_zones = [], nr_revision = 0,
     nr_last_report = 0, nr_conditions = []\<rparr>"

end
