(* ===== verification/Overcommit.thy ===== *)
theory Overcommit
  imports Node_Profile
begin

text \<open>
  Turning a profile's reclaimable amounts into extended resources of the node
  (\<^verbatim>\<open>pkg/controller/overcommit/controller.go\<close>, \<^verbatim>\<open>predicate.go\<close>). One call of
  \<open>overcommit_Reconcile\<close> is a function of the answers of the API server: the profile, the node,
  and whether the status patch is accepted. The patch names exactly two keys; \<open>apply_patch\<close> is
  the strategic merge the API server performs with it.
\<close>

section \<open>The reconciler\<close>

definition staleAfter :: duration where
  "staleAfter = 90 * second"

record reconciler =
  oc_min_milli :: int
  oc_min_bytes :: int

definition SetupDefaults :: "reconciler \<Rightarrow> reconciler" where
  "SetupDefaults r =
     (let r1 = (if oc_min_milli r = 0 then r\<lparr>oc_min_milli := 50\<rparr> else r)
      in if oc_min_bytes r1 = 0 then r1\<lparr>oc_min_bytes := 64 * 1024 * 1024\<rparr> else r1)"

definition desiredFrom :: "'q quantity_ops \<Rightarrow> 'q profile_status \<Rightarrow> int \<times> int" where
  "desiredFrom Q st =
     (let cpuMilli = milliOf Q (nr_reclaimable st) ResourceCPU;
          memBytes = bytesOf Q (nr_reclaimable st) ResourceMemory
      in (if cpuMilli < 0 then 0 else cpuMilli, if memBytes < 0 then 0 else memBytes))"

definition stale :: "gtime \<Rightarrow> 'q profile_status \<Rightarrow> bool" where
  "stale now st \<longleftrightarrow>
     (if time_is_zero (nr_last_report st) then True else time_sub now (nr_last_report st) > staleAfter)"

definition extendedValue :: "'q quantity_ops \<Rightarrow> 'q node \<Rightarrow> string \<Rightarrow> int" where
  "extendedValue Q node name = (case nd_allocatable node name of Some q \<Rightarrow> q_value Q q | None \<Rightarrow> 0)"

definition go_abs :: "int \<Rightarrow> int" where
  "go_abs v = (if v < 0 then i64 (- v) else v)"

definition significant :: "reconciler \<Rightarrow> int \<Rightarrow> int \<Rightarrow> int \<Rightarrow> int \<Rightarrow> bool" where
  "significant r cpuMilli memMiB curCPU curMem \<longleftrightarrow>
     (cpuMilli = 0) \<noteq> (curCPU = 0) \<or> (memMiB = 0) \<noteq> (curMem = 0) \<or>
     go_abs (i64 (cpuMilli - curCPU)) \<ge> oc_min_milli r \<or>
     i64 (i64 (go_abs (i64 (memMiB - curMem)) * 1024) * 1024) \<ge> oc_min_bytes r"

text \<open>The values a patch sets, on the capacity and on the allocatable list.\<close>

type_synonym extended_patch = "int \<times> int"

definition sync :: "'q quantity_ops \<Rightarrow> reconciler \<Rightarrow> 'q node \<Rightarrow> int \<Rightarrow> int \<Rightarrow> extended_patch option" where
  "sync Q r node cpuMilli memBytes =
     (let memMiB = go_div memBytes (1024 * 1024)
      in if significant r cpuMilli memMiB (extendedValue Q node ResourceReclaimedCPU)
             (extendedValue Q node ResourceReclaimedMemory)
         then Some (cpuMilli, memMiB) else None)"

definition apply_patch :: "'q quantity_ops \<Rightarrow> extended_patch \<Rightarrow> 'q node \<Rightarrow> 'q node" where
  "apply_patch Q p node =
     (let upd = (\<lambda>rl. rl(ResourceReclaimedCPU \<mapsto> q_new Q (fst p), ResourceReclaimedMemory \<mapsto> q_new Q (snd p)))
      in node\<lparr>nd_capacity := upd (nd_capacity node), nd_allocatable := upd (nd_allocatable node)\<rparr>)"

text \<open>
  The outcome of a call: what the work queue does with the key, the patch that was sent, and
  the outcome counted in \<^verbatim>\<open>NodeExtendedResourceSyncs\<close>.
\<close>

datatype requeue = Done | RequeueAfter duration | Failed

definition overcommit_Reconcile ::
  "'q quantity_ops \<Rightarrow> reconciler \<Rightarrow> gtime \<Rightarrow> api_error + 'q node_profile \<Rightarrow> (string \<Rightarrow> api_error + 'q node)
     \<Rightarrow> bool \<Rightarrow> requeue \<times> extended_patch option \<times> string option"
where
  "overcommit_Reconcile Q r now get_profile get_node patch_ok =
     (case get_profile of
        Inl NotFound \<Rightarrow> (Done, None, None)
      | Inl _ \<Rightarrow> (Failed, None, None)
      | Inr profile \<Rightarrow>
          (case get_node (pf_node_name profile) of
             Inl NotFound \<Rightarrow> (Done, None, None)
           | Inl _ \<Rightarrow> (Failed, None, None)
           | Inr node \<Rightarrow>
               let (cpuMilli0, memBytes0) = desiredFrom Q (pf_status profile);
                   (cpuMilli, memBytes) = (if stale now (pf_status profile) then (0, 0) else (cpuMilli0, memBytes0))
               in case sync Q r node cpuMilli memBytes of
                    None \<Rightarrow> (RequeueAfter (go_div staleAfter 2), None, Some ''nochange'')
                  | Some p \<Rightarrow>
                      if patch_ok then (RequeueAfter (go_div staleAfter 2), Some p, Some ''updated'')
                      else (Failed, Some p, Some ''error'')))"

definition AdvertisedFor :: "'q quantity_ops \<Rightarrow> 'q node \<Rightarrow> 'q resource_list" where
  "AdvertisedFor Q node =
     [ResourceCPU \<mapsto> q_new_milli Q (extendedValue Q node ResourceReclaimedCPU),
      ResourceMemory \<mapsto> q_new Q (i64 (i64 (extendedValue Q node ResourceReclaimedMemory * 1024) * 1024))]"

section \<open>The predicate\<close>

fun conditionStatus :: "condition list \<Rightarrow> string \<Rightarrow> string" where
  "conditionStatus [] condType = []"
| "conditionStatus (c # cs) condType = (if cn_type c = condType then cn_status c else conditionStatus cs condType)"

text \<open>An object that is not a profile is \<^const>\<open>None\<close>.\<close>

definition reclaimableChanged :: "'q profile_status option \<Rightarrow> 'q profile_status option \<Rightarrow> bool" where
  "reclaimableChanged old new =
     (case (old, new) of
        (Some oldP, Some newP) \<Rightarrow>
          if nr_revision oldP \<noteq> nr_revision newP then True
          else if np_level (nr_pressure oldP) \<noteq> np_level (nr_pressure newP) then True
          else conditionStatus (nr_conditions oldP) ''AgentHealthy'' \<noteq> conditionStatus (nr_conditions newP) ''AgentHealthy''
      | _ \<Rightarrow> True)"

section \<open>One call\<close>

lemma staleAfter_value: "staleAfter = 90000000000"
  by (simp add: staleAfter_def second_def)

lemma stale_iff: "stale now st \<longleftrightarrow> nr_last_report st = 0 \<or> 90 * second < now - nr_last_report st"
  using time_sub_greater_iff [of staleAfter now "nr_last_report st"]
  by (auto simp: stale_def time_is_zero_def staleAfter_value second_def min_i64_def max_i64_def)

text \<open>The amounts a profile entitles its node to, in millicores and whole mebibytes.\<close>

definition entitled :: "'q quantity_ops \<Rightarrow> gtime \<Rightarrow> 'q profile_status \<Rightarrow> int \<times> int" where
  "entitled Q now st =
     (if stale now st then (0, 0)
      else (max 0 (milliOf Q (nr_reclaimable st) ResourceCPU), max 0 (bytesOf Q (nr_reclaimable st) ResourceMemory) div 1048576))"

lemma entitled_nonneg: "0 \<le> fst (entitled Q now st)" "0 \<le> snd (entitled Q now st)"
  by (auto simp: entitled_def pos_imp_zdiv_nonneg_iff)

lemma Reconcile_eq:
  assumes "get_node (pf_node_name profile) = Inr node"
  shows "overcommit_Reconcile Q r now (Inr profile) get_node True =
    (RequeueAfter (45 * second),
     (if significant r (fst (entitled Q now (pf_status profile))) (snd (entitled Q now (pf_status profile)))
           (extendedValue Q node ResourceReclaimedCPU) (extendedValue Q node ResourceReclaimedMemory)
      then Some (entitled Q now (pf_status profile)) else None),
     Some (if significant r (fst (entitled Q now (pf_status profile))) (snd (entitled Q now (pf_status profile)))
           (extendedValue Q node ResourceReclaimedCPU) (extendedValue Q node ResourceReclaimedMemory)
      then ''updated'' else ''nochange''))"
proof -
  have d: "go_div (if b < 0 then 0 else b) 1048576 = max 0 b div 1048576" for b
    by (auto simp: go_div_nonneg max_def)
  have s: "go_div staleAfter 2 = 45 * second" by (simp add: staleAfter_value go_div_nonneg second_def)
  show ?thesis
    using assms d [of "bytesOf Q (nr_reclaimable (pf_status profile)) ResourceMemory"]
    by (auto simp: overcommit_Reconcile_def desiredFrom_def entitled_def sync_def Let_def s max_def go_div_nonneg)
qed

section \<open>What a node advertises\<close>

text \<open>The node after a call whose patch the API server accepts.\<close>

definition reconciled :: "'q quantity_ops \<Rightarrow> reconciler \<Rightarrow> gtime \<Rightarrow> 'q node_profile \<Rightarrow> 'q node \<Rightarrow> 'q node" where
  "reconciled Q r now profile node =
     (case overcommit_Reconcile Q r now (Inr profile) (\<lambda>name. Inr node) True of
        (q, Some p, k) \<Rightarrow> apply_patch Q p node
      | (q, None, k) \<Rightarrow> node)"

text \<open>The sizes for which no product or difference leaves \<^verbatim>\<open>int64\<close>.\<close>

definition extended_sane :: "int \<Rightarrow> int \<Rightarrow> bool" where
  "extended_sane milli mib \<longleftrightarrow> 0 \<le> milli \<and> milli \<le> 2 ^ 62 \<and> 0 \<le> mib \<and> mib \<le> 2 ^ 42"

lemma significant_sane:
  assumes "extended_sane c m" "extended_sane c' m'"
  shows "significant r c m c' m' \<longleftrightarrow>
    (c = 0) \<noteq> (c' = 0) \<or> (m = 0) \<noteq> (m' = 0) \<or> oc_min_milli r \<le> \<bar>c - c'\<bar> \<or> oc_min_bytes r \<le> \<bar>m - m'\<bar> * 1048576"
proof -
  have d: "\<bar>m - m'\<bar> \<le> 4398046511104" using assms by (auto simp: extended_sane_def)
  have "i64 (x * 1024) = x * 1024 \<and> i64 (x * 1048576) = x * 1048576" if "0 \<le> x" "x \<le> 4398046511104" for x
    using that by (auto intro!: i64_id in_i64I)
  from this [OF abs_ge_zero d] have "i64 (\<bar>m - m'\<bar> * 1024) = \<bar>m - m'\<bar> * 1024" "i64 (\<bar>m - m'\<bar> * 1048576) = \<bar>m - m'\<bar> * 1048576"
    by blast+
  then have w: "i64 (c - c') = c - c'" "i64 (m - m') = m - m'" "i64 (\<bar>m - m'\<bar> * 1024) = \<bar>m - m'\<bar> * 1024"
    "i64 (\<bar>m - m'\<bar> * 1048576) = \<bar>m - m'\<bar> * 1048576" "i64 (- (c - c')) = c' - c" "i64 (- (m - m')) = m' - m"
    using assms by (auto simp: extended_sane_def intro!: i64_id in_i64I)
  then have "go_abs (c - c') = \<bar>c - c'\<bar>" "go_abs (m - m') = \<bar>m - m'\<bar>" by (auto simp: go_abs_def)
  moreover have "\<bar>m - m'\<bar> * 1024 * 1024 = \<bar>m - m'\<bar> * 1048576" by simp
  ultimately show ?thesis by (simp only: significant_def w)
qed

lemma extended_after_patch:
  assumes "quantity_laws Q amount" "extended_sane c m"
  shows "extendedValue Q (apply_patch Q (c, m) node) ResourceReclaimedCPU = c"
    and "extendedValue Q (apply_patch Q (c, m) node) ResourceReclaimedMemory = m"
  using assms q_value_new [OF assms(1)]
  by (auto simp: extendedValue_def apply_patch_def Let_def extended_sane_def in_i64_def min_i64_def max_i64_def)

lemma reconciled_eq:
  "reconciled Q r now profile node =
    (if significant r (fst (entitled Q now (pf_status profile))) (snd (entitled Q now (pf_status profile)))
        (extendedValue Q node ResourceReclaimedCPU) (extendedValue Q node ResourceReclaimedMemory)
     then apply_patch Q (entitled Q now (pf_status profile)) node else node)"
  using Reconcile_eq [of "\<lambda>name. Inr node" profile node Q r now] by (simp add: reconciled_def)

text \<open>
  C11. After a successful call the node advertises what its profile entitles it to: zero exactly
  when the entitlement is zero, as it is whenever the profile has not been refreshed for 90
  seconds, and otherwise within the two suppression thresholds. Nothing else on the node
  changes.
\<close>

theorem overcommit_tracks:
  assumes "quantity_laws Q amount" and "entitled Q now (pf_status profile) = (c, m)" "extended_sane c m"
    and "extended_sane (extendedValue Q node ResourceReclaimedCPU) (extendedValue Q node ResourceReclaimedMemory)"
    and "0 < oc_min_milli r" "0 < oc_min_bytes r" and "node' = reconciled Q r now profile node"
  shows "(extendedValue Q node' ResourceReclaimedCPU = 0 \<longleftrightarrow> c = 0) \<and>
    (extendedValue Q node' ResourceReclaimedMemory = 0 \<longleftrightarrow> m = 0) \<and>
    \<bar>extendedValue Q node' ResourceReclaimedCPU - c\<bar> < oc_min_milli r \<and>
    \<bar>extendedValue Q node' ResourceReclaimedMemory - m\<bar> * 1048576 < oc_min_bytes r \<and>
    (90 * second < now - nr_last_report (pf_status profile) \<longrightarrow> c = 0 \<and> m = 0) \<and>
    (\<forall>name. name \<notin> {ResourceReclaimedCPU, ResourceReclaimedMemory} \<longrightarrow>
       nd_capacity node' name = nd_capacity node name \<and> nd_allocatable node' name = nd_allocatable node name)"
proof -
  note sig = significant_sane [OF assms(3,4), of r]
  have stale: "90 * second < now - nr_last_report (pf_status profile) \<longrightarrow> c = 0 \<and> m = 0"
    using assms(2) by (auto simp: entitled_def stale_iff)
  have node': "node' = (if significant r c m (extendedValue Q node ResourceReclaimedCPU)
      (extendedValue Q node ResourceReclaimedMemory) then apply_patch Q (c, m) node else node)"
    using assms(2,7) by (simp add: reconciled_eq)
  have rest: "name \<notin> {ResourceReclaimedCPU, ResourceReclaimedMemory} \<Longrightarrow>
      nd_capacity node' name = nd_capacity node name \<and> nd_allocatable node' name = nd_allocatable node name" for name
    by (simp add: node' apply_patch_def Let_def)
  show ?thesis
  proof (cases "significant r c m (extendedValue Q node ResourceReclaimedCPU) (extendedValue Q node ResourceReclaimedMemory)")
    case True
    then show ?thesis using node' extended_after_patch [OF assms(1,3), of node] assms(5,6) stale rest by simp
  next
    case False
    then have "node' = node" using node' by simp
    then show ?thesis using False sig stale rest by (simp add: abs_minus_commute not_le)
  qed
qed

text \<open>
  One call is enough: called again with nothing new, even with a later clock as long as the
  profile's staleness is the same, the reconciler sends no patch.
\<close>

theorem overcommit_settles:
  assumes "quantity_laws Q amount" and "entitled Q now (pf_status profile) = (c, m)" "extended_sane c m"
    and "0 < oc_min_milli r" "0 < oc_min_bytes r" and "stale now' (pf_status profile) = stale now (pf_status profile)"
  shows "overcommit_Reconcile Q r now' (Inr profile) (\<lambda>name. Inr (reconciled Q r now profile node)) True =
    (RequeueAfter (45 * second), None, Some ''nochange'')"
proof -
  let ?node' = "reconciled Q r now profile node"
  have e: "entitled Q now' (pf_status profile) = (c, m)" using assms(2,6) by (simp add: entitled_def)
  have "\<not> significant r c m (extendedValue Q ?node' ResourceReclaimedCPU) (extendedValue Q ?node' ResourceReclaimedMemory)"
    using extended_after_patch [OF assms(1,3), of node] significant_sane [OF assms(3,3), of r] assms(2,4,5)
    by (simp add: reconciled_eq)
  then show ?thesis using Reconcile_eq [of "\<lambda>name. Inr ?node'" profile ?node' Q r now'] e by simp
qed

section \<open>Examples\<close>

definition example_node :: "rat node" where
  "example_node = \<lparr>nd_name = ''n1'', nd_uid = ''uid-n1'', nd_labels = Map.empty,
     nd_capacity = [ResourceCPU \<mapsto> 8], nd_allocatable = [ResourceCPU \<mapsto> 8, ResourceReclaimedCPU \<mapsto> 1000]\<rparr>"

definition example_profile :: "gtime \<Rightarrow> rat node_profile" where
  "example_profile t = \<lparr>pf_node_name = ''n1'', pf_status = empty_status
     \<lparr>nr_reclaimable := [ResourceCPU \<mapsto> 2, ResourceMemory \<mapsto> 1073741824], nr_last_report := t\<rparr>\<rparr>"

lemma example_entitled:
  "entitled rat_quantity (second + 30 * second) (pf_status (example_profile second)) = (2000, 1024)"
  "entitled rat_quantity (second + 91 * second) (pf_status (example_profile second)) = (0, 0)"
  by (simp_all add: entitled_def stale_iff second_def example_profile_def milliOf_def bytesOf_def rat_quantity_def)

theorem overcommit_tracks_witness:
  "quantity_laws rat_quantity (\<lambda>q. q) \<and>
   extendedValue rat_quantity (reconciled rat_quantity (SetupDefaults \<lparr>oc_min_milli = 0, oc_min_bytes = 0\<rparr>)
     (second + 91 * second) (example_profile second) example_node) ResourceReclaimedCPU = 0"
proof -
  let ?r = "SetupDefaults \<lparr>oc_min_milli = 0, oc_min_bytes = 0\<rparr>"
  have v: "extendedValue rat_quantity example_node ResourceReclaimedCPU = 1000"
    "extendedValue rat_quantity example_node ResourceReclaimedMemory = 0"
    by (simp_all add: extendedValue_def example_node_def rat_quantity_def)
  show ?thesis
    using overcommit_tracks [OF quantity_laws_rat example_entitled(2), of example_node ?r] quantity_laws_rat
    by (simp add: v extended_sane_def SetupDefaults_def Let_def)
qed

theorem overcommit_settles_witness:
  "snd (overcommit_Reconcile rat_quantity (SetupDefaults \<lparr>oc_min_milli = 0, oc_min_bytes = 0\<rparr>) (second + 40 * second)
     (Inr (example_profile second)) (\<lambda>name. Inr (reconciled rat_quantity (SetupDefaults \<lparr>oc_min_milli = 0, oc_min_bytes = 0\<rparr>)
       (second + 30 * second) (example_profile second) example_node)) True) = (None, Some ''nochange'')"
proof -
  have st: "stale (second + 40 * second) (pf_status (example_profile second))
      = stale (second + 30 * second) (pf_status (example_profile second))"
    by (simp add: stale_iff example_profile_def second_def)
  show ?thesis
    by (subst overcommit_settles [OF quantity_laws_rat example_entitled(1) _ _ _ st])
       (simp_all add: extended_sane_def SetupDefaults_def Let_def)
qed

end
