(* ===== verification/Policy.thy ===== *)
theory Policy
  imports Overcommit
begin

text \<open>
  The cluster-wide rollup on the \<^verbatim>\<open>QoSPolicy\<close> and its default
  (\<^verbatim>\<open>pkg/controller/policy/controller.go\<close>). A label selector is a type \<open>'sel\<close> of the
  Kubernetes libraries; \<open>parse\<close> turns it into a predicate on labels or fails.
\<close>

section \<open>State\<close>

definition agentLivenessWindow :: duration where
  "agentLivenessWindow = 90 * second"

record 'q policy_status =
  qs_observed :: int
  qs_ready :: int
  qs_pressure :: int
  qs_total_cpu :: 'q
  qs_total_mem :: 'q
  qs_overcommit :: int
  qs_updated :: gtime
  qs_conditions :: "condition list"

record ('q, 'sel) qos_policy =
  qp_selector :: "'sel option"
  qp_spec :: "'q qos_policy_spec"
  qp_status :: "'q policy_status"

text \<open>The local variables of the loop.\<close>

record rollup =
  ru_observed :: int
  ru_ready :: int
  ru_pressure :: int
  ru_reclaim_cpu :: int
  ru_reclaim_mem :: int
  ru_alloc_cpu :: int
  ru_alloc_mem :: int

definition no_rollup :: rollup where
  "no_rollup = \<lparr>ru_observed = 0, ru_ready = 0, ru_pressure = 0, ru_reclaim_cpu = 0, ru_reclaim_mem = 0,
     ru_alloc_cpu = 0, ru_alloc_mem = 0\<rparr>"

type_synonym labels = "string \<Rightarrow> string option"

section \<open>Reconcile\<close>

definition profile_selected ::
  "(labels \<Rightarrow> bool) option \<Rightarrow> (string \<Rightarrow> api_error + 'q node) \<Rightarrow> 'q node_profile \<Rightarrow> bool"
where
  "profile_selected sel get_node p =
     (case sel of
        None \<Rightarrow> True
      | Some matches \<Rightarrow> (case get_node (pf_node_name p) of Inl err \<Rightarrow> False | Inr node \<Rightarrow> matches (nd_labels node)))"

definition agent_ready :: "gtime \<Rightarrow> 'q profile_status \<Rightarrow> bool" where
  "agent_ready now st \<longleftrightarrow> \<not> time_is_zero (nr_last_report st) \<and> time_sub now (nr_last_report st) < agentLivenessWindow"

definition rollup_step :: "'q quantity_ops \<Rightarrow> gtime \<Rightarrow> 'q profile_status \<Rightarrow> rollup \<Rightarrow> rollup" where
  "rollup_step Q now st a =
     \<lparr>ru_observed = i32 (ru_observed a + 1),
      ru_ready = (if agent_ready now st then i32 (ru_ready a + 1) else ru_ready a),
      ru_pressure = (if np_level (nr_pressure st) \<noteq> PressureNone then i32 (ru_pressure a + 1) else ru_pressure a),
      ru_reclaim_cpu = i64 (ru_reclaim_cpu a + milliOf Q (nr_reclaimable st) ResourceCPU),
      ru_reclaim_mem = i64 (ru_reclaim_mem a + bytesOf Q (nr_reclaimable st) ResourceMemory),
      ru_alloc_cpu = i64 (ru_alloc_cpu a + milliOf Q (nr_allocatable st) ResourceCPU),
      ru_alloc_mem = i64 (ru_alloc_mem a + bytesOf Q (nr_allocatable st) ResourceMemory)\<rparr>"

definition rollup_of ::
  "'q quantity_ops \<Rightarrow> gtime \<Rightarrow> (labels \<Rightarrow> bool) option \<Rightarrow> (string \<Rightarrow> api_error + 'q node) \<Rightarrow> 'q node_profile list \<Rightarrow> rollup"
where
  "rollup_of Q now sel get_node ps =
     fold (\<lambda>p a. if profile_selected sel get_node p then rollup_step Q now (pf_status p) a else a) ps no_rollup"

definition overcommit_percent :: "rollup \<Rightarrow> int" where
  "overcommit_percent a =
     (if ru_alloc_cpu a > 0 then i32 (go_div (i64 (ru_reclaim_cpu a * 100)) (ru_alloc_cpu a)) else 0)"

definition policy_status_of :: "'q quantity_ops \<Rightarrow> gtime \<Rightarrow> rollup \<Rightarrow> 'q policy_status \<Rightarrow> 'q policy_status" where
  "policy_status_of Q now a old =
     \<lparr>qs_observed = ru_observed a, qs_ready = ru_ready a, qs_pressure = ru_pressure a,
      qs_total_cpu = q_new_milli Q (ru_reclaim_cpu a), qs_total_mem = q_new Q (ru_reclaim_mem a),
      qs_overcommit = overcommit_percent a, qs_updated = now, qs_conditions = qs_conditions old\<rparr>"

text \<open>The result for the work queue, and the status that was written, if the write was tried.\<close>

definition policy_Reconcile ::
  "'q quantity_ops \<Rightarrow> ('sel \<Rightarrow> (labels \<Rightarrow> bool) option) \<Rightarrow> gtime \<Rightarrow> api_error + ('q, 'sel) qos_policy
     \<Rightarrow> api_error + 'q node_profile list \<Rightarrow> (string \<Rightarrow> api_error + 'q node) \<Rightarrow> bool
     \<Rightarrow> requeue \<times> 'q policy_status option"
where
  "policy_Reconcile Q parse now get_policy list_profiles get_node patch_ok =
     (case get_policy of
        Inl NotFound \<Rightarrow> (Done, None)
      | Inl _ \<Rightarrow> (Failed, None)
      | Inr policy \<Rightarrow>
          (case map_option parse (qp_selector policy) of
             Some None \<Rightarrow> (Failed, None)
           | parsed \<Rightarrow>
               (case list_profiles of
                  Inl _ \<Rightarrow> (Failed, None)
                | Inr ps \<Rightarrow>
                    let a = rollup_of Q now (map_option the parsed) get_node ps;
                        st = policy_status_of Q now a (qp_status policy)
                    in if patch_ok then (RequeueAfter (30 * second), Some st) else (Failed, Some st))))"

section \<open>The default policy object\<close>

text \<open>What \<^verbatim>\<open>EnsureDefault\<close> returns, and the spec it tried to create, if any.\<close>

definition EnsureDefault ::
  "'q qos_policy_spec \<Rightarrow> api_error + ('q, 'sel) qos_policy \<Rightarrow> api_error option \<Rightarrow> api_error option \<times> 'q qos_policy_spec option"
where
  "EnsureDefault spec got created =
     (case got of
        Inr policy \<Rightarrow> (None, None)
      | Inl NotFound \<Rightarrow>
          (case created of
             None \<Rightarrow> (None, Some spec)
           | Some AlreadyExists \<Rightarrow> (None, Some spec)
           | Some err \<Rightarrow> (Some err, Some spec))
      | Inl err \<Rightarrow> (Some err, None))"

section \<open>The rollup\<close>

lemma agent_ready_iff: "agent_ready now st \<longleftrightarrow> nr_last_report st \<noteq> 0 \<and> now - nr_last_report st < 90 * second"
  using time_sub_less_iff [of agentLivenessWindow now "nr_last_report st"]
  by (auto simp: agent_ready_def time_is_zero_def agentLivenessWindow_def second_def min_i64_def max_i64_def)

definition count :: "('a \<Rightarrow> bool) \<Rightarrow> 'a list \<Rightarrow> int" where
  "count P xs = int (length (filter P xs))"

lemma count_simps [simp]: "count P [] = 0" "count P (x # xs) = (if P x then 1 else 0) + count P xs"
  by (simp_all add: count_def)

lemma count_bounds: "0 \<le> count P xs" "count P xs \<le> int (length xs)"
  by (simp_all add: count_def)

abbreviation reclaim_cpu :: "'q quantity_ops \<Rightarrow> 'q profile_status \<Rightarrow> int" where
  "reclaim_cpu Q st \<equiv> milliOf Q (nr_reclaimable st) ResourceCPU"
abbreviation reclaim_mem :: "'q quantity_ops \<Rightarrow> 'q profile_status \<Rightarrow> int" where
  "reclaim_mem Q st \<equiv> bytesOf Q (nr_reclaimable st) ResourceMemory"
abbreviation alloc_cpu :: "'q quantity_ops \<Rightarrow> 'q profile_status \<Rightarrow> int" where
  "alloc_cpu Q st \<equiv> milliOf Q (nr_allocatable st) ResourceCPU"
abbreviation alloc_mem :: "'q quantity_ops \<Rightarrow> 'q profile_status \<Rightarrow> int" where
  "alloc_mem Q st \<equiv> bytesOf Q (nr_allocatable st) ResourceMemory"

text \<open>Amounts whose sum over the list stays in \<^verbatim>\<open>int64\<close>.\<close>

definition sum_fits :: "('a \<Rightarrow> int) \<Rightarrow> 'a list \<Rightarrow> bool" where
  "sum_fits f xs \<longleftrightarrow> (\<forall>x \<in> set xs. 0 \<le> f x) \<and> (\<Sum>x\<leftarrow>xs. f x) \<le> max_i64"

lemma i64_sum_fold:
  assumes "\<forall>x \<in> set xs. 0 \<le> f x" "0 \<le> acc" "acc + (\<Sum>x\<leftarrow>xs. f x) \<le> max_i64"
  shows "fold (\<lambda>x a. i64 (a + f x)) xs acc = acc + (\<Sum>x\<leftarrow>xs. f x)"
  using assms
proof (induction xs arbitrary: acc)
  case (Cons x xs)
  have "0 \<le> (\<Sum>x\<leftarrow>xs. f x)" using Cons.prems(1) by (intro sum_list_nonneg) auto
  then have "i64 (acc + f x) = acc + f x"
    using Cons.prems by (intro i64_id) (auto simp: in_i64_def min_i64_def)
  then show ?case using Cons.IH [of "acc + f x"] Cons.prems by (simp add: add.assoc)
qed simp

lemma i32_count_fold:
  "0 \<le> acc \<Longrightarrow> acc + int (length xs) < 2 ^ 31 \<Longrightarrow>
   fold (\<lambda>x a. if P x then i32 (a + 1) else a) xs acc = acc + count P xs"
  by (induction xs arbitrary: acc) (auto simp: i32_small)

lemma rollup_fields:
  fixes Q :: "'q quantity_ops"
  shows "ru_observed (fold (rollup_step Q now) sts a) = fold (\<lambda>st a. if True then i32 (a + 1) else a) sts (ru_observed a)"
    "ru_ready (fold (rollup_step Q now) sts a) = fold (\<lambda>st a. if agent_ready now st then i32 (a + 1) else a) sts (ru_ready a)"
    "ru_pressure (fold (rollup_step Q now) sts a) =
       fold (\<lambda>st a. if np_level (nr_pressure st) \<noteq> PressureNone then i32 (a + 1) else a) sts (ru_pressure a)"
    "ru_reclaim_cpu (fold (rollup_step Q now) sts a) = fold (\<lambda>st a. i64 (a + reclaim_cpu Q st)) sts (ru_reclaim_cpu a)"
    "ru_reclaim_mem (fold (rollup_step Q now) sts a) = fold (\<lambda>st a. i64 (a + reclaim_mem Q st)) sts (ru_reclaim_mem a)"
    "ru_alloc_cpu (fold (rollup_step Q now) sts a) = fold (\<lambda>st a. i64 (a + alloc_cpu Q st)) sts (ru_alloc_cpu a)"
    "ru_alloc_mem (fold (rollup_step Q now) sts a) = fold (\<lambda>st a. i64 (a + alloc_mem Q st)) sts (ru_alloc_mem a)"
  by (induction sts arbitrary: a) (simp_all add: rollup_step_def)

lemma rollup_of_selected:
  "rollup_of Q now sel get_node ps =
     fold (rollup_step Q now) (map pf_status (filter (profile_selected sel get_node) ps)) no_rollup"
proof -
  have "fold (\<lambda>p a. if P p then f (g p) a else a) ps a = fold f (map g (filter P ps)) a" for P f g and a :: rollup
    by (induction ps arbitrary: a) auto
  then show ?thesis by (simp add: rollup_of_def)
qed

lemma rollup_values:
  assumes "sts = map pf_status (filter (profile_selected sel get_node) ps)" and "a = rollup_of Q now sel get_node ps"
    and "int (length ps) < 2 ^ 31" and "sum_fits (reclaim_cpu Q) sts" "sum_fits (reclaim_mem Q) sts"
    "sum_fits (alloc_cpu Q) sts"
  shows "ru_observed a = int (length sts)"
    and "ru_ready a = count (\<lambda>st. nr_last_report st \<noteq> 0 \<and> now - nr_last_report st < 90 * second) sts"
    and "ru_pressure a = count (\<lambda>st. np_level (nr_pressure st) \<noteq> PressureNone) sts"
    and "ru_reclaim_cpu a = (\<Sum>st\<leftarrow>sts. reclaim_cpu Q st)" "ru_reclaim_mem a = (\<Sum>st\<leftarrow>sts. reclaim_mem Q st)"
    and "ru_alloc_cpu a = (\<Sum>st\<leftarrow>sts. alloc_cpu Q st)"
proof -
  have a: "a = fold (rollup_step Q now) sts no_rollup" by (simp add: assms(1,2) rollup_of_selected)
  have len: "int (length sts) < 2 ^ 31"
    using assms(3) length_filter_le [of "profile_selected sel get_node" ps] unfolding assms(1) length_map by linarith
  have zero: "ru_observed no_rollup = 0" "ru_ready no_rollup = 0" "ru_pressure no_rollup = 0"
    "ru_reclaim_cpu no_rollup = 0" "ru_reclaim_mem no_rollup = 0" "ru_alloc_cpu no_rollup = 0"
    by (simp_all add: no_rollup_def)
  have cnt: "fold (\<lambda>st a. if P st then i32 (a + 1) else a) sts 0 = count P sts" for P
    using len i32_count_fold [of 0 sts P] by simp
  have sum: "fold (\<lambda>st a. i64 (a + f st)) sts 0 = (\<Sum>st\<leftarrow>sts. f st)" if "sum_fits f sts" for f
    using that i64_sum_fold [of sts f 0] by (simp add: sum_fits_def)
  have ready: "agent_ready now = (\<lambda>st. nr_last_report st \<noteq> 0 \<and> now - nr_last_report st < 90 * second)"
    by (simp add: fun_eq_iff agent_ready_iff)
  note fields = rollup_fields [of Q now sts no_rollup, folded a, unfolded zero]
  show "ru_observed a = int (length sts)" unfolding fields cnt by (simp add: count_def)
  show "ru_ready a = count (\<lambda>st. nr_last_report st \<noteq> 0 \<and> now - nr_last_report st < 90 * second) sts"
    unfolding fields cnt ready ..
  show "ru_pressure a = count (\<lambda>st. np_level (nr_pressure st) \<noteq> PressureNone) sts" unfolding fields cnt ..
  show "ru_reclaim_cpu a = (\<Sum>st\<leftarrow>sts. reclaim_cpu Q st)" unfolding fields sum [OF assms(4)] ..
  show "ru_reclaim_mem a = (\<Sum>st\<leftarrow>sts. reclaim_mem Q st)" unfolding fields sum [OF assms(5)] ..
  show "ru_alloc_cpu a = (\<Sum>st\<leftarrow>sts. alloc_cpu Q st)" unfolding fields sum [OF assms(6)] ..
qed

lemma policy_Reconcile_writes:
  assumes "map_option parse (qp_selector policy) = map_option Some sel"
  shows "policy_Reconcile Q parse now (Inr policy) (Inr ps) get_node patch_ok =
    (if patch_ok then RequeueAfter (30 * second) else Failed,
     Some (policy_status_of Q now (rollup_of Q now sel get_node ps) (qp_status policy)))"
  using assms by (cases sel; cases "qp_selector policy") (simp_all add: policy_Reconcile_def Let_def)

text \<open>Sizes within which the percentage is computed without a wrap-around.\<close>

definition percent_fits :: "int \<Rightarrow> int \<Rightarrow> bool" where
  "percent_fits r a \<longleftrightarrow> r \<le> max_i64 div 100 \<and> (0 < a \<longrightarrow> 100 * r div a < 2 ^ 31)"

lemma overcommit_percent_exact:
  assumes "0 \<le> ru_reclaim_cpu a" "percent_fits (ru_reclaim_cpu a) (ru_alloc_cpu a)"
  shows "overcommit_percent a = (if 0 < ru_alloc_cpu a then 100 * ru_reclaim_cpu a div ru_alloc_cpu a else 0)"
proof -
  have "i64 (ru_reclaim_cpu a * 100) = ru_reclaim_cpu a * 100"
    using assms by (intro i64_id in_i64I) (auto simp: percent_fits_def max_i64_def)
  moreover have "i32 (100 * ru_reclaim_cpu a div ru_alloc_cpu a) = 100 * ru_reclaim_cpu a div ru_alloc_cpu a" if "0 < ru_alloc_cpu a"
  proof (rule i32_small)
    have "0 \<le> 100 * ru_reclaim_cpu a div ru_alloc_cpu a" using that assms(1) by (simp add: pos_imp_zdiv_nonneg_iff)
    then show "- (2 ^ 31) \<le> 100 * ru_reclaim_cpu a div ru_alloc_cpu a" by (rule order_trans [rotated]) simp
  qed (use that assms(2) in \<open>simp add: percent_fits_def\<close>)
  ultimately show ?thesis using assms(1) by (simp add: overcommit_percent_def go_div_nonneg mult.commute)
qed

text \<open>
  C34. The status the policy reconciler writes is the arithmetic of the selected profiles: how many there
  are, how many of them reported within 90 seconds (whatever the health they reported), how many are not
  at pressure None, the totals they offer, and the offered cpu as a percentage of their allocatable cpu.
  A node counted ready is never one whose profile the overcommit controller holds stale. The conditions
  are kept. The status is the same whether the API server takes the write or refuses it.
\<close>

theorem rollup_correct:
  assumes "map_option parse (qp_selector policy) = map_option Some sel"
    and "sts = map pf_status (filter (profile_selected sel get_node) ps)"
    and "int (length ps) < 2 ^ 31" and "sum_fits (reclaim_cpu Q) sts" "sum_fits (reclaim_mem Q) sts"
    "sum_fits (alloc_cpu Q) sts" "percent_fits (\<Sum>st\<leftarrow>sts. reclaim_cpu Q st) (\<Sum>st\<leftarrow>sts. alloc_cpu Q st)"
  shows "\<exists>st. policy_Reconcile Q parse now (Inr policy) (Inr ps) get_node patch_ok
      = (if patch_ok then RequeueAfter (30 * second) else Failed, Some st) \<and>
    qs_observed st = int (length sts) \<and>
    qs_ready st = count (\<lambda>st. nr_last_report st \<noteq> 0 \<and> now - nr_last_report st < 90 * second) sts \<and>
    (\<forall>st \<in> set sts. nr_last_report st \<noteq> 0 \<and> now - nr_last_report st < 90 * second \<longrightarrow> \<not> stale now st) \<and>
    qs_pressure st = count (\<lambda>st. np_level (nr_pressure st) \<noteq> PressureNone) sts \<and>
    qs_total_cpu st = q_new_milli Q (\<Sum>st\<leftarrow>sts. reclaim_cpu Q st) \<and>
    qs_total_mem st = q_new Q (\<Sum>st\<leftarrow>sts. reclaim_mem Q st) \<and>
    qs_overcommit st = (if 0 < (\<Sum>st\<leftarrow>sts. alloc_cpu Q st)
      then 100 * (\<Sum>st\<leftarrow>sts. reclaim_cpu Q st) div (\<Sum>st\<leftarrow>sts. alloc_cpu Q st) else 0) \<and>
    qs_updated st = now \<and> qs_conditions st = qs_conditions (qp_status policy)"
proof -
  note v = rollup_values [OF assms(2) refl assms(3-6)]
  have "0 \<le> (\<Sum>st\<leftarrow>sts. reclaim_cpu Q st)" using assms(4) by (intro sum_list_nonneg) (auto simp: sum_fits_def)
  then have "overcommit_percent (rollup_of Q now sel get_node ps) = (if 0 < (\<Sum>st\<leftarrow>sts. alloc_cpu Q st)
      then 100 * (\<Sum>st\<leftarrow>sts. reclaim_cpu Q st) div (\<Sum>st\<leftarrow>sts. alloc_cpu Q st) else 0)"
    using overcommit_percent_exact [of "rollup_of Q now sel get_node ps"] assms(7) by (simp add: v(4) v(6))
  then show ?thesis
    by (intro exI [of _ "policy_status_of Q now (rollup_of Q now sel get_node ps) (qp_status policy)"])
      (simp add: policy_Reconcile_writes [OF assms(1)] policy_status_of_def v(1-5) stale_iff)
qed

text \<open>A degraded agent that reported lately counts as ready, against the comment on the field.\<close>

definition degraded_status :: "rat profile_status" where
  "degraded_status = (pf_status (example_profile second))\<lparr>nr_conditions :=
     [\<lparr>cn_type = ''AgentHealthy'', cn_status = ConditionFalse, cn_reason = ''Degraded'', cn_message = [], cn_transition = 0\<rparr>]\<rparr>"

theorem degraded_counts_ready:
  "conditionStatus (nr_conditions degraded_status) ''AgentHealthy'' = ConditionFalse \<and>
   agent_ready (second + 30 * second) degraded_status"
  by (simp add: degraded_status_def agent_ready_iff example_profile_def second_def)

text \<open>
  The cluster figure cannot exceed the per-node cap: where every selected node offers at most
  \<open>p\<close> percent of its allocatable cpu, the effective overcommit is at most \<open>p\<close> percent.
\<close>

theorem overcommit_percent_bound:
  assumes "sts = map pf_status (filter (profile_selected sel get_node) ps)"
    and "sum_fits (reclaim_cpu Q) sts" "sum_fits (alloc_cpu Q) sts" "(\<Sum>st\<leftarrow>sts. reclaim_cpu Q st) \<le> max_i64 div 100"
    and "\<forall>st \<in> set sts. 100 * reclaim_cpu Q st \<le> p * alloc_cpu Q st" and "0 \<le> p" "p \<le> 100"
  shows "0 \<le> overcommit_percent (rollup_of Q now sel get_node ps) \<and> overcommit_percent (rollup_of Q now sel get_node ps) \<le> p"
proof -
  let ?R = "\<Sum>st\<leftarrow>sts. reclaim_cpu Q st" and ?A = "\<Sum>st\<leftarrow>sts. alloc_cpu Q st"
  have sum: "fold (\<lambda>st a. i64 (a + f st)) sts 0 = (\<Sum>st\<leftarrow>sts. f st)" if "sum_fits f sts" for f
    using that i64_sum_fold [of sts f 0] by (simp add: sum_fits_def)
  have fields: "ru_reclaim_cpu (rollup_of Q now sel get_node ps) = ?R" "ru_alloc_cpu (rollup_of Q now sel get_node ps) = ?A"
    using sum assms(2,3) by (simp_all add: rollup_of_selected rollup_fields no_rollup_def flip: assms(1))
  have R: "0 \<le> ?R" using assms(2) by (intro sum_list_nonneg) (auto simp: sum_fits_def)
  have "(\<Sum>st\<leftarrow>sts. 100 * reclaim_cpu Q st) \<le> (\<Sum>st\<leftarrow>sts. p * alloc_cpu Q st)"
    using assms(5) by (intro sum_list_map_mono) auto
  then have cap: "100 * ?R \<le> p * ?A" by (simp add: sum_list_const_mult)
  have w: "i64 (?R * 100) = ?R * 100" using R assms(4) by (intro i64_id in_i64I) (auto simp: max_i64_def)
  show ?thesis
  proof (cases "0 < ?A")
    case True
    have "?R * 100 div ?A \<le> p * ?A div ?A" using cap True by (intro zdiv_mono1) (simp_all add: mult.commute)
    then have q: "?R * 100 div ?A \<le> p" using True by simp
    have "0 \<le> ?R * 100 div ?A" using R True by (simp add: pos_imp_zdiv_nonneg_iff)
    with q assms(7) have "i32 (?R * 100 div ?A) = ?R * 100 div ?A" by (intro i32_small) simp_all
    then show ?thesis
      using True q R \<open>0 \<le> ?R * 100 div ?A\<close> by (simp add: overcommit_percent_def fields w go_div_nonneg)
  next
    case False
    then show ?thesis using assms(6) by (simp add: overcommit_percent_def fields)
  qed
qed

text \<open>The totals include what a dead node last offered, which the node no longer advertises.\<close>

theorem rollup_counts_dead_nodes:
  "ru_reclaim_cpu (rollup_of rat_quantity (second + 91 * second) None (\<lambda>name. Inl NotFound) [example_profile second]) = 2000 \<and>
   entitled rat_quantity (second + 91 * second) (pf_status (example_profile second)) = (0, 0)"
proof -
  have "milliOf rat_quantity [ResourceCPU \<mapsto> 2, ResourceMemory \<mapsto> 1073741824] ResourceCPU = 2000"
    by (simp add: milliOf_def rat_quantity_def)
  then show ?thesis
    using example_entitled(2)
    by (simp add: rollup_of_def profile_selected_def rollup_step_def no_rollup_def i64_def) (simp add: example_profile_def)
qed

lemma example_rollup:
  "map pf_status (filter (profile_selected None (\<lambda>name. Inl NotFound)) [example_profile second]) = [pf_status (example_profile second)]"
  "reclaim_cpu rat_quantity (pf_status (example_profile second)) = 2000"
  "reclaim_mem rat_quantity (pf_status (example_profile second)) = 1073741824"
  "alloc_cpu rat_quantity (pf_status (example_profile second)) = 0"
  "alloc_mem rat_quantity (pf_status (example_profile second)) = 0"
  by (simp_all add: profile_selected_def example_profile_def milliOf_def bytesOf_def rat_quantity_def empty_status_def)

definition example_policy_object :: "rat qos_policy_spec \<Rightarrow> (rat, unit) qos_policy" where
  "example_policy_object spec = \<lparr>qp_selector = None, qp_spec = spec,
     qp_status = \<lparr>qs_observed = 0, qs_ready = 0, qs_pressure = 0, qs_total_cpu = 0, qs_total_mem = 0, qs_overcommit = 0,
       qs_updated = 0, qs_conditions = []\<rparr>\<rparr>"

theorem rollup_correct_witness:
  "\<forall>spec. \<exists>st. policy_Reconcile rat_quantity (\<lambda>sel. None) (second + 30 * second) (Inr (example_policy_object spec))
      (Inr [example_profile second]) (\<lambda>name. Inl NotFound) True = (RequeueAfter (30 * second), Some st) \<and>
     qs_observed st = 1 \<and> qs_ready st = 1 \<and> qs_total_cpu st = 2"
proof
  fix spec :: "rat qos_policy_spec"
  let ?sts = "[pf_status (example_profile second)]"
  have f: "sum_fits (reclaim_cpu rat_quantity) ?sts" "sum_fits (reclaim_mem rat_quantity) ?sts" "sum_fits (alloc_cpu rat_quantity) ?sts"
    by (simp_all add: sum_fits_def example_rollup max_i64_def)
  have p: "percent_fits (\<Sum>st\<leftarrow>?sts. reclaim_cpu rat_quantity st) (\<Sum>st\<leftarrow>?sts. alloc_cpu rat_quantity st)"
    by (simp add: percent_fits_def example_rollup max_i64_def)
  have sel: "map_option (\<lambda>sel. None) (qp_selector (example_policy_object spec)) = map_option Some (None :: (labels \<Rightarrow> bool) option)"
    by (simp add: example_policy_object_def)
  have len: "int (length [example_profile second]) < 2 ^ 31" by simp
  obtain st where st: "policy_Reconcile rat_quantity (\<lambda>sel. None) (second + 30 * second) (Inr (example_policy_object spec))
      (Inr [example_profile second]) (\<lambda>name. Inl NotFound) True = (if True then RequeueAfter (30 * second) else Failed, Some st)"
    "qs_observed st = int (length ?sts)"
    "qs_ready st = count (\<lambda>st. nr_last_report st \<noteq> 0 \<and> (second + 30 * second) - nr_last_report st < 90 * second) ?sts"
    "qs_total_cpu st = q_new_milli rat_quantity (\<Sum>st\<leftarrow>?sts. reclaim_cpu rat_quantity st)"
    using rollup_correct [OF sel example_rollup(1) [symmetric] len f p, of "second + 30 * second" True] by blast
  have "nr_last_report (pf_status (example_profile second)) = second" "second \<noteq> 0" by (simp_all add: example_profile_def second_def)
  then have "qs_ready st = 1" using st(3) by (simp add: second_def)
  moreover have "qs_total_cpu st = 2" using st(4) by (simp add: example_rollup) (simp add: rat_quantity_def)
  ultimately show "\<exists>st. policy_Reconcile rat_quantity (\<lambda>sel. None) (second + 30 * second) (Inr (example_policy_object spec))
      (Inr [example_profile second]) (\<lambda>name. Inl NotFound) True = (RequeueAfter (30 * second), Some st) \<and>
     qs_observed st = 1 \<and> qs_ready st = 1 \<and> qs_total_cpu st = 2"
    using st(1,2) by (intro exI [of _ st]) simp
qed

theorem overcommit_percent_bound_witness:
  "overcommit_percent (rollup_of rat_quantity (second + 30 * second) None (\<lambda>name. Inl NotFound)
     [(example_profile second)\<lparr>pf_status := (pf_status (example_profile second))\<lparr>nr_allocatable := [ResourceCPU \<mapsto> 8]\<rparr>\<rparr>]) \<le> 50"
proof -
  let ?p = "(example_profile second)\<lparr>pf_status := (pf_status (example_profile second))\<lparr>nr_allocatable := [ResourceCPU \<mapsto> 8]\<rparr>\<rparr>"
  have s: "[pf_status ?p] = map pf_status (filter (profile_selected None (\<lambda>name. Inl NotFound)) [?p])"
    by (simp add: profile_selected_def)
  have v: "reclaim_cpu rat_quantity (pf_status ?p) = 2000" "alloc_cpu rat_quantity (pf_status ?p) = 8000"
    by (simp_all add: example_profile_def milliOf_def rat_quantity_def)
  show ?thesis
    using overcommit_percent_bound [OF s, of rat_quantity 50 "second + 30 * second"]
    by (simp only: sum_fits_def list.set ball_simps list.map sum_list.Cons sum_list.Nil v) (simp add: max_i64_def)
qed

end
