(* ===== verification/Usage.thy ===== *)
theory Usage
  imports Order_Statistics Go_Sort "HOL-Library.AList" "HOL-Library.List_Lexorder" "HOL-Library.Char_ord"
begin

text \<open>
  The usage data plane (\<^verbatim>\<open>pkg/usage\<close>): the store of per-pod samples the controller keeps
  (\<^verbatim>\<open>store.go\<close>), the ingestion endpoint in front of it (\<^verbatim>\<open>transport.go\<close>) and the agent's publisher
  (\<^verbatim>\<open>publisher.go\<close>). A Go map whose iteration order matters to nobody is an association list with
  distinct keys. JSON decoding, DNS and HTTP are parameters. The refinement lemmas say that the store
  answers from the log of everything accepted, less what has expired and less what the cap cut off.
\<close>

section \<open>Reports and workloads\<close>

record pod_report =
  ur_uid :: string
  ur_namespace :: string
  ur_name :: string
  ur_level :: string
  ur_owner_kind :: string
  ur_owner_name :: string
  ur_cpu :: f64
  ur_mem :: int
  ur_req_cpu :: int
  ur_req_mem :: int
  ur_throttled :: f64

record report =
  rp_node :: string
  rp_timestamp :: gtime
  rp_pods :: "pod_report list"
  rp_degraded :: bool

record workload_key =
  wk_namespace :: string
  wk_kind :: string
  wk_name :: string

definition key_String :: "workload_key \<Rightarrow> string" where
  "key_String k = wk_namespace k @ ''/'' @ wk_kind k @ ''/'' @ wk_name k"

text \<open>
  The index is injective as long as namespaces and kinds hold no slash, which the API server
  guarantees for both.
\<close>

lemma slash_split:
  "c \<notin> set a \<Longrightarrow> c \<notin> set b \<Longrightarrow> a @ c # x = b @ c # y \<Longrightarrow> a = b \<and> x = y"
proof (induction a arbitrary: b)
  case Nil
  then show ?case by (cases b) auto
next
  case (Cons d a)
  then show ?case by (cases b) auto
qed

lemma key_String_inj:
  assumes k: "CHR ''/'' \<notin> set (wk_namespace k)" "CHR ''/'' \<notin> set (wk_kind k)"
    and l: "CHR ''/'' \<notin> set (wk_namespace l)" "CHR ''/'' \<notin> set (wk_kind l)"
    and eq: "key_String k = key_String l"
  shows "k = (l :: workload_key)"
proof -
  have "wk_namespace k @ CHR ''/'' # wk_kind k @ CHR ''/'' # wk_name k
      = wk_namespace l @ CHR ''/'' # wk_kind l @ CHR ''/'' # wk_name l"
    using eq by (simp add: key_String_def)
  from slash_split [OF k(1) l(1) this]
  have n: "wk_namespace k = wk_namespace l"
    and rest: "wk_kind k @ CHR ''/'' # wk_name k = wk_kind l @ CHR ''/'' # wk_name l" by simp_all
  from slash_split [OF k(2) l(2) rest] n show ?thesis by simp
qed

section \<open>Distributions\<close>

record stats =
  us_samples :: int
  us_p50 :: f64
  us_p90 :: f64
  us_p95 :: f64
  us_p99 :: f64
  us_max :: f64
  us_mean :: f64

definition no_stats :: stats where
  "no_stats = \<lparr>us_samples = 0, us_p50 = 0, us_p90 = 0, us_p95 = 0, us_p99 = 0, us_max = 0, us_mean = 0\<rparr>"

text \<open>The store's own copy of the percentile; it is the advisor's.\<close>

definition nearestRank :: "f64 list \<Rightarrow> f64 \<Rightarrow> f64" where
  "nearestRank srt p =
     (if srt = [] then 0
      else let rank = f_to_i64 (math_ceil (f_mul (f_div p 100) (f_of_int (int (length srt)))));
               r1 = (if rank < 1 then 1 else rank);
               r2 = (if r1 > int (length srt) then int (length srt) else r1)
           in srt ! nat (r2 - 1))"

lemma nearestRank_eq [simp]: "nearestRank = nearest_rank"
  by (simp add: fun_eq_iff nearestRank_def nearest_rank_def rank_of_def raw_rank_def Let_def)

definition summarise :: "f64 list \<Rightarrow> stats" where
  "summarise vals =
     (if vals = [] then no_stats
      else let srt = sort vals; total = fold (\<lambda>v acc. f_add acc v) srt 0
        in \<lparr>us_samples = int (length srt),
            us_p50 = nearestRank srt 50, us_p90 = nearestRank srt 90, us_p95 = nearestRank srt 95,
            us_p99 = nearestRank srt 99, us_max = srt ! (length srt - 1),
            us_mean = f_div total (f_of_int (int (length srt)))\<rparr>)"

text \<open>
  What a distribution says of the observations: the percentiles are ordered, the maximum is above
  every observation, and at least 95 of 100 observations do not exceed the 95th percentile.
\<close>

lemma summarise_max:
  assumes "vals \<noteq> []"
  shows "us_max (summarise vals) \<in> set vals \<and> (\<forall>v \<in> set vals. v \<le> us_max (summarise vals))"
proof -
  have ne: "sort vals \<noteq> []" using assms by (metis length_0_conv length_sort)
  have m: "us_max (summarise vals) = last (sort vals)" using assms ne by (simp add: summarise_def Let_def last_conv_nth)
  have "v \<le> last (sort vals)" if "v \<in> set vals" for v
  proof -
    have "v \<in> set (sort vals)" using that by simp
    then obtain i where i: "i < length (sort vals)" "v = sort vals ! i" by (metis in_set_conv_nth)
    have "sort vals ! i \<le> sort vals ! (length (sort vals) - 1)" using i(1) by (intro sorted_nth_mono) simp_all
    then show ?thesis using i ne by (simp add: last_conv_nth)
  qed
  then show ?thesis using m last_in_set [OF ne] by simp
qed

lemma summarise_p95:
  assumes "vals \<noteq> []" and "int (length vals) \<le> 2 ^ 40"
  shows "us_p95 (summarise vals) \<in> set vals"
    and "95 * int (length vals) \<le> 100 * int (length (filter (\<lambda>x. x \<le> us_p95 (summarise vals)) vals))"
proof -
  have p: "us_p95 (summarise vals) = nearest_rank (sort vals) 95" using assms(1) by (simp add: summarise_def Let_def)
  show "us_p95 (summarise vals) \<in> set vals" using percentile_stat.pick_in [OF assms(1), of 95] p by simp
  have "rank_of 95 (length vals) = \<lceil>of_int (95 * int (length vals)) / 100 :: rat\<rceil>"
    using rank_of_ceil [OF raw_rank_exact [of 95 "length vals"]] assms by simp
  then have "of_int (95 * int (length vals)) / 100 \<le> (of_int (rank_of 95 (length vals)) :: rat)" by simp
  then have "(of_int (95 * int (length vals)) :: rat) \<le> of_int (100 * rank_of 95 (length vals))" by simp
  then have "95 * int (length vals) \<le> 100 * rank_of 95 (length vals)" by (simp only: of_int_le_iff)
  with nearest_rank_splits(1) [OF assms(1), of 95] p
  show "95 * int (length vals) \<le> 100 * int (length (filter (\<lambda>x. x \<le> us_p95 (summarise vals)) vals))" by simp
qed

lemma summarise_ordered:
  assumes "int (length vals) \<le> 2 ^ 53" and "vals \<noteq> []"
  shows "us_p50 (summarise vals) \<le> us_p90 (summarise vals)" and "us_p90 (summarise vals) \<le> us_p95 (summarise vals)"
    and "us_p95 (summarise vals) \<le> us_p99 (summarise vals)" and "us_p99 (summarise vals) \<le> us_max (summarise vals)"
proof -
  show "us_p50 (summarise vals) \<le> us_p90 (summarise vals)" "us_p90 (summarise vals) \<le> us_p95 (summarise vals)"
    "us_p95 (summarise vals) \<le> us_p99 (summarise vals)"
    using assms by (simp_all add: summarise_def Let_def nearest_rank_mono)
  have "us_p99 (summarise vals) \<in> set vals"
    using percentile_stat.pick_in [OF assms(2), of 99] assms(2) by (simp add: summarise_def Let_def)
  then show "us_p99 (summarise vals) \<le> us_max (summarise vals)" using summarise_max [OF assms(2)] by blast
qed

section \<open>The store\<close>

record usample =
  uo_at :: gtime
  uo_cpu :: f64
  uo_mem :: f64
  uo_req_cpu :: f64
  uo_req_mem :: f64
  uo_uid :: string

record series =
  se_key :: workload_key
  se_samples :: "usample list"
  se_pods :: "(string \<times> gtime) list"
  se_last :: gtime

record store =
  st_retention :: duration
  st_max :: nat
  st_series :: "(string \<times> series) list"
  st_seen :: "(string \<times> gtime) list"

text \<open>\<^verbatim>\<open>OwnerResolver\<close>: namespace, kind and name of a pod's controller to the workload behind it.\<close>

type_synonym owner_resolver = "string \<Rightarrow> string \<Rightarrow> string \<Rightarrow> workload_key option"

definition NewStore :: "duration \<Rightarrow> store" where
  "NewStore retention0 =
     \<lparr>st_retention = (if retention0 \<le> 0 then 10 * minute else retention0), st_max = 4096,
      st_series = [], st_seen = []\<rparr>"

definition workloadKey :: "owner_resolver option \<Rightarrow> pod_report \<Rightarrow> workload_key option" where
  "workloadKey resolve p =
     (case (if ur_owner_kind p \<noteq> [] then
              (case resolve of None \<Rightarrow> None
               | Some f \<Rightarrow> f (ur_namespace p) (ur_owner_kind p) (ur_owner_name p))
            else None) of
        Some key \<Rightarrow> Some key
      | None \<Rightarrow>
          if ur_owner_kind p \<noteq> []
          then Some \<lparr>wk_namespace = ur_namespace p, wk_kind = ur_owner_kind p, wk_name = ur_owner_name p\<rparr>
          else Some \<lparr>wk_namespace = ur_namespace p, wk_kind = ''Pod'', wk_name = ur_name p\<rparr>)"

definition usample_of :: "gtime \<Rightarrow> pod_report \<Rightarrow> usample" where
  "usample_of ts p =
     \<lparr>uo_at = ts, uo_cpu = ur_cpu p, uo_mem = f_of_int (ur_mem p),
      uo_req_cpu = f_of_int (ur_req_cpu p), uo_req_mem = f_of_int (ur_req_mem p), uo_uid = ur_uid p\<rparr>"

definition ingest_pod :: "owner_resolver option \<Rightarrow> gtime \<Rightarrow> gtime \<Rightarrow> pod_report \<Rightarrow> store \<times> int \<Rightarrow> store \<times> int" where
  "ingest_pod resolve now ts p = (\<lambda>(s, accepted).
     (case workloadKey resolve p of
        None \<Rightarrow> (s, accepted)
      | Some key \<Rightarrow>
          let ks = key_String key;
              ser0 = (case map_of (st_series s) ks of
                        None \<Rightarrow> \<lparr>se_key = key, se_samples = [], se_pods = [], se_last = 0\<rparr>
                      | Some ser \<Rightarrow> ser);
              samples = se_samples ser0 @ [usample_of ts p];
              ser = ser0\<lparr>se_samples := (if length samples > st_max s then take_last (st_max s) samples else samples),
                         se_pods := AList.update (ur_uid p) ts (se_pods ser0), se_last := now\<rparr>
          in (s\<lparr>st_series := AList.update ks ser (st_series s)\<rparr>, accepted + 1)))"

definition Ingest :: "owner_resolver option \<Rightarrow> gtime \<Rightarrow> report \<Rightarrow> store \<Rightarrow> store \<times> int" where
  "Ingest resolve now r s =
     (if rp_degraded r then (s, 0)
      else let ts = (if time_is_zero (rp_timestamp r) then now else rp_timestamp r);
               s1 = s\<lparr>st_seen := AList.update (rp_node r) now (st_seen s)\<rparr>
        in fold (ingest_pod resolve now ts) (rp_pods r) (s1, 0))"

definition stats_of :: "usample list \<Rightarrow> (stats \<times> stats \<times> int) option" where
  "stats_of alive =
     (if alive = [] then None
      else Some (summarise (map uo_cpu alive), summarise (map uo_mem alive),
                 int (length (remdups (map uo_uid alive)))))"

definition WorkloadStats :: "workload_key \<Rightarrow> gtime \<Rightarrow> store \<Rightarrow> (stats \<times> stats \<times> int) option" where
  "WorkloadStats key now s =
     (case map_of (st_series s) (key_String key) of
        None \<Rightarrow> None
      | Some ser \<Rightarrow>
          let cutoff = now - st_retention s
          in stats_of (filter (\<lambda>sm. \<not> uo_at sm < cutoff) (se_samples ser)))"

definition WorkloadRequests :: "workload_key \<Rightarrow> store \<Rightarrow> (int \<times> int) option" where
  "WorkloadRequests key s =
     (case map_of (st_series s) (key_String key) of
        None \<Rightarrow> None
      | Some ser \<Rightarrow>
          if se_samples ser = [] then None
          else let final = se_samples ser ! (length (se_samples ser) - 1)
            in Some (f_to_i64 (uo_req_cpu final), f_to_i64 (uo_req_mem final)))"

definition store_Keys :: "slice_sort \<Rightarrow> store \<Rightarrow> workload_key list" where
  "store_Keys S s = sort_Slice S (\<lambda>a b. key_String a < key_String b) (map (se_key \<circ> snd) (st_series s))"

definition store_Nodes :: "store \<Rightarrow> (string \<times> gtime) list" where
  "store_Nodes s = st_seen s"

definition gc_series :: "gtime \<Rightarrow> duration \<Rightarrow> series \<Rightarrow> series" where
  "gc_series now retention ser =
     (let cutoff = now - retention
      in ser\<lparr>se_samples := filter (\<lambda>sm. \<not> uo_at sm < cutoff) (se_samples ser)\<rparr>)"

definition store_GC :: "gtime \<Rightarrow> store \<Rightarrow> store" where
  "store_GC now s =
     s\<lparr>st_series := filter (\<lambda>(k, ser). \<not> (se_samples ser = [] \<and> time_sub now (se_last ser) > i64 (2 * st_retention s)))
         (map (\<lambda>(k, ser). (k, gc_series now (st_retention s) ser)) (st_series s)),
       st_seen := filter (\<lambda>(node, at1). \<not> time_sub now at1 > i64 (2 * st_retention s)) (st_seen s)\<rparr>"

section \<open>Samples that have been thinned out\<close>

text \<open>
  \<^term>\<open>thin d xs ys\<close>: \<^term>\<open>ys\<close> is \<^term>\<open>xs\<close> less some samples older than the cutoff
  \<^term>\<open>d\<close>. This is all the expiry timer ever does to a series.
\<close>

inductive thin :: "gtime \<Rightarrow> usample list \<Rightarrow> usample list \<Rightarrow> bool" for d where
  thin_Nil: "thin d [] []"
| thin_keep: "thin d xs ys \<Longrightarrow> thin d (x # xs) (x # ys)"
| thin_drop: "thin d xs ys \<Longrightarrow> uo_at x < d \<Longrightarrow> thin d (x # xs) ys"

inductive_cases thin_ConsE: "thin d xs (y # ys)"

lemma thin_length: "thin d xs ys \<Longrightarrow> length ys \<le> length xs"
  by (induction rule: thin.induct) auto

lemma thin_later: "thin d xs ys \<Longrightarrow> d \<le> e \<Longrightarrow> thin e xs ys"
  by (induction rule: thin.induct) (auto intro: thin.intros)

lemma thin_snoc: "thin d xs ys \<Longrightarrow> thin d (xs @ [z]) (ys @ [z])"
  by (induction rule: thin.induct) (auto intro: thin.intros)

lemma thin_live:
  "thin d xs ys \<Longrightarrow> d \<le> e \<Longrightarrow> filter (\<lambda>x. \<not> uo_at x < e) ys = filter (\<lambda>x. \<not> uo_at x < e) xs"
  by (induction rule: thin.induct) auto

lemma thin_expire: "thin d xs ys \<Longrightarrow> thin d xs (filter (\<lambda>x. \<not> uo_at x < d) ys)"
  by (induction rule: thin.induct) (auto intro: thin.intros)

lemma thin_tl: "thin d xs (y # ys) \<Longrightarrow> \<exists>k \<le> length xs. thin d (drop k xs) ys"
proof (induction xs)
  case Nil
  then show ?case by (auto elim: thin_ConsE)
next
  case (Cons x xs)
  from Cons.prems show ?case
  proof (cases rule: thin.cases)
    case thin_keep
    then show ?thesis by (intro exI [of _ 1]) auto
  next
    case thin_drop
    then obtain k where "k \<le> length xs" "thin d (drop k xs) ys" using Cons.IH by blast
    then show ?thesis by (intro exI [of _ "Suc k"]) auto
  qed
qed

text \<open>
  What a series holds, against the log of everything accepted for its key: a thinned suffix of the
  log, and never a shorter suffix than the cap allows.
\<close>

definition suffix_thin :: "nat \<Rightarrow> gtime \<Rightarrow> usample list \<Rightarrow> usample list \<Rightarrow> bool" where
  "suffix_thin m d hist ys \<longleftrightarrow>
     length ys \<le> m \<and> (\<exists>k. (k = 0 \<or> k + m \<le> length hist) \<and> thin d (drop k hist) ys)"

lemma suffix_thin_empty: "suffix_thin m d [] []"
  unfolding suffix_thin_def by (intro conjI exI [of _ 0]) (auto intro: thin.intros)

lemma suffix_thin_later: "suffix_thin m d hist ys \<Longrightarrow> d \<le> e \<Longrightarrow> suffix_thin m e hist ys"
  by (auto simp: suffix_thin_def intro: thin_later)

lemma suffix_thin_expire: "suffix_thin m d hist ys \<Longrightarrow> suffix_thin m d hist (filter (\<lambda>x. \<not> uo_at x < d) ys)"
  by (auto simp: suffix_thin_def intro: thin_expire le_trans [OF length_filter_le])

lemma suffix_thin_snoc:
  assumes "suffix_thin m d hist ys" and "0 < m"
  shows "suffix_thin m d (hist @ [z]) (let zs = ys @ [z] in if length zs > m then take_last m zs else zs)"
proof -
  obtain k where len: "length ys \<le> m" and k: "k = 0 \<or> k + m \<le> length hist" and t: "thin d (drop k hist) ys"
    using assms(1) by (auto simp: suffix_thin_def)
  have kl: "k \<le> length hist" using k by auto
  have t': "thin d (drop k (hist @ [z])) (ys @ [z])" using thin_snoc [OF t, of z] kl by simp
  show ?thesis
  proof (cases "length ys < m")
    case True
    then show ?thesis using k t' by (auto simp: suffix_thin_def Let_def intro!: exI [of _ k])
  next
    case False
    then have full: "length ys = m" using len by simp
    then obtain y ys' where ys: "ys = y # ys'" using assms(2) by (cases ys) auto
    from thin_tl [of d "drop k (hist @ [z])" y "ys' @ [z]"] t' ys
    obtain j where j: "thin d (drop j (drop k (hist @ [z]))) (ys' @ [z])" by auto
    have ln: "length (ys' @ [z]) = m" using full ys by simp
    have "m \<le> length (hist @ [z]) - (j + k)" using thin_length [OF j] ln by simp
    then have "(j + k) + m \<le> length (hist @ [z])" using assms(2) by linarith
    moreover have "thin d (drop (j + k) (hist @ [z])) (ys' @ [z])" using j by (simp only: drop_drop)
    moreover have "take_last m (ys @ [z]) = ys' @ [z]" using ys full by (simp add: take_last_def)
    ultimately show ?thesis using full ln by (auto simp: suffix_thin_def Let_def)
  qed
qed

section \<open>The store against its log\<close>

definition stored :: "store \<Rightarrow> string \<Rightarrow> usample list" where
  "stored s ks = (case map_of (st_series s) ks of None \<Rightarrow> [] | Some ser \<Rightarrow> se_samples ser)"

text \<open>What happens to a store over time, and the log of what was accepted under a key.\<close>

datatype store_event = Reported gtime report | Collected gtime

fun event_time :: "store_event \<Rightarrow> gtime" where
  "event_time (Reported t r) = t"
| "event_time (Collected t) = t"

fun store_step :: "owner_resolver option \<Rightarrow> store_event \<Rightarrow> store \<Rightarrow> store" where
  "store_step resolve (Reported t r) s = fst (Ingest resolve t r s)"
| "store_step resolve (Collected t) s = store_GC t s"

definition store_after :: "owner_resolver option \<Rightarrow> duration \<Rightarrow> store_event list \<Rightarrow> store" where
  "store_after resolve retention es = fold (store_step resolve) es (NewStore retention)"

definition files_under :: "owner_resolver option \<Rightarrow> string \<Rightarrow> pod_report \<Rightarrow> bool" where
  "files_under resolve ks p \<longleftrightarrow> map_option key_String (workloadKey resolve p) = Some ks"

fun event_log :: "owner_resolver option \<Rightarrow> string \<Rightarrow> store_event \<Rightarrow> usample list" where
  "event_log resolve ks (Reported t r) =
     (if rp_degraded r then []
      else map (usample_of (if time_is_zero (rp_timestamp r) then t else rp_timestamp r))
             (filter (files_under resolve ks) (rp_pods r)))"
| "event_log resolve ks (Collected t) = []"

definition store_log :: "owner_resolver option \<Rightarrow> string \<Rightarrow> store_event list \<Rightarrow> usample list" where
  "store_log resolve ks es = concat (map (event_log resolve ks) es)"

definition store_wf :: "store \<Rightarrow> bool" where
  "store_wf s \<longleftrightarrow> 0 < st_max s \<and> distinct (map fst (st_series s)) \<and> distinct (map fst (st_seen s)) \<and>
     (\<forall>(k, ser) \<in> set (st_series s). length (se_samples ser) \<le> st_max s \<and> key_String (se_key ser) = k)"

lemma ingest_pod_frame:
  "st_max (fst (ingest_pod resolve now ts p (s, n))) = st_max s"
  "st_retention (fst (ingest_pod resolve now ts p (s, n))) = st_retention s"
  "st_seen (fst (ingest_pod resolve now ts p (s, n))) = st_seen s"
  by (auto simp: ingest_pod_def Let_def split: option.splits)

lemma ingest_pod_stored:
  "stored (fst (ingest_pod resolve now ts p (s, n))) ks =
     (if files_under resolve ks p
      then let zs = stored s ks @ [usample_of ts p] in if length zs > st_max s then take_last (st_max s) zs else zs
      else stored s ks)"
  by (auto simp: ingest_pod_def stored_def files_under_def Let_def update_conv' split: option.splits)

lemma ingest_pod_suffix:
  assumes "suffix_thin (st_max s) d hist (stored s ks)" "0 < st_max s"
  shows "suffix_thin (st_max s) d (hist @ (if files_under resolve ks p then [usample_of ts p] else []))
           (stored (fst (ingest_pod resolve now ts p (s, n))) ks)"
  using suffix_thin_snoc [OF assms] assms(1) by (simp add: ingest_pod_stored)

lemma Ingest_fold_suffix:
  "suffix_thin (st_max s) d hist (stored s ks) \<Longrightarrow> 0 < st_max s \<Longrightarrow>
   suffix_thin (st_max s) d (hist @ map (usample_of ts) (filter (files_under resolve ks) ps))
     (stored (fst (fold (ingest_pod resolve now ts) ps (s, n))) ks)"
proof (induction ps arbitrary: s n hist)
  case (Cons p ps)
  obtain s1 n1 where e: "ingest_pod resolve now ts p (s, n) = (s1, n1)" by (cases "ingest_pod resolve now ts p (s, n)")
  have m: "st_max s1 = st_max s" using ingest_pod_frame(1) [of resolve now ts p s n] e by simp
  have "suffix_thin (st_max s1) d (hist @ (if files_under resolve ks p then [usample_of ts p] else [])) (stored s1 ks)"
    using ingest_pod_suffix [OF Cons.prems, of resolve p ts now n] e m by simp
  from Cons.IH [OF this, of n1] Cons.prems(2) m e show ?case by (simp split: if_splits)
qed simp

lemma Ingest_fold_frame:
  "st_max (fst (fold (ingest_pod resolve now ts) ps (s, n))) = st_max s \<and>
   st_retention (fst (fold (ingest_pod resolve now ts) ps (s, n))) = st_retention s \<and>
   st_seen (fst (fold (ingest_pod resolve now ts) ps (s, n))) = st_seen s"
proof (induction ps arbitrary: s n)
  case (Cons p ps)
  obtain s1 n1 where e: "ingest_pod resolve now ts p (s, n) = (s1, n1)" by (cases "ingest_pod resolve now ts p (s, n)")
  then show ?case using Cons.IH [of s1 n1] ingest_pod_frame [of resolve now ts p s n] by simp
qed simp

lemma store_step_frame:
  "st_max (store_step resolve e s) = st_max s \<and> st_retention (store_step resolve e s) = st_retention s"
  by (cases e) (auto simp: Ingest_def store_GC_def Let_def Ingest_fold_frame)

lemma map_of_filter_vals:
  "distinct (map fst al) \<Longrightarrow> map_of (filter (\<lambda>(k, v). P v) al) k =
     (case map_of al k of None \<Rightarrow> None | Some v \<Rightarrow> if P v then Some v else None)"
proof (induction al)
  case (Cons e al)
  have "map_of al k = None" if "fst e = k" using Cons.prems that by (auto simp: map_of_eq_None_iff)
  then show ?case using Cons by (cases e) auto
qed simp

lemma gc_stored:
  assumes "store_wf s"
  shows "stored (store_GC now s) ks = filter (\<lambda>x. \<not> uo_at x < now - st_retention s) (stored s ks)"
proof -
  let ?gc = "gc_series now (st_retention s)"
  let ?keep = "\<lambda>ser. \<not> (se_samples ser = [] \<and> time_sub now (se_last ser) > i64 (2 * st_retention s))"
  have dist: "distinct (map fst (map (\<lambda>(k, ser). (k, ?gc ser)) (st_series s)))"
    using assms by (simp add: store_wf_def split_def comp_def)
  have "st_series (store_GC now s) = filter (\<lambda>(k, ser). ?keep ser) (map (\<lambda>(k, ser). (k, ?gc ser)) (st_series s))"
    by (simp add: store_GC_def)
  then have "map_of (st_series (store_GC now s)) ks =
      (case map_of (st_series s) ks of None \<Rightarrow> None | Some ser \<Rightarrow> if ?keep (?gc ser) then Some (?gc ser) else None)"
    using map_of_filter_vals [OF dist, of ?keep ks] by (simp add: map_of_map split: option.splits)
  then show ?thesis by (auto simp: stored_def gc_series_def split: option.splits)
qed

lemma in_alist_update: "(k, v) \<in> set (AList.update a b al) \<Longrightarrow> (k, v) = (a, b) \<or> (k, v) \<in> set al"
  by (induction al) (auto split: if_splits)

lemma ingest_pod_wf:
  assumes "store_wf s"
  shows "store_wf (fst (ingest_pod resolve now ts p (s, n)))"
proof (cases "workloadKey resolve p")
  case None
  then show ?thesis using assms by (simp add: ingest_pod_def)
next
  case (Some key)
  have old: "length (se_samples ser) \<le> st_max s" "key_String (se_key ser) = k" if "(k, ser) \<in> set (st_series s)" for k ser
    using assms that by (auto simp: store_wf_def)
  have found: "key_String (se_key ser) = key_String key" if "map_of (st_series s) (key_String key) = Some ser" for ser
    using old(2) [OF map_of_SomeD [OF that]] .
  show ?thesis
    using assms Some
    by (auto simp: ingest_pod_def store_wf_def Let_def distinct_update found split: option.splits
             dest!: in_alist_update)
qed

lemma Ingest_fold_wf:
  "store_wf s \<Longrightarrow> store_wf (fst (fold (ingest_pod resolve now ts) ps (s, n)))"
proof (induction ps arbitrary: s n)
  case (Cons p ps)
  obtain s1 n1 where e: "ingest_pod resolve now ts p (s, n) = (s1, n1)" by (cases "ingest_pod resolve now ts p (s, n)")
  then show ?case using Cons.IH [of s1 n1] ingest_pod_wf [OF Cons.prems, of resolve now ts p n] by simp
qed simp

lemma distinct_filter_keys: "distinct (map fst al) \<Longrightarrow> distinct (map fst (filter P al))"
  by (induction al) auto

lemma GC_wf:
  assumes "store_wf s"
  shows "store_wf (store_GC now s)"
proof -
  have "distinct (map fst (map (\<lambda>(k, ser). (k, gc_series now (st_retention s) ser)) (st_series s)))"
    using assms by (simp add: store_wf_def split_def comp_def)
  from distinct_filter_keys [OF this] show ?thesis
    using assms unfolding store_wf_def store_GC_def
    by (auto simp: gc_series_def distinct_filter_keys Let_def intro!: le_trans [OF length_filter_le])
qed

lemma store_step_wf: "store_wf s \<Longrightarrow> store_wf (store_step resolve e s)"
proof (cases e)
  case (Reported t r)
  assume w: "store_wf s"
  have "store_wf (s\<lparr>st_seen := AList.update (rp_node r) t (st_seen s)\<rparr>)"
    using w by (simp add: store_wf_def distinct_update)
  then show ?thesis using Reported w by (simp add: Ingest_def Let_def Ingest_fold_wf)
qed (simp add: GC_wf)

lemma store_step_suffix:
  assumes "store_wf s" and "suffix_thin (st_max s) (event_time e - st_retention s) hist (stored s ks)"
  shows "suffix_thin (st_max s) (event_time e - st_retention s) (hist @ event_log resolve ks e)
           (stored (store_step resolve e s) ks)"
proof (cases e)
  case (Collected t)
  then show ?thesis using assms gc_stored [OF assms(1)] by (simp add: suffix_thin_expire)
next
  case (Reported t r)
  have m: "0 < st_max s" using assms(1) by (simp add: store_wf_def)
  let ?s = "s\<lparr>st_seen := AList.update (rp_node r) t (st_seen s)\<rparr>"
  have st: "stored ?s ks = stored s ks" by (simp add: stored_def)
  show ?thesis
    using Ingest_fold_suffix [of ?s "t - st_retention s" hist ks] assms(2) m st Reported
    by (simp add: Ingest_def Let_def)
qed

text \<open>A run of the store on a clock that never goes back.\<close>

definition clock_ok :: "store_event list \<Rightarrow> gtime \<Rightarrow> bool" where
  "clock_ok es now \<longleftrightarrow> sorted_wrt (\<le>) (map event_time es @ [now])"

lemma NewStore_wf: "store_wf (NewStore retention)"
  by (simp add: NewStore_def store_wf_def)

lemma store_after_snoc: "store_after resolve retention (es @ [e]) = store_step resolve e (store_after resolve retention es)"
  by (simp add: store_after_def)

interpretation usage_store: transition_system "store_step resolve" store_wf "\<lambda>e. True" for resolve
  by unfold_locales (rule store_step_wf)

lemma store_after_wf: "store_wf (store_after resolve retention es)"
  unfolding store_after_def by (rule usage_store.run_inv [OF NewStore_wf]) simp

lemma store_after_frame:
  "st_max (store_after resolve retention es) = 4096"
  "st_retention (store_after resolve retention es) = st_retention (NewStore retention)"
proof (induction es rule: rev_induct)
  case Nil
  show "st_max (store_after resolve retention []) = 4096" by (simp add: store_after_def NewStore_def)
  show "st_retention (store_after resolve retention []) = st_retention (NewStore retention)" by (simp add: store_after_def)
qed (simp_all add: store_after_snoc store_step_frame)

lemma store_after_suffix:
  "clock_ok es now \<Longrightarrow>
   suffix_thin 4096 (now - st_retention (NewStore retention)) (store_log resolve ks es)
     (stored (store_after resolve retention es) ks)"
proof (induction es arbitrary: now rule: rev_induct)
  case Nil
  then show ?case by (simp add: store_log_def store_after_def NewStore_def stored_def suffix_thin_empty)
next
  case (snoc e es)
  have c: "clock_ok es (event_time e)" "event_time e \<le> now"
    using snoc.prems by (auto simp: clock_ok_def sorted_wrt_append)
  have "suffix_thin 4096 (event_time e - st_retention (NewStore retention)) (store_log resolve ks (es @ [e]))
      (stored (store_after resolve retention (es @ [e])) ks)"
    using store_step_suffix [OF store_after_wf, of resolve retention es e _ ks] snoc.IH [OF c(1)]
    by (simp add: store_after_frame store_after_snoc store_log_def)
  then show ?case using c(2) by (auto intro: suffix_thin_later)
qed

lemma WorkloadStats_stored:
  "WorkloadStats key now s = stats_of (filter (\<lambda>x. \<not> uo_at x < now - st_retention s) (stored s (key_String key)))"
  by (auto simp: WorkloadStats_def stored_def stats_of_def Let_def split: option.splits)

text \<open>
  C12. The store refines its log. Whatever reports arrived and however often the expiry timer ran, the
  distributions reported for a workload are those of the samples of some suffix of everything
  accepted under its key, at least 4096 samples long or the whole log, restricted to the samples
  inside the retention window; estimates from a degraded agent are never among them.
\<close>

theorem WorkloadStats_refines_log:
  assumes "clock_ok es now"
  shows "\<exists>k. (k = 0 \<or> k + 4096 \<le> length (store_log resolve (key_String key) es)) \<and>
     WorkloadStats key now (store_after resolve retention es) =
       stats_of (filter (\<lambda>x. \<not> uo_at x < now - st_retention (NewStore retention))
                   (drop k (store_log resolve (key_String key) es)))"
proof -
  obtain k where k: "k = 0 \<or> k + 4096 \<le> length (store_log resolve (key_String key) es)"
    and t: "thin (now - st_retention (NewStore retention)) (drop k (store_log resolve (key_String key) es))
              (stored (store_after resolve retention es) (key_String key))"
    using store_after_suffix [OF assms, of retention resolve "key_String key"] unfolding suffix_thin_def by blast
  show ?thesis
    using k thin_live [OF t order.refl] by (intro exI [of _ k]) (simp add: WorkloadStats_stored store_after_frame)
qed

section \<open>Bounds\<close>

lemma gc_series_kept:
  "(k, ser) \<in> set (st_series (store_GC now s)) \<Longrightarrow>
     (\<forall>x \<in> set (se_samples ser). now - st_retention s \<le> uo_at x) \<and>
     (se_samples ser \<noteq> [] \<or> time_sub now (se_last ser) \<le> i64 (2 * st_retention s))"
  by (auto simp: store_GC_def gc_series_def Let_def)

text \<open>
  C36. The samples the store keeps are bounded. Right after the expiry timer ran at \<^term>\<open>now\<close>, a workload
  has one series, which holds at most 4096 samples, all inside the retention window, under the index of
  its own workload, and which is there without any sample only if the workload was reported on within
  two windows; a node is listed once, and only if it reported within two windows. The pod UIDs a series
  has seen are not bounded by any of this: nothing ever removes one from a series that lives on.
\<close>

theorem store_bounded:
  assumes "s = store_after resolve retention (es @ [Collected now])"
    and "0 < retention" and "2 * retention \<le> max_i64"
  shows "distinct (map fst (st_series s)) \<and>
     (\<forall>(k, ser) \<in> set (st_series s).
        length (se_samples ser) \<le> 4096 \<and> key_String (se_key ser) = k \<and>
        (\<forall>x \<in> set (se_samples ser). now - retention \<le> uo_at x) \<and>
        (se_samples ser \<noteq> [] \<or> time_sub now (se_last ser) \<le> 2 * retention)) \<and>
     distinct (map fst (st_seen s)) \<and> (\<forall>(node, t) \<in> set (st_seen s). time_sub now t \<le> 2 * retention)"
proof -
  have ret: "st_retention (NewStore retention) = retention" using assms(2) by (simp add: NewStore_def)
  have "in_i64 (2 * retention)" using assms(2,3) by (simp add: in_i64_def min_i64_def)
  then have two: "i64 (2 * retention) = 2 * retention" by (rule i64_id)
  have wf: "store_wf s" unfolding assms(1) by (rule store_after_wf)
  have m: "st_max s = 4096" by (simp add: assms(1) store_after_frame)
  have gc: "s = store_GC now (store_after resolve retention es)" by (simp add: assms(1) store_after_snoc)
  have "(\<forall>x \<in> set (se_samples ser). now - retention \<le> uo_at x) \<and>
      (se_samples ser \<noteq> [] \<or> time_sub now (se_last ser) \<le> 2 * retention)" if "(k, ser) \<in> set (st_series s)" for k ser
    using gc_series_kept [OF that [unfolded gc]] by (simp add: store_after_frame ret two)
  moreover have "time_sub now t \<le> 2 * retention" if "(node, t) \<in> set (st_seen s)" for node t
    using that unfolding gc by (auto simp: store_GC_def store_after_frame ret two)
  ultimately show ?thesis using wf unfolding store_wf_def m by fast
qed

section \<open>The ingestion endpoint\<close>

definition ReportPath :: string where "ReportPath = ''/v1/usage''"
definition maxReportBytes :: nat where "maxReportBytes = 4194304"

record http_request =
  rq_path :: string
  rq_method :: string
  rq_body :: "string option"

datatype http_response = HttpError int | Accepted int string | Healthy | NotHandled

text \<open>
  \<^term>\<open>decode\<close> is \<^verbatim>\<open>json.Unmarshal\<close> into a report; a body of \<^term>\<open>None\<close> is one that
  could not be read.
\<close>

definition ingest_handler ::
    "owner_resolver option \<Rightarrow> (string \<Rightarrow> report option) \<Rightarrow> gtime \<Rightarrow> http_request \<Rightarrow> store \<Rightarrow> store \<times> http_response" where
  "ingest_handler resolve decode now rq s =
     (if rq_method rq \<noteq> ''POST'' then (s, HttpError 405)
      else case rq_body rq of
        None \<Rightarrow> (s, HttpError 400)
      | Some raw \<Rightarrow>
          (case decode (take maxReportBytes raw) of
             None \<Rightarrow> (s, HttpError 400)
           | Some r \<Rightarrow>
               if rp_node r = [] then (s, HttpError 400)
               else (case Ingest resolve now r s of (s', accepted) \<Rightarrow> (s', Accepted accepted (rp_node r)))))"

definition usage_Handler ::
    "owner_resolver option \<Rightarrow> (string \<Rightarrow> report option) \<Rightarrow> gtime \<Rightarrow> http_request \<Rightarrow> store \<Rightarrow> store \<times> http_response" where
  "usage_Handler resolve decode now rq s =
     (if rq_path rq = ReportPath then ingest_handler resolve decode now rq s
      else if rq_path rq = ''/v1/healthz'' then (s, Healthy)
      else (s, NotHandled))"

definition gc_interval :: "duration \<Rightarrow> duration" where
  "gc_interval interval = (if interval \<le> 0 then minute else interval)"

lemma ingest_pod_count: "workloadKey resolve p \<noteq> None \<and> snd (ingest_pod resolve now ts p (s, n)) = n + 1"
  by (auto simp: ingest_pod_def workloadKey_def Let_def split: option.splits)

lemma Ingest_fold_count: "snd (fold (ingest_pod resolve now ts) ps (s, n)) = n + int (length ps)"
proof (induction ps arbitrary: s n)
  case (Cons p ps)
  obtain s1 n1 where e: "ingest_pod resolve now ts p (s, n) = (s1, n1)" by (cases "ingest_pod resolve now ts p (s, n)")
  then show ?case using Cons.IH [of s1 n1] ingest_pod_count [of resolve p now ts s n] by simp
qed simp

text \<open>
  Only a well-formed report reaches the store: a request that is not answered with an acceptance
  leaves it untouched, as does a report an agent marked as estimated; any other report is answered
  with the number of pods in it, all of which were filed.
\<close>

theorem Handler_accepts:
  "(case usage_Handler resolve decode now rq s of
      (s', Accepted n node) \<Rightarrow>
        rq_path rq = ReportPath \<and> rq_method rq = ''POST'' \<and> node \<noteq> [] \<and>
        (\<exists>r. Option.bind (rq_body rq) (\<lambda>raw. decode (take maxReportBytes raw)) = Some r \<and> rp_node r = node \<and>
             (if rp_degraded r then s' = s \<and> n = 0 else n = int (length (rp_pods r)) \<and> s' = store_step resolve (Reported now r) s))
    | (s', _) \<Rightarrow> s' = s)"
proof (cases "rq_path rq = ReportPath \<and> rq_method rq = ''POST''")
  case False
  then show ?thesis by (auto simp: usage_Handler_def ingest_handler_def)
next
  case True
  show ?thesis
  proof (cases "Option.bind (rq_body rq) (\<lambda>raw. decode (take maxReportBytes raw))")
    case None
    then show ?thesis using True by (auto simp: usage_Handler_def ingest_handler_def split: option.splits)
  next
    case (Some r)
    then obtain raw where raw: "rq_body rq = Some raw" "decode (take maxReportBytes raw) = Some r"
      by (auto simp: bind_eq_Some_conv)
    obtain s' n where ing: "Ingest resolve now r s = (s', n)" by (cases "Ingest resolve now r s")
    have "if rp_degraded r then s' = s \<and> n = 0 else n = int (length (rp_pods r))"
      using ing Ingest_fold_count [of resolve now] by (auto simp: Ingest_def Let_def split: if_splits) (metis snd_conv add_0)+
    then show ?thesis using True raw ing by (auto simp: usage_Handler_def ingest_handler_def)
  qed
qed

section \<open>The publisher\<close>

text \<open>
  The standard library's \<^verbatim>\<open>url.Parse\<close> (scheme and host), \<^verbatim>\<open>net.SplitHostPort\<close> and
  \<^verbatim>\<open>net.JoinHostPort\<close>; the resolver and the peer of each POST vary from call to call and are
  arguments of the operations.
\<close>

record net_ops =
  no_parse :: "string \<Rightarrow> (string \<times> string) option"
  no_split :: "string \<Rightarrow> (string \<times> string) option"
  no_join :: "string \<Rightarrow> string \<Rightarrow> string"

record publisher =
  pb_endpoint :: string
  pb_timeout :: duration
  pb_fanout :: bool
  pb_cached :: "string list"
  pb_cached_at :: gtime
  pb_cache_for :: duration

datatype http_result = RequestError | TransportError | Status int

datatype publish_error = EncodeError | ResolveError | PostFailed string http_result | NoEndpoints string

definition NewPublisher :: "string \<Rightarrow> duration \<Rightarrow> bool \<Rightarrow> publisher" where
  "NewPublisher endpoint timeout fanout =
     \<lparr>pb_endpoint = endpoint, pb_timeout = (if timeout \<le> 0 then 5 * second else timeout), pb_fanout = fanout,
      pb_cached = [], pb_cached_at = 0, pb_cache_for = 30 * second\<rparr>"

definition Enabled :: "publisher option \<Rightarrow> bool" where
  "Enabled p \<longleftrightarrow> (case p of None \<Rightarrow> False | Some q \<Rightarrow> pb_endpoint q \<noteq> [])"

definition targets :: "net_ops \<Rightarrow> (string \<Rightarrow> string list option) \<Rightarrow> gtime \<Rightarrow> publisher \<Rightarrow> publisher \<times> string list option" where
  "targets N lookup now p =
     (if \<not> pb_fanout p then (p, Some [pb_endpoint p])
      else if time_sub now (pb_cached_at p) < pb_cache_for p \<and> length (pb_cached p) > 0 then (p, Some (pb_cached p))
      else case no_parse N (pb_endpoint p) of
        None \<Rightarrow> (p, None)
      | Some (scheme, hostport) \<Rightarrow>
          (case no_split N hostport of
             None \<Rightarrow> (p, Some [pb_endpoint p])
           | Some (host, port) \<Rightarrow>
               let addrs = (case lookup host of None \<Rightarrow> [] | Some as \<Rightarrow> as)
               in if addrs = []
                  then (if length (pb_cached p) > 0 then (p, Some (pb_cached p)) else (p, Some [pb_endpoint p]))
                  else let out = map (\<lambda>addr. scheme @ ''://'' @ no_join N addr port) addrs
                    in (p\<lparr>pb_cached := out, pb_cached_at := now\<rparr>, Some out)))"

definition Targets :: "net_ops \<Rightarrow> (string \<Rightarrow> string list option) \<Rightarrow> gtime \<Rightarrow> publisher \<Rightarrow> publisher \<times> string list" where
  "Targets N lookup now p = (case targets N lookup now p of (q, ts) \<Rightarrow> (q, case ts of None \<Rightarrow> [] | Some l \<Rightarrow> l))"

definition post :: "(string \<Rightarrow> string \<Rightarrow> http_result) \<Rightarrow> string \<Rightarrow> string \<Rightarrow> publish_error option" where
  "post peer target body =
     (case peer (target @ ReportPath) body of
        Status code \<Rightarrow> if code \<ge> 300 then Some (PostFailed target (Status code)) else None
      | failure \<Rightarrow> Some (PostFailed target failure))"

text \<open>The POSTs made so far, each a target and a body, are recorded in the order of the calls.\<close>

type_synonym posts = "(string \<times> string) list"

fun publish_loop ::
    "(string \<Rightarrow> string \<Rightarrow> http_result) \<Rightarrow> string \<Rightarrow> string list \<Rightarrow> publish_error option \<Rightarrow> int \<Rightarrow> posts
     \<Rightarrow> publish_error option \<times> int \<times> posts" where
  "publish_loop peer body [] lastErr delivered sent = (lastErr, delivered, sent)"
| "publish_loop peer body (t # ts) lastErr delivered sent =
     (let sent' = sent @ [(t, body)]
      in case post peer t body of
           Some e \<Rightarrow> publish_loop peer body ts (Some e) delivered sent'
         | None \<Rightarrow> publish_loop peer body ts lastErr (delivered + 1) sent')"

text \<open>
  \<^verbatim>\<open>Publish\<close> returns the publisher with its refreshed cache, the POSTs it made, and its error.
\<close>

definition Publish ::
    "net_ops \<Rightarrow> (string \<Rightarrow> string list option) \<Rightarrow> (string \<Rightarrow> string \<Rightarrow> http_result) \<Rightarrow> (report \<Rightarrow> string option) \<Rightarrow>
     gtime \<Rightarrow> report \<Rightarrow> publisher option \<Rightarrow> publisher option \<times> posts \<times> publish_error option" where
  "Publish N lookup peer encode now r p0 =
     (case p0 of None \<Rightarrow> (None, [], None) | Some p \<Rightarrow>
      if \<not> Enabled (Some p) then (Some p, [], None)
      else case encode r of
        None \<Rightarrow> (Some p, [], Some EncodeError)
      | Some body \<Rightarrow>
          (case targets N lookup now p of
             (q, None) \<Rightarrow> (Some q, [], Some ResolveError)
           | (q, Some ts) \<Rightarrow>
               (case publish_loop peer body ts None 0 [] of
                  (lastErr, delivered, sent) \<Rightarrow>
                    (Some q, sent,
                     if delivered = 0
                     then (case lastErr of None \<Rightarrow> Some (NoEndpoints (pb_endpoint q)) | Some e \<Rightarrow> Some e)
                     else None))))"

lemma targets_nonempty: "targets N lookup now p = (q, Some ts) \<Longrightarrow> ts \<noteq> [] \<and> pb_endpoint q = pb_endpoint p"
  by (auto simp: targets_def Let_def split: if_splits option.splits prod.splits)

lemma targets_parsed: "no_parse N (pb_endpoint p) \<noteq> None \<Longrightarrow> \<exists>q ts. targets N lookup now p = (q, Some ts)"
  by (auto simp: targets_def Let_def split: prod.splits option.splits)

text \<open>A resolver that fails keeps the publisher on the last addresses it resolved, whatever their age.\<close>

lemma targets_dns_blip:
  assumes "pb_fanout p" and "pb_cached p \<noteq> []" and "\<And>h. lookup h \<in> {None, Some []}"
    and "no_parse N (pb_endpoint p) = Some (sc, hp)" and "no_split N hp = Some (host, port)"
  shows "targets N lookup now p = (p, Some (pb_cached p))"
proof -
  have "(case lookup host of None \<Rightarrow> [] | Some as \<Rightarrow> as) = []" using assms(3) [of host] by auto
  then show ?thesis using assms(1,2,4,5) by (simp add: targets_def Let_def)
qed

definition failures :: "(string \<Rightarrow> string \<Rightarrow> http_result) \<Rightarrow> string \<Rightarrow> string list \<Rightarrow> publish_error list" where
  "failures peer body ts = concat (map (\<lambda>t. case post peer t body of None \<Rightarrow> [] | Some e \<Rightarrow> [e]) ts)"

lemma publish_loop_counts:
  "publish_loop peer body ts e n sent =
     (if failures peer body ts = [] then e else Some (last (failures peer body ts)),
      n + int (length (filter (\<lambda>t. post peer t body = None) ts)), sent @ map (\<lambda>t. (t, body)) ts)"
  by (induction ts arbitrary: e n sent) (auto simp: failures_def Let_def split: option.splits)

lemma failures_all:
  assumes "\<forall>t \<in> set ts. post peer t body \<noteq> None" and "ts \<noteq> []"
  shows "failures peer body ts \<noteq> [] \<and> Some (last (failures peer body ts)) = post peer (last ts) body"
proof -
  obtain us t where ts: "ts = us @ [t]" using assms(2) by (cases ts rule: rev_cases) auto
  obtain x where "post peer t body = Some x" using assms(1) ts by auto
  then show ?thesis by (simp add: ts failures_def)
qed

text \<open>
  C29. The fan-out reaches every replica: a report that can be encoded is posted once to each resolved
  target, in order and with the same body, whatever the targets before it answered. Publishing fails
  exactly when no target accepted; the error is then the last target's. There always is a target: the
  error for an empty list of them cannot occur.
\<close>

theorem Publish_delivers:
  assumes "Publish N lookup peer encode now r (Some p) = (q, sent, err)"
    and "pb_endpoint p \<noteq> []" and "encode r = Some body" and "no_parse N (pb_endpoint p) \<noteq> None"
  shows "\<exists>ts. snd (targets N lookup now p) = Some ts \<and> ts \<noteq> [] \<and> sent = map (\<lambda>t. (t, body)) ts \<and>
     (err = None \<longleftrightarrow> (\<exists>t \<in> set ts. post peer t body = None)) \<and>
     (err \<noteq> None \<longrightarrow> err = post peer (last ts) body)"
proof -
  obtain q' ts where t: "targets N lookup now p = (q', Some ts)" using targets_parsed [OF assms(4)] by blast
  have ne: "ts \<noteq> []" using targets_nonempty [OF t] by simp
  let ?acc = "filter (\<lambda>t. post peer t body = None) ts"
  have acc: "?acc = [] \<longleftrightarrow> (\<forall>t \<in> set ts. post peer t body \<noteq> None)" by (simp add: filter_empty_conv)
  have sent: "sent = map (\<lambda>t. (t, body)) ts" and err: "err = (if ?acc = [] then post peer (last ts) body else None)"
    using assms(1-3) t failures_all [OF _ ne, of peer body] acc
    by (auto simp: Publish_def Enabled_def publish_loop_counts split: option.splits)
  show ?thesis using sent err ne t acc by auto
qed

section \<open>At a concrete input\<close>

definition example_report :: report where
  "example_report = \<lparr>rp_node = ''n1'', rp_timestamp = 1000,
     rp_pods = [\<lparr>ur_uid = ''u'', ur_namespace = ''default'', ur_name = ''web-0'', ur_level = ''shared_cores'',
                 ur_owner_kind = ''ReplicaSet'', ur_owner_name = ''web'', ur_cpu = 250, ur_mem = 1048576,
                 ur_req_cpu = 500, ur_req_mem = 2097152, ur_throttled = 0\<rparr>], rp_degraded = False\<rparr>"

definition example_key :: workload_key where
  "example_key = \<lparr>wk_namespace = ''default'', wk_kind = ''ReplicaSet'', wk_name = ''web''\<rparr>"

definition example_events :: "store_event list" where
  "example_events = [Reported 1000 example_report, Reported 2000 example_report]"

lemma example_store:
  "st_series (store_after None 5000 (example_events @ [Collected 3000])) =
     [(key_String example_key, \<lparr>se_key = example_key,
        se_samples = replicate 2 (usample_of 1000 (hd (rp_pods example_report))),
        se_pods = [(''u'', 1000)], se_last = 2000\<rparr>)]"
  by (simp add: example_events_def store_after_def NewStore_def Ingest_def example_report_def ingest_pod_def workloadKey_def
      key_String_def example_key_def time_is_zero_def store_GC_def gc_series_def usample_of_def numeral_2_eq_2 Let_def)

theorem WorkloadStats_refines_log_witness:
  "clock_ok example_events 3000 \<and>
   (\<exists>k. (k = 0 \<or> k + 4096 \<le> length (store_log None (key_String example_key) example_events)) \<and>
     WorkloadStats example_key 3000 (store_after None 5000 example_events) =
       stats_of (filter (\<lambda>x. \<not> uo_at x < 3000 - st_retention (NewStore 5000))
                   (drop k (store_log None (key_String example_key) example_events))))"
proof -
  have c: "clock_ok example_events 3000" by (simp add: clock_ok_def example_events_def)
  from c WorkloadStats_refines_log [OF c, of None example_key 5000] show ?thesis by blast
qed

theorem store_bounded_witness:
  "\<exists>k ser. st_series (store_after None 5000 (example_events @ [Collected 3000])) = [(k, ser)] \<and>
     length (se_samples ser) \<le> 4096 \<and> (\<forall>x \<in> set (se_samples ser). 3000 - 5000 \<le> uo_at x)"
proof -
  obtain k ser where s: "st_series (store_after None 5000 (example_events @ [Collected 3000])) = [(k, ser)]"
    using example_store by blast
  have "\<forall>(k, ser) \<in> set (st_series (store_after None 5000 (example_events @ [Collected 3000]))).
      length (se_samples ser) \<le> 4096 \<and> (\<forall>x \<in> set (se_samples ser). 3000 - 5000 \<le> uo_at x)"
    using store_bounded [OF refl, of 5000 None example_events 3000] by (auto simp: max_i64_def)
  with s show ?thesis by auto
qed

definition example_net :: net_ops where
  "example_net = \<lparr>no_parse = (\<lambda>s. Some (''http'', ''kqos:8090'')), no_split = (\<lambda>s. Some (''kqos'', ''8090'')),
     no_join = (\<lambda>h p. h @ '':'' @ p)\<rparr>"

theorem Publish_delivers_witness:
  "\<exists>q. Publish example_net (\<lambda>h. Some [''a'', ''b'']) (\<lambda>u b. if u = ''http://a:8090/v1/usage'' then Status 200 else TransportError)
       (\<lambda>r. Some ''{}'') 7 example_report (Some (NewPublisher ''http://kqos:8090'' 0 True))
       = (q, [(''http://a:8090'', ''{}''), (''http://b:8090'', ''{}'')], None) \<and>
     (\<exists>ts. [(''http://a:8090'', ''{}''), (''http://b:8090'', ''{}'')] = map (\<lambda>t. (t, ''{}'')) ts \<and> ts \<noteq> [])"
proof -
  let ?peer = "\<lambda>u b. if u = ''http://a:8090/v1/usage'' then Status 200 else TransportError"
  let ?p = "NewPublisher ''http://kqos:8090'' 0 True"
  obtain q where e: "Publish example_net (\<lambda>h. Some [''a'', ''b'']) ?peer (\<lambda>r. Some ''{}'') 7 example_report (Some ?p)
      = (q, [(''http://a:8090'', ''{}''), (''http://b:8090'', ''{}'')], None)"
    by (simp add: Publish_def Enabled_def NewPublisher_def targets_def example_net_def post_def ReportPath_def Let_def)
  have "pb_endpoint ?p \<noteq> []" "no_parse example_net (pb_endpoint ?p) \<noteq> None" by (simp_all add: NewPublisher_def example_net_def)
  from Publish_delivers [OF e this(1) refl this(2)] have n: "\<exists>ts. [(''http://a:8090'', ''{}''), (''http://b:8090'', ''{}'')] = map (\<lambda>t. (t, ''{}'')) ts \<and> ts \<noteq> []"
    by (elim exE conjE) (intro exI conjI)
  show ?thesis by (rule exI, rule conjI, rule e, rule n)
qed

end
