(* ===== verification/Workload_Profile.thy ===== *)
theory Workload_Profile
  imports Usage Overcommit Eviction_Plugins
begin

text \<open>
  Service profiling (\<^verbatim>\<open>pkg/controller/profile\<close>): the reconciler that turns the usage store's
  distributions into a resource recommendation for a workload (\<^verbatim>\<open>controller.go\<close>), the resolver from
  a pod's owner to its workload, and the reconciler that gives every Deployment a profile
  (\<^verbatim>\<open>discovery.go\<close>). Reads and writes of the API server are arguments, as in the other controllers.
\<close>

section \<open>Workload profiles\<close>

record target_reference =
  tr_api :: string
  tr_kind :: string
  tr_name :: string

record workload_profile_spec =
  wq_target :: target_reference
  wq_level :: QoSLevel
  wq_margin :: int

record 'q usage_statistics =
  ut_p50 :: 'q
  ut_p90 :: 'q
  ut_p95 :: 'q
  ut_p99 :: 'q
  ut_max :: 'q

record 'q workload_profile_status =
  ws_samples :: int
  ws_pods :: int
  ws_cpu :: "'q usage_statistics"
  ws_memory :: "'q usage_statistics"
  ws_requests :: "'q resource_list"
  ws_recommendation :: "'q resource_list"
  ws_waste :: int
  ws_confidence :: string
  ws_updated :: gtime
  ws_conditions :: "condition list"

record 'q workload_profile =
  wl_namespace :: string
  wl_name :: string
  wl_spec :: workload_profile_spec
  wl_status :: "'q workload_profile_status"

section \<open>The recommendation\<close>

definition milliQuantity :: "'q quantity_ops \<Rightarrow> f64 \<Rightarrow> 'q" where
  "milliQuantity Q v = q_new_milli Q (f_to_i64 v)"

definition byteQuantity :: "'q quantity_ops \<Rightarrow> f64 \<Rightarrow> 'q" where
  "byteQuantity Q v = q_new Q (f_to_i64 v)"

definition toUsageStats :: "stats \<Rightarrow> (f64 \<Rightarrow> 'q) \<Rightarrow> 'q usage_statistics" where
  "toUsageStats s conv =
     \<lparr>ut_p50 = conv (us_p50 s), ut_p90 = conv (us_p90 s), ut_p95 = conv (us_p95 s), ut_p99 = conv (us_p99 s),
      ut_max = conv (us_max s)\<rparr>"

definition safety_factor :: "int \<Rightarrow> f64" where
  "safety_factor marginPercent =
     (let margin0 = f_of_int marginPercent;
          margin = (if margin0 \<le> 0 then 20 else margin0)
      in f_add 1 (f_div margin 100))"

definition recommended :: "int \<Rightarrow> stats \<Rightarrow> stats \<Rightarrow> int \<times> int" where
  "recommended marginPercent cpuStats memStats =
     (let factor = safety_factor marginPercent;
          recCPUMilli = f_to_i64 (f_mul (us_p95 cpuStats) factor);
          recMemBytes = f_to_i64 (f_mul (us_max memStats) factor)
      in (if recCPUMilli < 10 then 10 else recCPUMilli,
          if recMemBytes < 16 * 1024 * 1024 then 16 * 1024 * 1024 else recMemBytes))"

definition waste_percent :: "int \<Rightarrow> f64 \<Rightarrow> int" where
  "waste_percent reqCPUMilli p95 =
     (if reqCPUMilli > 0 then
        let unused = f_sub (f_of_int reqCPUMilli) p95
        in if unused > 0 then i32 (f_to_i64 (f_mul (f_div unused (f_of_int reqCPUMilli)) 100)) else 0
      else 0)"

definition profile_confidence :: "int \<Rightarrow> int \<Rightarrow> string" where
  "profile_confidence samples pods =
     (if samples \<ge> 120 \<and> pods > 1 then ''High'' else if samples \<ge> 30 then ''Medium'' else ''Low'')"

text \<open>The controller has its own copy of the agent's condition update.\<close>

fun profile_setCondition :: "gtime \<Rightarrow> condition \<Rightarrow> condition list \<Rightarrow> condition list" where
  "profile_setCondition now cond [] = [cond\<lparr>cn_transition := now\<rparr>]"
| "profile_setCondition now cond (c # cs) =
     (if cn_type c \<noteq> cn_type cond then c # profile_setCondition now cond cs
      else (if cn_status c = cn_status cond then cond\<lparr>cn_transition := cn_transition c\<rparr>
            else cond\<lparr>cn_transition := now\<rparr>) # cs)"

lemma profile_setCondition_eq: "profile_setCondition = setCondition"
proof (intro ext)
  show "profile_setCondition now cond cs = setCondition now cond cs" for now cond cs
    by (induction cs) auto
qed

definition profile_key :: "'q workload_profile \<Rightarrow> workload_key" where
  "profile_key wp = \<lparr>wk_namespace = wl_namespace wp, wk_kind = tr_kind (wq_target (wl_spec wp)),
                     wk_name = tr_name (wq_target (wl_spec wp))\<rparr>"

definition no_samples_status :: "gtime \<Rightarrow> workload_key \<Rightarrow> 'q workload_profile_status \<Rightarrow> 'q workload_profile_status" where
  "no_samples_status now key st =
     st\<lparr>ws_confidence := ''Low'',
        ws_conditions := profile_setCondition now
          \<lparr>cn_type = ''ProfileReady'', cn_status = ConditionFalse, cn_reason = ''NoSamples'',
           cn_message = ''no usage samples yet for '' @ key_String key, cn_transition = 0\<rparr> (ws_conditions st),
        ws_updated := now\<rparr>"

definition profiled_status ::
    "'q quantity_ops \<Rightarrow> gtime \<Rightarrow> int \<Rightarrow> stats \<Rightarrow> stats \<Rightarrow> int \<Rightarrow> int \<times> int \<Rightarrow> 'q workload_profile_status \<Rightarrow> 'q workload_profile_status" where
  "profiled_status Q now marginPercent cpuStats memStats pods requests st =
     (let (reqCPUMilli, reqMemBytes) = requests;
          (recCPUMilli, recMemBytes) = recommended marginPercent cpuStats memStats
      in st\<lparr>ws_samples := us_samples cpuStats, ws_pods := i32 pods,
            ws_cpu := toUsageStats cpuStats (milliQuantity Q), ws_memory := toUsageStats memStats (byteQuantity Q),
            ws_requests := [ResourceCPU \<mapsto> q_new_milli Q reqCPUMilli, ResourceMemory \<mapsto> q_new Q reqMemBytes],
            ws_recommendation := [ResourceCPU \<mapsto> q_new_milli Q recCPUMilli, ResourceMemory \<mapsto> q_new Q recMemBytes],
            ws_waste := waste_percent reqCPUMilli (us_p95 cpuStats),
            ws_confidence := profile_confidence (us_samples cpuStats) pods,
            ws_updated := now,
            ws_conditions := profile_setCondition now
              \<lparr>cn_type = ''ProfileReady'', cn_status = ConditionTrue, cn_reason = ''Sampled'',
               cn_message = itoa (us_samples cpuStats) @ '' samples across '' @ itoa pods @ '' pods; p95 cpu '' @
                 fmt_f0 (us_p95 cpuStats) @ ''m against a '' @ itoa reqCPUMilli @ ''m request'',
               cn_transition = 0\<rparr> (ws_conditions st)\<rparr>)"

definition profile_Reconcile ::
    "'q quantity_ops \<Rightarrow> gtime \<Rightarrow> store \<Rightarrow> api_error + 'q workload_profile \<Rightarrow> bool
       \<Rightarrow> requeue \<times> 'q workload_profile_status option" where
  "profile_Reconcile Q now store get_wp patch_ok =
     (case get_wp of
        Inl NotFound \<Rightarrow> (Done, None)
      | Inl _ \<Rightarrow> (Failed, None)
      | Inr wp \<Rightarrow>
          let key = profile_key wp;
              st = (case WorkloadStats key now store of
                      None \<Rightarrow> no_samples_status now key (wl_status wp)
                    | Some (cpuStats, memStats, pods) \<Rightarrow>
                        profiled_status Q now (wq_margin (wl_spec wp)) cpuStats memStats pods
                          (case WorkloadRequests key store of None \<Rightarrow> (0, 0) | Some r \<Rightarrow> r) (wl_status wp))
          in (if patch_ok then RequeueAfter (30 * second) else Failed, Some st))"

section \<open>Owners\<close>

text \<open>
  \<^term>\<open>get_rs\<close> reads a ReplicaSet and returns the kind and name of its controller, if it has one
  (\<^verbatim>\<open>metav1.GetControllerOf\<close>).
\<close>

definition NewOwnerResolver :: "(string \<Rightarrow> string \<Rightarrow> api_error + (string \<times> string) option) \<Rightarrow> owner_resolver" where
  "NewOwnerResolver get_rs = (\<lambda>namespace kind name.
     let self = Some \<lparr>wk_namespace = namespace, wk_kind = kind, wk_name = name\<rparr>
     in if kind \<noteq> ''ReplicaSet'' then self
        else case get_rs namespace name of
          Inl err \<Rightarrow> self
        | Inr (Some (okind, oname)) \<Rightarrow>
            if okind = ''Deployment''
            then Some \<lparr>wk_namespace = namespace, wk_kind = ''Deployment'', wk_name = oname\<rparr> else self
        | Inr None \<Rightarrow> self)"

section \<open>Discovery\<close>

record deployment =
  dp_namespace :: string
  dp_name :: string
  dp_uid :: string
  dp_template :: "string \<Rightarrow> string option"

record profile_object =
  po_namespace :: string
  po_name :: string
  po_labels :: "string \<Rightarrow> string option"
  po_owners :: "owner_ref list"
  po_spec :: workload_profile_spec

definition discovered :: "deployment \<Rightarrow> profile_object" where
  "discovered deploy =
     (let level0 = (case dp_template deploy AnnotationQoSLevel of None \<Rightarrow> [] | Some l \<Rightarrow> l);
          level = (if \<not> IsValid level0 then QoSSharedCores else level0)
      in \<lparr>po_namespace = dp_namespace deploy, po_name = dp_name deploy, po_labels = managed_labels,
          po_owners = [\<lparr>or_api = ''apps/v1'', or_kind = ''Deployment'', or_name = dp_name deploy, or_uid = dp_uid deploy\<rparr>],
          po_spec = \<lparr>wq_target = \<lparr>tr_api = ''apps/v1'', tr_kind = ''Deployment'', tr_name = dp_name deploy\<rparr>,
                     wq_level = level, wq_margin = 20\<rparr>\<rparr>)"

text \<open>The last two arguments answer the read of the profile and the creation.\<close>

definition discovery_Reconcile ::
    "string list \<Rightarrow> string \<Rightarrow> api_error + deployment \<Rightarrow> api_error + 'q workload_profile \<Rightarrow> api_error option
       \<Rightarrow> requeue \<times> profile_object option" where
  "discovery_Reconcile skipNamespaces namespace get_deploy get_wp created =
     (if list_ex (\<lambda>ns. namespace = ns) skipNamespaces then (Done, None)
      else case get_deploy of
        Inl NotFound \<Rightarrow> (Done, None)
      | Inl _ \<Rightarrow> (Failed, None)
      | Inr deploy \<Rightarrow>
          (case get_wp of
             Inr wp \<Rightarrow> (Done, None)
           | Inl NotFound \<Rightarrow>
               (case created of
                  None \<Rightarrow> (Done, Some (discovered deploy))
                | Some AlreadyExists \<Rightarrow> (Done, Some (discovered deploy))
                | Some _ \<Rightarrow> (Failed, Some (discovered deploy)))
           | Inl _ \<Rightarrow> (Failed, None)))"

section \<open>What a recommendation covers\<close>

lemma safety_factor_bounds:
  assumes "marginPercent \<le> 1000" and "- (2 ^ 31) \<le> marginPercent"
  shows "1 \<le> safety_factor marginPercent" and "safety_factor marginPercent \<le> 11"
proof -
  define m where "m = (if f_of_int marginPercent \<le> 0 then 20 else f_of_int marginPercent)"
  have e: "f_of_int marginPercent = of_int marginPercent" using assms by (simp add: f_of_int_def)
  have "0 \<le> m" "m \<le> 1000" using assms by (auto simp: m_def e)
  then have d: "0 \<le> fl (m / 100)" "fl (m / 100) \<le> 10"
    using fl_le_int [of "m / 100" 10] by simp_all
  have s: "safety_factor marginPercent = fl (1 + fl (m / 100))"
    by (simp add: safety_factor_def m_def f_add_def f_div_def Let_def)
  show "1 \<le> safety_factor marginPercent" using fl_ge_int [of 1 "1 + fl (m / 100)"] d by (simp add: s)
  show "safety_factor marginPercent \<le> 11" using fl_le_int [of "1 + fl (m / 100)" 11] d by (simp add: s)
qed

lemma scaled_up:
  assumes "0 \<le> v" "v \<le> 2 ^ 49" "is_f64 v" "1 \<le> F" "F \<le> 11"
  shows "\<lfloor>v\<rfloor> \<le> f_to_i64 (f_mul v F)"
proof -
  have "v * 1 \<le> v * F" using assms(1,4) by (intro mult_left_mono) simp_all
  then have lo: "v \<le> fl (v * F)" using fl_ge_f64 [of v "v * F"] assms(3) by simp
  have "v * F \<le> 2 ^ 49 * 11" using assms by (intro mult_mono) simp_all
  then have hi: "fl (v * F) \<le> 2 ^ 53" using fl_le_int [of "v * F" "2 ^ 53"] by simp
  have "trunc_rat (fl (v * F)) \<le> 2 ^ 53" using trunc_rat_le_int [of "fl (v * F)" "2 ^ 53"] hi by simp
  moreover have "0 \<le> trunc_rat (fl (v * F))" using lo assms(1) by (intro trunc_rat_nonneg) simp
  ultimately have "f_to_i64 (f_mul v F) = trunc_rat (fl (v * F))"
    by (simp add: f_to_i64_def f_mul_def in_i64_def min_i64_def max_i64_def)
  moreover have "\<lfloor>v\<rfloor> \<le> trunc_rat (fl (v * F))" using lo assms(1) by (simp add: trunc_rat_def floor_mono)
  ultimately show ?thesis by simp
qed

lemma waste_percent_range:
  assumes "0 \<le> p95" "is_f64 p95" "req \<le> 2 ^ 53"
  shows "0 \<le> waste_percent req p95 \<and> waste_percent req p95 \<le> 100 \<and>
     (of_int req \<le> p95 \<longrightarrow> waste_percent req p95 = 0)"
proof (cases "0 < req \<and> 0 < fl (of_int req - p95)")
  case True
  let ?R = "of_int req :: rat"
  let ?u = "fl (?R - p95)" let ?q = "fl (?u / ?R)" let ?w = "fl (?q * 100)"
  have R: "f_of_int req = ?R" "0 < ?R" using True assms(3) by (simp_all add: f_of_int_def)
  have "?u \<le> ?R" using assms R True by (intro fl_le_int) simp_all
  then have q: "0 \<le> ?q" "?q \<le> 1" using fl_le_int [of "?u / ?R" 1] R True by (simp_all add: field_simps)
  then have w: "0 \<le> ?w" "?w \<le> 100" using fl_le_int [of "?q * 100" 100] by simp_all
  have t: "0 \<le> trunc_rat ?w" "trunc_rat ?w \<le> 100"
    using trunc_rat_nonneg [OF w(1)] trunc_rat_le_int [of ?w 100] w(2) by simp_all
  have "waste_percent req p95 = trunc_rat ?w"
    using True R t by (simp add: waste_percent_def f_sub_def f_div_def f_mul_def f_to_i64_def Let_def in_i64_def
        min_i64_def max_i64_def i32_def)
  moreover have "\<not> ?R \<le> p95" using True fl_nonpos [of "?R - p95"] by linarith
  ultimately show ?thesis using t by simp
next
  case False
  then have "waste_percent req p95 = 0"
    using assms(3) by (auto simp: waste_percent_def f_sub_def f_of_int_def Let_def)
  then show ?thesis by simp
qed

text \<open>The samples a profile is computed from.\<close>

definition live_samples :: "workload_key \<Rightarrow> gtime \<Rightarrow> store \<Rightarrow> usample list" where
  "live_samples key now s = filter (\<lambda>x. \<not> uo_at x < now - st_retention s) (stored s (key_String key))"

definition sane_sample :: "usample \<Rightarrow> bool" where
  "sane_sample x \<longleftrightarrow> 0 \<le> uo_cpu x \<and> uo_cpu x \<le> 2 ^ 40 \<and> is_f64 (uo_cpu x) \<and>
     0 \<le> uo_mem x \<and> uo_mem x \<le> 2 ^ 49 \<and> is_f64 (uo_mem x)"

lemma recommended_covers:
  assumes "alive \<noteq> []" and "length alive \<le> 4096" and "\<forall>x \<in> set alive. sane_sample x"
    and "- (2 ^ 31) \<le> marginPercent" "marginPercent \<le> 1000"
    and rec: "recommended marginPercent (summarise (map uo_cpu alive)) (summarise (map uo_mem alive)) = (c, m)"
  shows "10 \<le> c" and "16777216 \<le> m" and "\<forall>x \<in> set alive. \<lfloor>uo_mem x\<rfloor> \<le> m"
    and "95 * length alive \<le> 100 * length (filter (\<lambda>x. \<lfloor>uo_cpu x\<rfloor> \<le> c) alive)"
proof -
  let ?p = "us_p95 (summarise (map uo_cpu alive))" let ?x = "us_max (summarise (map uo_mem alive))"
  let ?F = "safety_factor marginPercent"
  note F = safety_factor_bounds [OF assms(5,4)]
  have cm: "c = (if f_to_i64 (f_mul ?p ?F) < 10 then 10 else f_to_i64 (f_mul ?p ?F))"
    "m = (if f_to_i64 (f_mul ?x ?F) < 16777216 then 16777216 else f_to_i64 (f_mul ?x ?F))"
    using rec by (auto simp: recommended_def Let_def)
  then show "10 \<le> c" "16777216 \<le> m" by simp_all
  have F_le: "f_to_i64 (f_mul ?p ?F) \<le> c" "f_to_i64 (f_mul ?x ?F) \<le> m" by (simp_all add: cm)
  have x: "?x \<in> set (map uo_mem alive)" "\<forall>v \<in> set (map uo_mem alive). v \<le> ?x"
    using summarise_max [of "map uo_mem alive"] assms(1) by simp_all
  then have "0 \<le> ?x" "?x \<le> 2 ^ 49" "is_f64 ?x" using assms(3) by (auto simp: sane_sample_def)
  from scaled_up [OF this F] have "\<lfloor>?x\<rfloor> \<le> m" using F_le(2) by (rule order.trans)
  moreover have "\<lfloor>uo_mem y\<rfloor> \<le> \<lfloor>?x\<rfloor>" if "y \<in> set alive" for y using that x(2) by (intro floor_mono) simp
  ultimately show "\<forall>x \<in> set alive. \<lfloor>uo_mem x\<rfloor> \<le> m" by (meson order.trans)
  have n: "map uo_cpu alive \<noteq> []" "int (length (map uo_cpu alive)) \<le> 2 ^ 40" using assms(1,2) by simp_all
  have "?p \<in> set (map uo_cpu alive)" using summarise_p95(1) [OF n] .
  then have "0 \<le> ?p" "?p \<le> 2 ^ 49" "is_f64 ?p" using assms(3) by (auto simp: sane_sample_def)
  from scaled_up [OF this F] have p: "\<lfloor>?p\<rfloor> \<le> c" using F_le(1) by (rule order.trans)
  have "length (filter (\<lambda>x. uo_cpu x \<le> ?p) alive) \<le> length (filter (\<lambda>x. \<lfloor>uo_cpu x\<rfloor> \<le> c) alive)"
  proof -
    have "\<lfloor>uo_cpu y\<rfloor> \<le> c" if "uo_cpu y \<le> ?p" for y using floor_mono [OF that] p by simp
    then have "filter (\<lambda>x. uo_cpu x \<le> ?p) alive = filter (\<lambda>x. uo_cpu x \<le> ?p) (filter (\<lambda>x. \<lfloor>uo_cpu x\<rfloor> \<le> c) alive)"
      by (auto intro: filter_cong)
    then show ?thesis by (metis length_filter_le)
  qed
  moreover have "95 * length alive \<le> 100 * length (filter (\<lambda>x. uo_cpu x \<le> ?p) alive)"
    using summarise_p95(2) [OF n] by (simp add: filter_map comp_def)
  ultimately show "95 * length alive \<le> 100 * length (filter (\<lambda>x. \<lfloor>uo_cpu x\<rfloor> \<le> c) alive)" by linarith
qed

text \<open>
  C19. A recommendation covers what was seen. Whenever the store has live samples for a workload, the
  status the reconciler writes recommends at least the memory of every one of them and at least the
  CPU of 95 out of 100, in whole bytes and millicores, and never under 10 millicores and 16 MiB.
\<close>

theorem profile_covers:
  assumes "profile_Reconcile Q now s (Inr wp) patch_ok = (res, Some st)"
    and "live_samples (profile_key wp) now s \<noteq> []" and "store_wf s" and "st_max s = 4096"
    and "\<forall>x \<in> set (live_samples (profile_key wp) now s). sane_sample x"
    and "- (2 ^ 31) \<le> wq_margin (wl_spec wp)" "wq_margin (wl_spec wp) \<le> 1000"
  shows "\<exists>c m. ws_recommendation st = [ResourceCPU \<mapsto> q_new_milli Q c, ResourceMemory \<mapsto> q_new Q m] \<and>
     10 \<le> c \<and> 16777216 \<le> m \<and> (\<forall>x \<in> set (live_samples (profile_key wp) now s). \<lfloor>uo_mem x\<rfloor> \<le> m) \<and>
     95 * length (live_samples (profile_key wp) now s)
       \<le> 100 * length (filter (\<lambda>x. \<lfloor>uo_cpu x\<rfloor> \<le> c) (live_samples (profile_key wp) now s))"
proof -
  let ?alive = "live_samples (profile_key wp) now s"
  have len: "length ?alive \<le> 4096"
  proof -
    have "length (stored s (key_String (profile_key wp))) \<le> 4096"
      using assms(3,4) unfolding store_wf_def stored_def by (auto split: option.splits dest!: map_of_SomeD)
    then show ?thesis unfolding live_samples_def by (meson length_filter_le order.trans)
  qed
  have ws: "WorkloadStats (profile_key wp) now s = Some (summarise (map uo_cpu ?alive), summarise (map uo_mem ?alive),
      int (length (remdups (map uo_uid ?alive))))"
    using assms(2) by (simp add: WorkloadStats_stored live_samples_def stats_of_def)
  obtain c m where rec: "recommended (wq_margin (wl_spec wp)) (summarise (map uo_cpu ?alive)) (summarise (map uo_mem ?alive)) = (c, m)"
    by (cases "recommended (wq_margin (wl_spec wp)) (summarise (map uo_cpu ?alive)) (summarise (map uo_mem ?alive))")
  have "ws_recommendation st = [ResourceCPU \<mapsto> q_new_milli Q c, ResourceMemory \<mapsto> q_new Q m]"
    using assms(1) ws rec by (auto simp: profile_Reconcile_def profiled_status_def Let_def split: prod.splits)
  with recommended_covers [OF assms(2) len assms(5,6,7) rec] show ?thesis by blast
qed

section \<open>Rollouts and discovery\<close>

text \<open>
  C37. A Deployment keeps its history across rollouts: what a pod of any of its ReplicaSets reports is
  filed under the Deployment, which is the key of the profile that discovery creates for it.
\<close>

theorem discovered_key:
  assumes "get_rs (dp_namespace d) rs = Inr (Some (''Deployment'', dp_name d))"
    and "discovery_Reconcile skip ns (Inr d) (Inl NotFound :: api_error + 'q workload_profile) None = (Done, Some obj)"
    and "ur_namespace p = dp_namespace d" "ur_owner_kind p = ''ReplicaSet''" "ur_owner_name p = rs"
    and "wl_namespace wp = po_namespace obj" "wl_spec wp = po_spec obj"
  shows "workloadKey (Some (NewOwnerResolver get_rs)) p = Some (profile_key (wp :: 'q workload_profile)) \<and>
     IsValid (wq_level (po_spec obj)) \<and> po_name obj = dp_name d \<and> \<not> list_ex (\<lambda>n. ns = n) skip"
  using assms by (auto simp: discovery_Reconcile_def discovered_def workloadKey_def NewOwnerResolver_def
      profile_key_def Let_def split: if_splits)

section \<open>At a concrete input\<close>

definition example_statistics :: "rat usage_statistics" where
  "example_statistics = \<lparr>ut_p50 = 0, ut_p90 = 0, ut_p95 = 0, ut_p99 = 0, ut_max = 0\<rparr>"

definition example_workload :: "rat workload_profile" where
  "example_workload =
     \<lparr>wl_namespace = ''default'', wl_name = ''web'',
      wl_spec = \<lparr>wq_target = \<lparr>tr_api = ''apps/v1'', tr_kind = ''ReplicaSet'', tr_name = ''web''\<rparr>,
                wq_level = QoSSharedCores, wq_margin = 20\<rparr>,
      wl_status = \<lparr>ws_samples = 0, ws_pods = 0, ws_cpu = example_statistics, ws_memory = example_statistics,
                  ws_requests = Map.empty, ws_recommendation = Map.empty, ws_waste = 0, ws_confidence = [],
                  ws_updated = 0, ws_conditions = []\<rparr>\<rparr>"

lemma example_live:
  "live_samples (profile_key example_workload) 3000 (store_after None 5000 (example_events @ [Collected 3000])) =
     replicate 2 (usample_of 1000 (hd (rp_pods example_report)))"
proof -
  have k: "profile_key example_workload = example_key"
    by (simp add: profile_key_def example_workload_def example_key_def)
  have r: "st_retention (store_after None 5000 (example_events @ [Collected 3000])) = 5000"
    unfolding store_after_frame by (simp add: NewStore_def)
  show ?thesis unfolding live_samples_def k r stored_def example_store
    by (simp add: usample_of_def numeral_2_eq_2)
qed

theorem profile_covers_witness:
  "\<exists>st c m. profile_Reconcile rat_quantity 3000 (store_after None 5000 (example_events @ [Collected 3000]))
       (Inr example_workload) True = (RequeueAfter (30 * second), Some st) \<and>
     ws_recommendation st = [ResourceCPU \<mapsto> q_new_milli rat_quantity c, ResourceMemory \<mapsto> q_new rat_quantity m] \<and>
     10 \<le> c \<and> 16777216 \<le> m"
proof -
  let ?s = "store_after None 5000 (example_events @ [Collected 3000])"
  obtain st where e: "profile_Reconcile rat_quantity 3000 ?s (Inr example_workload) True = (RequeueAfter (30 * second), Some st)"
    by (simp add: profile_Reconcile_def Let_def)
  have m: "st_max ?s = 4096" by (rule store_after_frame)
  have live: "live_samples (profile_key example_workload) 3000 ?s \<noteq> []" by (simp add: example_live)
  have sane: "\<forall>x \<in> set (live_samples (profile_key example_workload) 3000 ?s). sane_sample x"
    by (simp add: example_live sane_sample_def usample_of_def example_report_def f_of_int_def is_f64_def)
  from profile_covers [OF e live store_after_wf m sane] e show ?thesis
    by (auto simp: example_workload_def)
qed

definition example_deployment :: deployment where
  "example_deployment = \<lparr>dp_namespace = ''default'', dp_name = ''web'', dp_uid = ''d'', dp_template = Map.empty\<rparr>"

theorem discovered_key_witness:
  "workloadKey (Some (NewOwnerResolver (\<lambda>n r. Inr (Some (''Deployment'', ''web''))))) (hd (rp_pods example_report)) =
     Some (profile_key (example_workload\<lparr>wl_spec := po_spec (discovered example_deployment)\<rparr>))"
proof -
  let ?wp = "example_workload\<lparr>wl_spec := po_spec (discovered example_deployment)\<rparr>"
  let ?p = "hd (rp_pods example_report)"
  have d: "discovery_Reconcile [] ''default'' (Inr example_deployment) (Inl NotFound :: api_error + rat workload_profile) None
      = (Done, Some (discovered example_deployment))"
    by (simp add: discovery_Reconcile_def)
  show ?thesis
    using discovered_key [of "\<lambda>n r. Inr (Some (''Deployment'', ''web''))" example_deployment "''web''", OF _ d, of ?p ?wp]
    by (simp add: example_deployment_def example_report_def example_workload_def discovered_def Let_def)
qed

end
