(* ===== verification/Agent.thy ===== *)
theory Agent
  imports Usage Overcommit Eviction Webhook
begin

text \<open>
  The node agent (\<^verbatim>\<open>pkg/agent/agent.go\<close>, \<^verbatim>\<open>report.go\<close>): it owns a collector, an advisor, a pool
  manager, an eviction manager and a publisher, and drives them once per tick in a fixed order. One
  tick is a function of the agent's state and of everything the outside answers during it
  (\<open>tick_env\<close>); its result holds every effect it had on the outside (\<open>tick_outcome\<close>). The clock is read
  once per tick.
\<close>

section \<open>Options and state\<close>

record options =
  op_node :: string
  op_cgroup_root :: string
  op_sysnode :: string
  op_interval :: duration
  op_endpoint :: string
  op_estimate :: bool
  op_fanout :: bool
  op_enforce :: bool

text \<open>
  The resolver is one object in the source, shared by the collector and the pool manager; it lives in
  the collector here and is handed to the pool manager for each call.
\<close>

record 'q agent =
  ag_opts :: options
  ag_collector :: collector
  ag_advisor :: advisor
  ag_pools :: pool_manager
  ag_evictor :: "'q eviction_manager"
  ag_publisher :: publisher
  ag_disabled :: string

text \<open>
  The libraries the agent calls: quantities, \<^verbatim>\<open>sort.Slice\<close>, \<^verbatim>\<open>fmt.Sscanf\<close> with \<^verbatim>\<open>%g\<close>, the
  address operations of the publisher and \<^verbatim>\<open>json.Marshal\<close> of a report.
\<close>

record 'q agent_libs =
  al_quantity :: "'q quantity_ops"
  al_sort :: slice_sort
  al_scan :: "string \<Rightarrow> f64 option"
  al_net :: net_ops
  al_encode :: "report \<Rightarrow> string option"

definition agent_New :: "'q agent_libs \<Rightarrow> os_fs \<Rightarrow> int \<Rightarrow> bool \<Rightarrow> options \<Rightarrow> 'q agent option" where
  "agent_New L fs numCPU recorder opts0 =
     (let opts = (if op_interval opts0 \<le> 0 then opts0\<lparr>op_interval := 10 * second\<rparr> else opts0);
          base = cgroup_New (op_cgroup_root opts);
          advisorCfg = DefaultConfig\<lparr>av_interval_seconds := i32 (go_div (op_interval opts) second)\<rparr>
      in case DetectTopology fs (op_sysnode opts) numCPU of
           None \<Rightarrow> None
         | Some topology \<Rightarrow>
             Some \<lparr>ag_opts = opts, ag_collector = collector_New base (op_estimate opts),
                   ag_advisor = advisor_New advisorCfg,
                   ag_pools = NewManager base topology
                     \<lparr>kp_enabled = False, kp_reserved = [], kp_shared_min = 2, kp_reclaimed_min = 1\<rparr>,
                   ag_evictor = eviction_NewManager recorder (BuildPlugins (kqos_registry (al_sort L) (al_quantity L)) []),
                   ag_publisher = NewPublisher (op_endpoint opts) (5 * second) (op_fanout opts),
                   ag_disabled = []\<rparr>)"

section \<open>Policy\<close>

definition DefaultPolicy :: "'q qos_policy_spec" where
  "DefaultPolicy =
     (let cfg = DefaultConfig
      in \<lparr>ps_overcommit = \<lparr>oc_cpu_target = av_cpu_target cfg, oc_mem_target = av_mem_target cfg,
            oc_headroom = av_headroom cfg, oc_max_reclaim = av_max_reclaim cfg,
            oc_min_reclaim_cpu = None, oc_min_reclaim_mem = None\<rparr>,
          ps_advisor = \<lparr>ac_window_seconds = av_window_seconds cfg, ac_interval_seconds = av_interval_seconds cfg,
            ac_algorithm = av_algorithm cfg, ac_ewma_alpha = ''0.3''\<rparr>,
          ps_eviction = \<lparr>ec_enabled = True, ec_dry_run = False, ec_mem_threshold = av_mem_threshold cfg,
            ec_cpu_threshold = av_cpu_threshold cfg, ec_cpu_stall_threshold = av_stall_threshold cfg,
            ec_max_per_minute = 3, ec_grace_seconds = 30, ec_stabilisation = 30, ec_disabled = []\<rparr>,
          ps_cpuset = \<lparr>cc_enabled = False, cc_reserved = [], cc_shared_min = 2, cc_reclaimed_min = 1\<rparr>,
          ps_webhook = \<lparr>wc_default_level = QoSSharedCores, wc_rewrite = True, wc_exempt = []\<rparr>\<rparr>)"

text \<open>The policy and whether the read failed for good.\<close>

definition loadPolicy :: "api_error + 'q qos_policy_spec \<Rightarrow> 'q qos_policy_spec \<times> api_error option" where
  "loadPolicy got =
     (case got of
        Inr spec \<Rightarrow> (spec, None)
      | Inl NotFound \<Rightarrow> (DefaultPolicy, None)
      | Inl err \<Rightarrow> (DefaultPolicy, Some err))"

definition parseAlpha :: "(string \<Rightarrow> f64 option) \<Rightarrow> string \<Rightarrow> f64" where
  "parseAlpha scan s =
     (case scan s of
        None \<Rightarrow> fl (3 / 10)
      | Some f \<Rightarrow> if f \<le> 0 \<or> f > 1 then fl (3 / 10) else f)"

text \<open>\<^verbatim>\<open>fmt.Sprint\<close> of a slice of strings.\<close>

definition sprint_strings :: "string list \<Rightarrow> string" where
  "sprint_strings xs = ''['' @ join_on CHR '' '' xs @ '']''"

definition policy_config :: "'q agent_libs \<Rightarrow> 'q qos_policy_spec \<Rightarrow> adv_config \<Rightarrow> adv_config" where
  "policy_config L p cfg =
     cfg\<lparr>av_window_seconds := ac_window_seconds (ps_advisor p),
         av_interval_seconds := ac_interval_seconds (ps_advisor p),
         av_algorithm := ac_algorithm (ps_advisor p),
         av_alpha := parseAlpha (al_scan L) (ac_ewma_alpha (ps_advisor p)),
         av_cpu_target := oc_cpu_target (ps_overcommit p),
         av_mem_target := oc_mem_target (ps_overcommit p),
         av_headroom := oc_headroom (ps_overcommit p),
         av_max_reclaim := oc_max_reclaim (ps_overcommit p),
         av_min_cpu := (case oc_min_reclaim_cpu (ps_overcommit p) of Some q \<Rightarrow> q_milli (al_quantity L) q | None \<Rightarrow> av_min_cpu cfg),
         av_min_mem := (case oc_min_reclaim_mem (ps_overcommit p) of Some q \<Rightarrow> q_value (al_quantity L) q | None \<Rightarrow> av_min_mem cfg),
         av_mem_threshold := ec_mem_threshold (ps_eviction p),
         av_cpu_threshold := ec_cpu_threshold (ps_eviction p),
         av_stall_threshold := ec_cpu_stall_threshold (ps_eviction p)\<rparr>"

definition applyPolicy :: "'q agent_libs \<Rightarrow> 'q qos_policy_spec \<Rightarrow> 'q agent \<Rightarrow> 'q agent" where
  "applyPolicy L p a =
     (let cfg = policy_config L p (a_cfg (ag_advisor a));
          a1 = a\<lparr>ag_advisor := advisor_SetConfig cfg (ag_advisor a)\<rparr>;
          a2 = a1\<lparr>ag_pools := pool_SetConfig
                 \<lparr>kp_enabled = cc_enabled (ps_cpuset p), kp_reserved = cc_reserved (ps_cpuset p),
                  kp_shared_min = cc_shared_min (ps_cpuset p), kp_reclaimed_min = cc_reclaimed_min (ps_cpuset p)\<rparr> (ag_pools a1)\<rparr>;
          key = sprint_strings (ec_disabled (ps_eviction p))
      in if key \<noteq> ag_disabled a2
         then a2\<lparr>ag_disabled := key,
                 ag_evictor := SetPlugins (BuildPlugins (kqos_registry (al_sort L) (al_quantity L)) (ec_disabled (ps_eviction p)))
                   (ag_evictor a2)\<rparr>
         else a2)"

section \<open>Pods\<close>

definition livePods :: "'q pod list option \<Rightarrow> 'q pod list option" where
  "livePods listed = map_option (filter (\<lambda>pod. \<not> IsTerminal pod)) listed"

definition evictionCandidates :: "'q quantity_ops \<Rightarrow> 'q pod list \<Rightarrow> 'q pod list" where
  "evictionCandidates Q pods =
     filter (\<lambda>pod. \<not> (\<not> Evictable (level_of Q pod) \<or> IsMirrorPod pod \<or> p_deletion pod \<noteq> None)) pods"

definition indexSamples :: "'q node_sample \<Rightarrow> string \<Rightarrow> 'q pod_sample option" where
  "indexSamples s = fold (\<lambda>p out. out(sm_uid p \<mapsto> p)) (ns_pods s) Map.empty"

section \<open>The report to the API server\<close>

definition boolCondition :: "bool \<Rightarrow> string" where
  "boolCondition b = (if b then ConditionTrue else ConditionFalse)"

definition healthy_condition :: condition where
  "healthy_condition = \<lparr>cn_type = ''AgentHealthy'', cn_status = ConditionTrue, cn_reason = ''Sampling'',
     cn_message = ''agent is sampling cgroup v2 and reporting normally'', cn_transition = 0\<rparr>"

definition degraded_condition :: condition where
  "degraded_condition = \<lparr>cn_type = ''AgentHealthy'', cn_status = ConditionFalse, cn_reason = ''DegradedSampling'',
     cn_message = ''cgroup hierarchy unreadable; figures are estimates and eviction is suspended'', cn_transition = 0\<rparr>"

definition ready_condition :: "recommendation \<Rightarrow> condition" where
  "ready_condition rec = \<lparr>cn_type = ''RecommendationReady'', cn_status = boolCondition (rc_confidence rec \<noteq> ''Low''),
     cn_reason = ''Confidence'' @ rc_confidence rec,
     cn_message = ''reclaimable capacity bound by '' @ rc_reason rec, cn_transition = 0\<rparr>"

definition status_conditions :: "gtime \<Rightarrow> bool \<Rightarrow> recommendation \<Rightarrow> condition list \<Rightarrow> condition list" where
  "status_conditions now degraded rec existing =
     (let c1 = setCondition now healthy_condition existing;
          c2 = (if degraded then setCondition now degraded_condition c1 else c1)
      in setCondition now (ready_condition rec) c2)"

definition buildStatus ::
    "'q quantity_ops \<Rightarrow> gtime \<Rightarrow> pool_manager \<Rightarrow> 'q node \<Rightarrow> 'q node_sample \<Rightarrow> recommendation \<Rightarrow> condition list \<Rightarrow> 'q profile_status" where
  "buildStatus Q now pools node sample rec existing =
     \<lparr>nr_capacity = nd_capacity node, nr_allocatable = nd_allocatable node,
      nr_allocations = (\<lambda>level. map_option (\<lambda>totals.
          \<lparr>qa_pods = qt_pods totals, qa_requested = ToResourceList Q totals ''requested'',
           qa_limits = ToResourceList Q totals ''limits'', qa_actual = ToResourceList Q totals ''actual''\<rparr>) (ByQoS Q sample level)),
      nr_reclaimable = ReclaimableResourceList Q rec, nr_pressure = rc_pressure rec,
      nr_pools = StatusPools pools, nr_zones = StatusZones pools, nr_revision = rc_revision rec,
      nr_last_report = ns_time sample,
      nr_conditions = status_conditions now (ns_degraded sample) rec existing\<rparr>"

record node_profile_object =
  no_name :: string
  no_labels :: "string \<Rightarrow> string option"
  no_owners :: "owner_ref list"
  no_node_name :: string

definition new_node_profile :: "options \<Rightarrow> 'q node \<Rightarrow> node_profile_object" where
  "new_node_profile opts node =
     \<lparr>no_name = op_node opts, no_labels = managed_labels,
      no_owners = [\<lparr>or_api = ''v1'', or_kind = ''Node'', or_name = nd_name node, or_uid = nd_uid node\<rparr>],
      no_node_name = op_node opts\<rparr>"

text \<open>
  The replies to the first read, the creation, the second read and the patch. The result: the object
  it tried to create, the status it tried to write, the error returned.
\<close>

record 'q report_replies =
  rr_get :: "api_error + 'q profile_status"
  rr_create :: "api_error option"
  rr_reget :: "api_error + 'q profile_status"
  rr_patch :: "api_error option"

definition agent_report ::
    "'q quantity_ops \<Rightarrow> gtime \<Rightarrow> options \<Rightarrow> pool_manager \<Rightarrow> 'q node \<Rightarrow> 'q node_sample \<Rightarrow> recommendation \<Rightarrow> 'q report_replies
       \<Rightarrow> node_profile_object option \<times> 'q profile_status option \<times> api_error option" where
  "agent_report Q now opts pools node sample rec rr =
     (let write = (\<lambda>st. Some (buildStatus Q now pools node sample rec (nr_conditions st)))
      in case rr_get rr of
           Inl NotFound \<Rightarrow>
             (let obj = new_node_profile opts node
              in case rr_create rr of
                   Some OtherError \<Rightarrow> (Some obj, None, Some OtherError)
                 | Some NotFound \<Rightarrow> (Some obj, None, Some NotFound)
                 | _ \<Rightarrow> (case rr_reget rr of
                           Inl err \<Rightarrow> (Some obj, None, Some err)
                         | Inr st \<Rightarrow> (Some obj, write st, rr_patch rr)))
         | Inl err \<Rightarrow> (None, None, Some err)
         | Inr st \<Rightarrow> (None, write st, rr_patch rr))"

section \<open>Metrics\<close>

definition PressureValue :: "string \<Rightarrow> f64" where
  "PressureValue level = (if level = ''Critical'' then 2 else if level = ''Moderate'' then 1 else 0)"

datatype gauge = Gauge string "string list" f64

definition qos_gauges :: "string \<Rightarrow> (QoSLevel \<Rightarrow> qos_totals option) \<Rightarrow> QoSLevel \<Rightarrow> gauge list" where
  "qos_gauges node byQoS level =
     (let t = (case byQoS level of None \<Rightarrow> zero_totals | Some u \<Rightarrow> u)
      in [Gauge ''QoSPods'' [node, level] (f_of_int (qt_pods t)),
          Gauge ''QoSUsage'' [node, level, ''cpu''] (qt_act_cpu t),
          Gauge ''QoSUsage'' [node, level, ''memory''] (f_of_int (qt_act_mem t)),
          Gauge ''QoSRequested'' [node, level, ''cpu''] (f_of_int (qt_req_cpu t)),
          Gauge ''QoSRequested'' [node, level, ''memory''] (f_of_int (qt_req_mem t))])"

definition exportMetrics :: "'q quantity_ops \<Rightarrow> string \<Rightarrow> 'q node_sample \<Rightarrow> recommendation \<Rightarrow> gauge list" where
  "exportMetrics Q node sample rec =
     [Gauge ''NodeReclaimable'' [node, ''cpu''] (f_of_int (rc_cpu rec)),
      Gauge ''NodeReclaimable'' [node, ''memory''] (f_of_int (rc_mem rec)),
      Gauge ''NodeProtectedUsage'' [node, ''cpu''] (f_of_int (rc_prot_cpu rec)),
      Gauge ''NodeProtectedUsage'' [node, ''memory''] (f_of_int (rc_prot_mem rec)),
      Gauge ''NodePressureLevel'' [node] (PressureValue (pressure_string (np_level (rc_pressure rec)))),
      Gauge ''NodePressureStall'' [node, ''cpu'', ''some''] (f_of_int (np_cpu_some_stalled (rc_pressure rec))),
      Gauge ''NodePressureStall'' [node, ''memory'', ''full''] (f_of_int (np_mem_full_stalled (rc_pressure rec)))]
     @ concat (map (qos_gauges node (ByQoS Q sample)) KnownQoSLevels)"

section \<open>The report to the usage store\<close>

definition pods_by_uid :: "'q pod list \<Rightarrow> string \<Rightarrow> 'q pod option" where
  "pods_by_uid pods = fold (\<lambda>p out. out(p_uid p \<mapsto> p)) pods Map.empty"

definition pod_report_of :: "'q quantity_ops \<Rightarrow> (string \<Rightarrow> 'q pod option) \<Rightarrow> 'q pod_sample \<Rightarrow> pod_report" where
  "pod_report_of Q byUID ps =
     (let u0 = \<lparr>ur_uid = sm_uid ps, ur_namespace = sm_namespace ps, ur_name = sm_name ps, ur_level = sm_level ps,
                ur_owner_kind = [], ur_owner_name = [], ur_cpu = sm_cpu ps, ur_mem = sm_mem ps,
                ur_req_cpu = RequestedCPUMilli Q ps, ur_req_mem = RequestedMemoryBytes Q ps, ur_throttled = sm_throttled ps\<rparr>
      in case byUID (sm_uid ps) of
           None \<Rightarrow> u0
         | Some pod \<Rightarrow>
             (let u1 = (case p_controller pod of
                          None \<Rightarrow> u0
                        | Some (kind, name) \<Rightarrow> u0\<lparr>ur_owner_kind := kind, ur_owner_name := name\<rparr>);
                  eff = EffectiveRequests Q pod
              in if ur_req_cpu u1 = 0 then
                   (let u2 = (case eff ResourceCPU of Some q \<Rightarrow> u1\<lparr>ur_req_cpu := q_milli Q q\<rparr> | None \<Rightarrow> u1)
                    in case eff ResourceMemory of Some q \<Rightarrow> u2\<lparr>ur_req_mem := q_value Q q\<rparr> | None \<Rightarrow> u2)
                 else u1))"

definition buildReport :: "'q quantity_ops \<Rightarrow> string \<Rightarrow> 'q node_sample \<Rightarrow> 'q pod list \<Rightarrow> report" where
  "buildReport Q nodeName sample pods =
     \<lparr>rp_node = nodeName, rp_timestamp = ns_time sample,
      rp_pods = map (pod_report_of Q (pods_by_uid pods)) (filter sm_valid (ns_pods sample)),
      rp_degraded = ns_degraded sample\<rparr>"

section \<open>One tick\<close>

record 'q tick_env =
  te_now :: gtime
  te_fs :: os_fs
  te_policy :: "api_error + 'q qos_policy_spec"
  te_node :: "api_error + 'q node"
  te_pods :: "'q pod list option"
  te_report :: "'q report_replies"
  te_lookup :: "string \<Rightarrow> string list option"
  te_peer :: "string \<Rightarrow> string \<Rightarrow> http_result"
  te_evict :: "'q evict_api"

datatype tick_error = NodeGet | PodList | CollectFailed

record 'q tick_outcome =
  to_error :: "tick_error option"
  to_fs :: os_fs
  to_rec :: "recommendation option"
  to_gauges :: "gauge list"
  to_created :: "node_profile_object option"
  to_status :: "'q profile_status option"
  to_report_error :: "api_error option"
  to_posts :: posts
  to_publish_error :: "publish_error option"
  to_run :: "'q run_result"

definition tick_failed :: "tick_error \<Rightarrow> os_fs \<Rightarrow> 'q tick_outcome" where
  "tick_failed e fs = \<lparr>to_error = Some e, to_fs = fs, to_rec = None, to_gauges = [], to_created = None, to_status = None,
     to_report_error = None, to_posts = [], to_publish_error = None, to_run = empty_result\<rparr>"

text \<open>
  The enforcement step: the pool manager works through the shared resolver. \<^const>\<open>None\<close> is a
  reconciliation that does not return, as the reserved CPU list may not parse in finite time.
\<close>

definition enforce_pools :: "'q quantity_ops \<Rightarrow> 'q pod list \<Rightarrow> 'q agent \<Rightarrow> os_fs \<Rightarrow> ('q agent \<times> os_fs) option" where
  "enforce_pools Q pods a fs =
     (if op_enforce (ag_opts a) then
        (case pool_Reconcile Q pods (ag_pools a, cl_resolver (ag_collector a), fs) of
           None \<Rightarrow> None
         | Some (err, (m, r, fs')) \<Rightarrow>
             Some (a\<lparr>ag_pools := m, ag_collector := (ag_collector a)\<lparr>cl_resolver := r\<rparr>\<rparr>, fs'))
      else Some (a, fs))"

definition publish_usage ::
    "'q agent_libs \<Rightarrow> 'q tick_env \<Rightarrow> 'q node_sample \<Rightarrow> 'q pod list \<Rightarrow> 'q agent \<Rightarrow> 'q agent \<times> posts \<times> publish_error option" where
  "publish_usage L env sample pods a =
     (if Enabled (Some (ag_publisher a)) then
        (case Publish (al_net L) (te_lookup env) (te_peer env) (al_encode L) (te_now env)
                (buildReport (al_quantity L) (op_node (ag_opts a)) sample pods) (Some (ag_publisher a)) of
           (p, sent, err) \<Rightarrow> (a\<lparr>ag_publisher := (case p of None \<Rightarrow> ag_publisher a | Some q \<Rightarrow> q)\<rparr>, sent, err))
      else (a, [], None))"

definition tick_signal ::
    "'q quantity_ops \<Rightarrow> 'q qos_policy_spec \<Rightarrow> 'q node \<Rightarrow> 'q pod list \<Rightarrow> 'q node_sample \<Rightarrow> recommendation \<Rightarrow> 'q signal" where
  "tick_signal Q policy node pods sample rec =
     \<lparr>sg_sample = sample, sg_rec = rec, sg_alloc = nd_allocatable node, sg_config = ps_eviction policy,
      sg_pods = evictionCandidates Q pods, sg_by_uid = indexSamples sample\<rparr>"

text \<open>The tick once a sample was taken.\<close>

definition tick_sampled ::
    "'q agent_libs \<Rightarrow> 'q tick_env \<Rightarrow> 'q qos_policy_spec \<Rightarrow> 'q node \<Rightarrow> 'q pod list \<Rightarrow> 'q node_sample \<Rightarrow> 'q agent
       \<Rightarrow> ('q agent \<times> 'q tick_outcome) option" where
  "tick_sampled L env policy node pods sample a =
     (let Q = al_quantity L;
          (rec, adv) = advisor_Recommend Q (nd_allocatable node) (ns_time sample) (advisor_Observe sample (ag_advisor a));
          a1 = a\<lparr>ag_advisor := adv\<rparr>
      in case enforce_pools Q pods a1 (te_fs env) of
           None \<Rightarrow> None
         | Some (a2, fs) \<Rightarrow>
             let gauges = exportMetrics Q (op_node (ag_opts a2)) sample rec;
                 (created, status, rerr) = agent_report Q (te_now env) (ag_opts a2) (ag_pools a2) node sample rec (te_report env);
                 (a3, sent, perr) = publish_usage L env sample pods a2;
                 (ev, run) = manager_Run (te_evict env) Q (tick_signal Q policy node pods sample rec) (te_now env) (ag_evictor a3)
             in Some (a3\<lparr>ag_evictor := ev\<rparr>,
                  \<lparr>to_error = None, to_fs = fs, to_rec = Some rec, to_gauges = gauges, to_created = created,
                   to_status = status, to_report_error = rerr, to_posts = sent, to_publish_error = perr, to_run = run\<rparr>))"

definition agent_tick :: "'q agent_libs \<Rightarrow> 'q tick_env \<Rightarrow> 'q agent \<Rightarrow> ('q agent \<times> 'q tick_outcome) option" where
  "agent_tick L env a =
     (let policy = fst (loadPolicy (te_policy env));
          a1 = applyPolicy L policy a
      in case te_node env of
           Inl err \<Rightarrow> Some (a1, tick_failed NodeGet (te_fs env))
         | Inr node \<Rightarrow>
             (case livePods (te_pods env) of
                None \<Rightarrow> Some (a1, tick_failed PodList (te_fs env))
              | Some pods \<Rightarrow>
                  (case Collect (al_quantity L) (te_fs env) (te_now env) pods (TotalCPUs (pm_topology (ag_pools a1)))
                          (ag_collector a1) of
                     (None, c) \<Rightarrow> Some (a1\<lparr>ag_collector := c\<rparr>, tick_failed CollectFailed (te_fs env))
                   | (Some sample, c) \<Rightarrow> tick_sampled L env policy node pods sample (a1\<lparr>ag_collector := c\<rparr>))))"

text \<open>The loop: the first tick runs at once, the others when the ticker fires.\<close>

fun agent_ticks :: "'q agent_libs \<Rightarrow> 'q tick_env list \<Rightarrow> 'q agent \<Rightarrow> ('q agent \<times> 'q tick_outcome list) option" where
  "agent_ticks L [] a = Some (a, [])"
| "agent_ticks L (env # envs) a =
     (case agent_tick L env a of
        None \<Rightarrow> None
      | Some (a1, out) \<Rightarrow> map_option (\<lambda>(a2, outs). (a2, out # outs)) (agent_ticks L envs a1))"

text \<open>Start-up logs the publisher's targets, which resolves them and fills its cache, and then ticks.\<close>

definition agent_announce :: "'q agent_libs \<Rightarrow> (string \<Rightarrow> string list option) \<Rightarrow> gtime \<Rightarrow> 'q agent \<Rightarrow> 'q agent" where
  "agent_announce L lookup now a = a\<lparr>ag_publisher := fst (Targets (al_net L) lookup now (ag_publisher a))\<rparr>"

definition agent_Start ::
    "'q agent_libs \<Rightarrow> (string \<Rightarrow> string list option) \<Rightarrow> gtime \<Rightarrow> 'q tick_env list \<Rightarrow> 'q agent
       \<Rightarrow> ('q agent \<times> 'q tick_outcome list) option" where
  "agent_Start L lookup now envs a = agent_ticks L envs (agent_announce L lookup now a)"

section \<open>What a tick does\<close>

lemma enforce_pools_keeps:
  "enforce_pools Q pods a fs = Some (a', fs') \<Longrightarrow>
     ag_advisor a' = ag_advisor a \<and> ag_evictor a' = ag_evictor a \<and> ag_opts a' = ag_opts a \<and>
     ag_publisher a' = ag_publisher a \<and> ag_disabled a' = ag_disabled a \<and> (\<not> op_enforce (ag_opts a) \<longrightarrow> a' = a \<and> fs' = fs)"
  by (auto simp: enforce_pools_def split: if_splits option.splits prod.splits)

lemma publish_usage_keeps:
  "publish_usage L env sample pods a = (a', sent, err) \<Longrightarrow>
     ag_advisor a' = ag_advisor a \<and> ag_evictor a' = ag_evictor a \<and> ag_opts a' = ag_opts a \<and>
     ag_pools a' = ag_pools a \<and> ag_collector a' = ag_collector a"
  by (auto simp: publish_usage_def split: if_splits prod.splits)

lemma applyPolicy_fields [simp]:
  "ag_opts (applyPolicy L p a) = ag_opts a" "ag_collector (applyPolicy L p a) = ag_collector a"
  "ag_publisher (applyPolicy L p a) = ag_publisher a"
  "ag_advisor (applyPolicy L p a) = advisor_SetConfig (policy_config L p (a_cfg (ag_advisor a))) (ag_advisor a)"
  by (simp_all add: applyPolicy_def Let_def)

lemma agent_report_status:
  "agent_report Q now opts pools node sample rec rr = (created, Some st, err) \<Longrightarrow>
     \<exists>existing. st = buildStatus Q now pools node sample rec existing"
  by (auto simp: agent_report_def Let_def split: sum.splits api_error.splits option.splits)

text \<open>A tick that took a sample, taken apart.\<close>

lemma tick_sampled_fields:
  assumes "tick_sampled L env policy node pods sample a = Some (a', out)"
    and "advisor_Recommend (al_quantity L) (nd_allocatable node) (ns_time sample) (advisor_Observe sample (ag_advisor a)) = (rec, adv)"
  shows "to_error out = None" and "to_rec out = Some rec" and "ag_advisor a' = adv" and "ag_opts a' = ag_opts a"
    and "to_status out = Some st \<Longrightarrow>
      \<exists>pools existing. st = buildStatus (al_quantity L) (te_now env) pools node sample rec existing"
    and "manager_Run (te_evict env) (al_quantity L) (tick_signal (al_quantity L) policy node pods sample rec) (te_now env)
      (ag_evictor a) = (ag_evictor a', to_run out)"
proof -
  let ?Q = "al_quantity L"
  obtain a2 fs where e: "enforce_pools ?Q pods (a\<lparr>ag_advisor := adv\<rparr>) (te_fs env) = Some (a2, fs)"
    using assms by (auto simp: tick_sampled_def Let_def split: option.splits)
  obtain created status rerr where r: "agent_report ?Q (te_now env) (ag_opts a2) (ag_pools a2) node sample rec (te_report env)
      = (created, status, rerr)" by (metis prod_cases3)
  obtain a3 sent perr where p: "publish_usage L env sample pods a2 = (a3, sent, perr)" by (metis prod_cases3)
  obtain ev run where m: "manager_Run (te_evict env) ?Q (tick_signal ?Q policy node pods sample rec) (te_now env) (ag_evictor a3)
      = (ev, run)" by (metis prod.exhaust)
  have res: "a' = a3\<lparr>ag_evictor := ev\<rparr>" "to_error out = None" "to_rec out = Some rec" "to_status out = status" "to_run out = run"
    using assms e r p m by (auto simp: tick_sampled_def Let_def)
  note k = enforce_pools_keeps [OF e] publish_usage_keeps [OF p]
  show "to_error out = None" "to_rec out = Some rec" using res by simp_all
  show "ag_advisor a' = adv" "ag_opts a' = ag_opts a" using res k by simp_all
  show "\<exists>pools existing. st = buildStatus ?Q (te_now env) pools node sample rec existing" if "to_status out = Some st"
    using agent_report_status [of ?Q "te_now env" "ag_opts a2" "ag_pools a2" node sample rec "te_report env" created st rerr] r that res
    by auto
  show "manager_Run (te_evict env) ?Q (tick_signal ?Q policy node pods sample rec) (te_now env) (ag_evictor a) = (ag_evictor a', to_run out)"
    using m res k by simp
qed

lemma agent_tick_cases:
  assumes "agent_tick L env a = Some (a', out)"
  obtains (failed) e where "out = tick_failed e (te_fs env)"
      "ag_advisor a' = ag_advisor (applyPolicy L (fst (loadPolicy (te_policy env))) a)"
      "ag_evictor a' = ag_evictor (applyPolicy L (fst (loadPolicy (te_policy env))) a)" "ag_opts a' = ag_opts a"
    | (sampled) node listed sample c where "te_node env = Inr node" "te_pods env = Some listed"
      "Collect (al_quantity L) (te_fs env) (te_now env) (filter (\<lambda>pod. \<not> IsTerminal pod) listed)
         (TotalCPUs (pm_topology (ag_pools a))) (ag_collector a) = (Some sample, c)"
      "tick_sampled L env (fst (loadPolicy (te_policy env))) node (filter (\<lambda>pod. \<not> IsTerminal pod) listed) sample
         ((applyPolicy L (fst (loadPolicy (te_policy env))) a)\<lparr>ag_collector := c\<rparr>) = Some (a', out)"
proof -
  let ?a1 = "applyPolicy L (fst (loadPolicy (te_policy env))) a"
  have topo: "pm_topology (ag_pools ?a1) = pm_topology (ag_pools a)"
    by (simp add: applyPolicy_def pool_SetConfig_def Let_def)
  show thesis
  proof (cases "te_node env")
    case (Inl err)
    then show ?thesis using assms failed [of NodeGet] by (auto simp: agent_tick_def Let_def)
  next
    case node: (Inr node)
    show ?thesis
    proof (cases "te_pods env")
      case None
      then show ?thesis using assms node failed [of PodList] by (auto simp: agent_tick_def livePods_def Let_def)
    next
      case pods: (Some listed)
      obtain s c where c: "Collect (al_quantity L) (te_fs env) (te_now env) (filter (\<lambda>pod. \<not> IsTerminal pod) listed)
         (TotalCPUs (pm_topology (ag_pools a))) (ag_collector a) = (s, c)" by (metis prod.exhaust)
      show ?thesis
      proof (cases s)
        case None
        then show ?thesis using assms node pods c topo failed [of CollectFailed]
          by (auto simp: agent_tick_def livePods_def Let_def)
      next
        case (Some sample)
        then show ?thesis using assms node pods c topo sampled [of node listed sample c]
          by (simp add: agent_tick_def livePods_def Let_def)
      qed
    qed
  qed
qed

section \<open>Agents that ran\<close>

text \<open>
  Physical inputs, per tick: the policy's percentages are percentages, the node is not larger than
  \<open>max_alloc\<close> and the sample, if any, is within the bounds of the advisor's contract.
\<close>

definition env_ok :: "'q agent_libs \<Rightarrow> 'q tick_env \<Rightarrow> 'q agent \<Rightarrow> bool" where
  "env_ok L env a \<longleftrightarrow>
     config_ok (policy_config L (fst (loadPolicy (te_policy env))) (a_cfg (ag_advisor a))) \<and>
     (\<forall>node. te_node env = Inr node \<longrightarrow> adv_event_ok (al_quantity L) (EvRecommend (nd_allocatable node) (te_now env))) \<and>
     (\<forall>listed sample c. te_pods env = Some listed \<and>
        Collect (al_quantity L) (te_fs env) (te_now env) (filter (\<lambda>pod. \<not> IsTerminal pod) listed)
          (TotalCPUs (pm_topology (ag_pools a))) (ag_collector a) = (Some sample, c) \<longrightarrow>
        adv_event_ok (al_quantity L) (EvObserve sample))"

inductive agent_reached :: "'q agent_libs \<Rightarrow> 'q agent \<Rightarrow> bool" for L where
  started: "agent_New L fs numCPU recorder opts = Some a \<Longrightarrow> agent_reached L a"
| announced: "agent_reached L a \<Longrightarrow> agent_reached L (agent_announce L lookup now a)"
| ticked: "agent_reached L a \<Longrightarrow> env_ok L env a \<Longrightarrow> agent_tick L env a = Some (a', out) \<Longrightarrow> agent_reached L a'"

definition agent_inv :: "'q agent_libs \<Rightarrow> 'q agent \<Rightarrow> bool" where
  "agent_inv L a \<longleftrightarrow> advisor_inv (ag_advisor a) \<and>
     (\<exists>disabled. em_plugins (ag_evictor a) = BuildPlugins (kqos_registry (al_sort L) (al_quantity L)) disabled)"

lemma agent_New_inv:
  assumes "agent_New L fs numCPU recorder opts = Some a"
  shows "agent_inv L a"
proof -
  have "config_ok (DefaultConfig\<lparr>av_interval_seconds := n\<rparr>)" for n
    by (simp add: config_ok_def DefaultConfig_def percent_def)
  then show ?thesis using assms advisor_inv_new
    by (auto simp: agent_New_def agent_inv_def eviction_NewManager_def Let_def split: option.splits)
qed

lemma applyPolicy_inv:
  assumes "agent_inv L a" and "config_ok (policy_config L p (a_cfg (ag_advisor a)))"
  shows "agent_inv L (applyPolicy L p a)"
proof -
  have "advisor_inv (ag_advisor (applyPolicy L p a))"
    using adv.step_inv [of "ag_advisor a" "al_quantity L" "EvConfig (policy_config L p (a_cfg (ag_advisor a)))"] assms
    by (simp add: agent_inv_def)
  moreover have "\<exists>d. em_plugins (ag_evictor (applyPolicy L p a)) = BuildPlugins (kqos_registry (al_sort L) (al_quantity L)) d"
    using assms(1) by (auto simp: agent_inv_def applyPolicy_def SetPlugins_def Let_def)
  ultimately show ?thesis by (simp add: agent_inv_def)
qed

lemma manager_Run_plugins: "manager_Run api Q sig now m = (m', res) \<Longrightarrow> em_plugins m' = em_plugins m"
  using manager_Run_adds [of api Q sig now m m' res] by (auto simp: run_adds_def)

text \<open>The advisor of a tick that sampled: configured, fed, and asked in a state of its invariant.\<close>

lemma tick_advisor:
  assumes "agent_inv L a" "env_ok L env a" "te_node env = Inr node" "te_pods env = Some listed"
    and "Collect (al_quantity L) (te_fs env) (te_now env) (filter (\<lambda>pod. \<not> IsTerminal pod) listed)
         (TotalCPUs (pm_topology (ag_pools a))) (ag_collector a) = (Some sample, c)"
  defines "a1 \<equiv> applyPolicy L (fst (loadPolicy (te_policy env))) a"
  shows "advisor_inv (advisor_Observe sample (ag_advisor a1))" and "agent_inv L a1"
    and "adv_event_ok (al_quantity L) (EvRecommend (nd_allocatable node) t)"
proof -
  have ok: "config_ok (policy_config L (fst (loadPolicy (te_policy env))) (a_cfg (ag_advisor a)))"
    "adv_event_ok (al_quantity L) (EvObserve sample)" "adv_event_ok (al_quantity L) (EvRecommend (nd_allocatable node) (te_now env))"
    using assms(2-5) unfolding env_ok_def by blast+
  show inv: "agent_inv L a1" unfolding a1_def by (rule applyPolicy_inv [OF assms(1) ok(1)])
  show "advisor_inv (advisor_Observe sample (ag_advisor a1))"
    using adv.step_inv [of "ag_advisor a1" "al_quantity L" "EvObserve sample"] inv ok(2) by (simp add: agent_inv_def)
  show "adv_event_ok (al_quantity L) (EvRecommend (nd_allocatable node) t)" using ok(3) by simp
qed

lemma tick_inv:
  assumes "agent_inv L a" "env_ok L env a" "agent_tick L env a = Some (a', out)"
  shows "agent_inv L a'"
  using assms(3)
proof (cases rule: agent_tick_cases)
  case (failed e)
  have "config_ok (policy_config L (fst (loadPolicy (te_policy env))) (a_cfg (ag_advisor a)))"
    using assms(2) by (simp add: env_ok_def)
  from applyPolicy_inv [OF assms(1) this] failed show ?thesis by (simp add: agent_inv_def)
next
  case (sampled node listed sample c)
  let ?a1 = "applyPolicy L (fst (loadPolicy (te_policy env))) a"
  note t = tick_advisor [OF assms(1,2) sampled(1-3)]
  obtain rec adv where r: "advisor_Recommend (al_quantity L) (nd_allocatable node) (ns_time sample)
      (advisor_Observe sample (ag_advisor (?a1\<lparr>ag_collector := c\<rparr>))) = (rec, adv)" by (metis prod.exhaust)
  note f = tick_sampled_fields [OF sampled(4) r]
  have "advisor_inv adv"
    using adv.step_inv [OF t(1) t(3) [of "ns_time sample"]] r by simp
  moreover have "em_plugins (ag_evictor a') = em_plugins (ag_evictor ?a1)" using manager_Run_plugins [OF f(6)] by simp
  ultimately show ?thesis using t(2) f(3) by (simp add: agent_inv_def)
qed

lemma announce_inv: "agent_inv L a \<Longrightarrow> agent_inv L (agent_announce L lookup now a)"
  by (simp add: agent_inv_def agent_announce_def)

lemma agent_reached_inv: "agent_reached L a \<Longrightarrow> agent_inv L a"
  by (induction rule: agent_reached.induct) (auto intro: agent_New_inv announce_inv tick_inv)

section \<open>Correctness of a tick\<close>

lemma advisor_cfg [simp]:
  "a_cfg (advisor_SetConfig cfg a) = cfg" "a_cfg (advisor_Observe s a) = a_cfg a"
  by (auto simp: advisor_SetConfig_def advisor_resize_def advisor_Observe_def Let_def split: prod.splits)

lemma tick_offer:
  assumes "agent_reached L a" and "env_ok L env a" and "agent_tick L env a = Some (a', out)" and "to_status out = Some st"
  shows "\<exists>rec cfg. to_rec out = Some rec \<and> cfg = a_cfg (ag_advisor a') \<and>
     cfg = policy_config L (fst (loadPolicy (te_policy env))) (a_cfg (ag_advisor a)) \<and>
     nr_reclaimable st = ReclaimableResourceList (al_quantity L) rec \<and> nr_pressure st = rc_pressure rec \<and>
     offer_safe cfg (milliOf (al_quantity L) (nr_allocatable st) ResourceCPU) (av_cpu_target cfg) (rc_prot_cpu rec) (rc_cpu rec) \<and>
     offer_safe cfg (bytesOf (al_quantity L) (nr_allocatable st) ResourceMemory) (av_mem_target cfg) (rc_prot_mem rec) (rc_mem rec) \<and>
     (np_level (nr_pressure st) = PressureCritical \<longrightarrow> rc_cpu rec = 0 \<and> rc_mem rec = 0)"
  using assms(3)
proof (cases rule: agent_tick_cases)
  case (failed e)
  then show ?thesis using assms(4) by (simp add: tick_failed_def)
next
  case (sampled node listed sample c)
  let ?Q = "al_quantity L" let ?a1 = "applyPolicy L (fst (loadPolicy (te_policy env))) a"
  note t = tick_advisor [OF agent_reached_inv [OF assms(1)] assms(2) sampled(1-3)]
  obtain rec adv where r: "advisor_Recommend ?Q (nd_allocatable node) (ns_time sample) (advisor_Observe sample (ag_advisor ?a1)) = (rec, adv)"
    by (metis prod.exhaust)
  have r': "advisor_Recommend ?Q (nd_allocatable node) (ns_time sample)
      (advisor_Observe sample (ag_advisor (?a1\<lparr>ag_collector := c\<rparr>))) = (rec, adv)" using r by simp
  note f = tick_sampled_fields [OF sampled(4) r']
  obtain pools existing where st: "st = buildStatus ?Q (te_now env) pools node sample rec existing" using f(5) [OF assms(4)] by blast
  note q = Recommend_fields [OF r]
  have cfg: "a_cfg (ag_advisor a') = policy_config L (fst (loadPolicy (te_policy env))) (a_cfg (ag_advisor a))"
    using f(3) q(6) by simp
  have eq: "a_cfg (advisor_Observe sample (ag_advisor ?a1)) = a_cfg (ag_advisor a')" by (simp add: cfg)
  show ?thesis
    using f(2) cfg st Recommend_safe [OF t(1) t(3) [of "ns_time sample"] r] q(1,2)
    by (intro exI [of _ rec] exI [of _ "a_cfg (ag_advisor a')"]) (simp add: eq buildStatus_def)
qed

text \<open>
  C2. The node never advertises more than is safe. Whatever an agent went through since it was started,
  a status it writes offers an amount that is non-negative, within the policy's reclaim cap, and that
  fits beside the protected consumption and the headroom inside the utilisation target of the policy
  in force at this very tick; under critical pressure it offers nothing.
\<close>

theorem agent_offers_safe:
  assumes "agent_reached L a" and "env_ok L env a" and "agent_tick L env a = Some (a', out)" and "to_status out = Some st"
  shows "\<exists>rec cfg. to_rec out = Some rec \<and> cfg = a_cfg (ag_advisor a') \<and>
     cfg = policy_config L (fst (loadPolicy (te_policy env))) (a_cfg (ag_advisor a)) \<and>
     nr_reclaimable st = ReclaimableResourceList (al_quantity L) rec \<and> nr_pressure st = rc_pressure rec \<and>
     offer_safe cfg (milliOf (al_quantity L) (nr_allocatable st) ResourceCPU) (av_cpu_target cfg) (rc_prot_cpu rec) (rc_cpu rec) \<and>
     offer_safe cfg (bytesOf (al_quantity L) (nr_allocatable st) ResourceMemory) (av_mem_target cfg) (rc_prot_mem rec) (rc_mem rec) \<and>
     (np_level (nr_pressure st) = PressureCritical \<longrightarrow> rc_cpu rec = 0 \<and> rc_mem rec = 0)"
  by (rule tick_offer [OF assms])

lemma estimate_degraded: "ns_degraded (collector_estimate Q pods now)"
proof -
  have "ns_degraded (fold (\<lambda>pod sample.
         let ps = estimate_pod Q pod
         in sample\<lparr>ns_cpu := f_add (ns_cpu sample) (sm_cpu ps), ns_mem := u64 (ns_mem sample + sm_mem ps),
                   ns_pods := ns_pods sample @ [ps]\<rparr>) pods s) = ns_degraded s" for s :: "'a node_sample"
    by (induction pods arbitrary: s) (simp_all add: Let_def)
  then show ?thesis by (simp add: collector_estimate_def)
qed

lemma Collect_measured:
  "Collect Q fs now pods n c = (Some sample, c') \<Longrightarrow> \<not> ns_degraded sample \<Longrightarrow> cg_Available fs (cl_base c)"
  using estimate_degraded [of Q pods now] by (auto simp: Collect_def split: if_splits)

text \<open>
  C1. The agent evicts nobody it must not. In every tick of an agent that ran, an eviction call is made
  only for a pod the API server listed for the node in this tick that is not terminal, not of the
  system tier, not a mirror pod, not terminating and below the system-critical priorities; only while
  the cgroup hierarchy is readable, and only if the policy of this tick enables eviction without a dry
  run, with that policy's grace period.
\<close>

theorem agent_evicts_only:
  assumes "slice_sort_law (al_sort L)" and "agent_reached L a" and "agent_tick L env a = Some (a', out)"
    and "(pod, g) \<in> set (calls (rs_effects (to_run out)))"
  shows "(\<exists>listed. te_pods env = Some listed \<and> pod \<in> set listed) \<and> \<not> IsTerminal pod \<and>
     level_of (al_quantity L) pod \<noteq> QoSSystemCores \<and> \<not> IsMirrorPod pod \<and> p_deletion pod = None \<and>
     (\<forall>p. p_priority pod = Some p \<longrightarrow> p < 2000000000) \<and>
     cg_Available (te_fs env) (cl_base (ag_collector a)) \<and>
     ec_enabled (ps_eviction (fst (loadPolicy (te_policy env)))) \<and>
     \<not> ec_dry_run (ps_eviction (fst (loadPolicy (te_policy env)))) \<and>
     g = ec_grace_seconds (ps_eviction (fst (loadPolicy (te_policy env))))"
  using assms(3)
proof (cases rule: agent_tick_cases)
  case (failed e)
  then show ?thesis using assms(4) by (simp add: tick_failed_def empty_result_def)
next
  case (sampled node listed sample c)
  let ?Q = "al_quantity L" let ?p = "fst (loadPolicy (te_policy env))" let ?a1 = "applyPolicy L ?p a"
  let ?live = "filter (\<lambda>pod. \<not> IsTerminal pod) listed"
  obtain rec adv where r: "advisor_Recommend ?Q (nd_allocatable node) (ns_time sample)
      (advisor_Observe sample (ag_advisor (?a1\<lparr>ag_collector := c\<rparr>))) = (rec, adv)" by (metis prod.exhaust)
  let ?sig = "tick_signal ?Q ?p node ?live sample rec"
  from tick_sampled_fields(6) [OF sampled(4) r]
  obtain tried where t: "run_adds (te_evict env) ?Q ?sig (te_now env) (ag_evictor ?a1) (ag_evictor a') (to_run out) tried"
    using manager_Run_adds by force
  have plugins: "\<exists>d. em_plugins (ag_evictor ?a1) = BuildPlugins (kqos_registry (al_sort L) ?Q) d"
    using agent_reached_inv [OF assms(2)] by (auto simp: agent_inv_def applyPolicy_def SetPlugins_def Let_def)
  obtain v where v: "v \<in> set tried" "pod = vd_pod v" "g = ec_grace_seconds (ps_eviction ?p)"
    using assms(4) t by (auto simp: run_adds_def tick_signal_def)
  have "v \<in> set (proposals ?sig (em_plugins (ag_evictor ?a1)))" using v(1) t by (auto simp: run_adds_def)
  moreover have "\<forall>p \<in> set (em_plugins (ag_evictor ?a1)). eviction_plugin p"
    using plugins registry_plugins [OF assms(1)] by metis
  ultimately have "vd_pod v \<in> set (sg_pods ?sig)" by (intro proposals_from_signal)
  then have "pod \<in> set (sg_pods ?sig)" by (simp only: v(2))
  then have "pod \<in> set listed" by (simp add: tick_signal_def evictionCandidates_def)
  moreover have "may_evict ?Q (em_recent (ag_evictor ?a1)) (te_now env) pod" using t v(1,2) by (auto simp: run_adds_def)
  moreover have gates: "ec_enabled (ps_eviction ?p)" "\<not> ns_degraded sample" "\<not> ec_dry_run (ps_eviction ?p)"
    using t v(1) by (auto simp: run_adds_def tick_signal_def)
  ultimately show ?thesis using sampled(2) v(3) Collect_measured [OF sampled(3) gates(2)] by (auto simp: may_evict_def)
qed

text \<open>A status written under critical pressure offers nothing.\<close>

lemma critical_offers_nothing:
  assumes "quantity_laws (al_quantity L) amount" "agent_tick L env a = Some (a', out)" "to_status out = Some st"
    and "np_level (nr_pressure st) = PressureCritical"
  shows "desiredFrom (al_quantity L) st = (0, 0)" and "entitled (al_quantity L) now st = (0, 0)"
proof -
  let ?Q = "al_quantity L"
  have "milliOf ?Q (nr_reclaimable st) ResourceCPU = 0 \<and> bytesOf ?Q (nr_reclaimable st) ResourceMemory = 0"
    using assms(2)
  proof (cases rule: agent_tick_cases)
    case (failed e)
    then show ?thesis using assms(3) by (simp add: tick_failed_def)
  next
    case (sampled nd listed sample c)
    let ?a1 = "applyPolicy L (fst (loadPolicy (te_policy env))) a"
    obtain rec adv where r: "advisor_Recommend ?Q (nd_allocatable nd) (ns_time sample)
        (advisor_Observe sample (ag_advisor (?a1\<lparr>ag_collector := c\<rparr>))) = (rec, adv)" by (metis prod.exhaust)
    obtain pools existing where st: "st = buildStatus ?Q (te_now env) pools nd sample rec existing"
      using tick_sampled_fields(5) [OF sampled(4) r assms(3)] by blast
    have "rc_cpu rec = 0" "rc_mem rec = 0"
      using Recommend_fields(1,2) [OF r] assms(4) st by (simp_all add: buildStatus_def)
    then show ?thesis
      using q_milli_new_milli [OF assms(1), of 0] q_value_new [OF assms(1), of 0]
      by (simp add: st buildStatus_def ReclaimableResourceList_def milliOf_def bytesOf_def in_i64_def min_i64_def max_i64_def)
  qed
  then show "desiredFrom ?Q st = (0, 0)" "entitled ?Q now st = (0, 0)"
    by (simp_all add: desiredFrom_def entitled_def)
qed

text \<open>What a profile holds before a tick: the status it was created with, or one that a tick wrote.\<close>

definition status_written :: "'q agent_libs \<Rightarrow> 'q profile_status \<Rightarrow> bool" where
  "status_written L st \<longleftrightarrow>
     st = empty_status \<or> (\<exists>env a a' out. agent_tick L env a = Some (a', out) \<and> to_status out = Some st)"

text \<open>
  C5. From pressure on a node to the scheduler's view of it. A tick that finds critical pressure writes a
  status that offers nothing, and the node that the overcommit controller then patches advertises no
  reclaimed capacity at all, however small the previous amount was. The write wakes the controller at
  once, unless the status it replaces, which the profile was created with or an earlier tick wrote,
  offered nothing either.
\<close>

theorem critical_withdraws:
  assumes "quantity_laws (al_quantity L) amount" and "agent_tick L env a = Some (a', out)" and "to_status out = Some st"
    and "np_level (nr_pressure st) = PressureCritical" and "pf_status profile = st"
    and "extended_sane (extendedValue (al_quantity L) node ResourceReclaimedCPU) (extendedValue (al_quantity L) node ResourceReclaimedMemory)"
    and "status_written L old"
  shows "desiredFrom (al_quantity L) st = (0, 0) \<and>
     (reclaimableChanged (Some old) (Some st) \<or> desiredFrom (al_quantity L) old = (0, 0)) \<and>
     extendedValue (al_quantity L) (reconciled (al_quantity L) r now profile node) ResourceReclaimedCPU = 0 \<and>
     extendedValue (al_quantity L) (reconciled (al_quantity L) r now profile node) ResourceReclaimedMemory = 0"
proof -
  let ?Q = "al_quantity L"
  have e: "entitled ?Q now (pf_status profile) = (0, 0)"
    unfolding assms(5) by (rule critical_offers_nothing(2) [OF assms(1-4)])
  have s0: "extended_sane 0 0" by (simp add: extended_sane_def)
  have "reclaimableChanged (Some old) (Some st) \<or> desiredFrom ?Q old = (0, 0)"
  proof (cases "np_level (nr_pressure old) = PressureCritical")
    case True
    with assms(7) obtain env0 a0 a0' out0 where "agent_tick L env0 a0 = Some (a0', out0)" "to_status out0 = Some old"
      by (auto simp: status_written_def empty_status_def no_pressure_def)
    from critical_offers_nothing(1) [OF assms(1) this True] show ?thesis ..
  next
    case False
    then show ?thesis using assms(4) by (simp add: reclaimableChanged_def)
  qed
  then show ?thesis
    using critical_offers_nothing(1) [OF assms(1-4)] significant_sane [OF s0 assms(6), of r] extended_after_patch [OF assms(1) s0, of node]
    by (auto simp: reconciled_eq e)
qed

text \<open>
  A tick that cannot read its node, its pods or its cgroups is silent: nothing is written, posted,
  enforced or evicted, so the last report grows stale.
\<close>

theorem failed_tick_silent:
  assumes "agent_tick L env a = Some (a', out)" and "to_error out = Some e"
  shows "to_status out = None \<and> to_created out = None \<and> to_posts out = [] \<and> calls (rs_effects (to_run out)) = [] \<and>
     to_fs out = te_fs env \<and> a_prot_cpu (ag_advisor a') = a_prot_cpu (ag_advisor (applyPolicy L (fst (loadPolicy (te_policy env))) a)) \<and>
     a_last (ag_advisor a') = a_last (ag_advisor a)"
  using assms(1)
proof (cases rule: agent_tick_cases)
  case (failed e')
  have "a_last (advisor_SetConfig cfg b) = a_last b" for cfg b
    by (auto simp: advisor_SetConfig_def advisor_resize_def Let_def split: prod.splits)
  then show ?thesis using failed by (simp add: tick_failed_def empty_result_def)
next
  case (sampled node listed sample c)
  let ?a1 = "applyPolicy L (fst (loadPolicy (te_policy env))) a"
  obtain rec adv where r: "advisor_Recommend (al_quantity L) (nd_allocatable node) (ns_time sample)
      (advisor_Observe sample (ag_advisor (?a1\<lparr>ag_collector := c\<rparr>))) = (rec, adv)" by (metis prod.exhaust)
  from tick_sampled_fields(1) [OF sampled(4) r] assms(2) show ?thesis by simp
qed

text \<open>
  The health condition follows the sample. A measured sample keeps the time since when the agent has
  been healthy; an estimated one is reported unhealthy, but each such report claims that this has just
  happened, because the condition passes through healthy on the way.
\<close>

theorem health_condition:
  "\<exists>c. find_condition ''AgentHealthy'' (nr_conditions (buildStatus Q now pools node sample rec existing)) = Some c \<and>
     cn_status c = boolCondition (\<not> ns_degraded sample) \<and>
     cn_transition c = (if ns_degraded sample then now
        else case find_condition ''AgentHealthy'' existing of
          Some h \<Rightarrow> if cn_status h = ConditionTrue then cn_transition h else now
        | None \<Rightarrow> now)"
  by (auto simp: buildStatus_def status_conditions_def find_setCondition ready_condition_def healthy_condition_def
      degraded_condition_def boolCondition_def Let_def split: option.splits)

text \<open>Without enforcement every tick returns, and one that sampled writes a status if the API server lets it.\<close>

lemma unenforced_tick:
  assumes "\<not> op_enforce (ag_opts a)" and "te_node env = Inr node" "te_pods env = Some listed"
    and "Collect (al_quantity L) (te_fs env) (te_now env) (filter (\<lambda>pod. \<not> IsTerminal pod) listed)
         (TotalCPUs (pm_topology (ag_pools a))) (ag_collector a) = (Some sample, c)"
    and "\<exists>st. rr_get (te_report env) = Inr st"
  shows "\<exists>a' out st. agent_tick L env a = Some (a', out) \<and> to_status out = Some st \<and>
    nr_pressure st = rc_pressure (fst (advisor_Recommend (al_quantity L) (nd_allocatable node) (ns_time sample)
      (advisor_Observe sample (ag_advisor (applyPolicy L (fst (loadPolicy (te_policy env))) a)))))"
proof -
  have topo: "pm_topology (ag_pools (applyPolicy L p a)) = pm_topology (ag_pools a)" for p
    by (simp add: applyPolicy_def pool_SetConfig_def Let_def)
  show ?thesis
    using assms by (auto simp: agent_tick_def livePods_def topo tick_sampled_def enforce_pools_def agent_report_def
        buildStatus_def Let_def split: prod.splits)
qed

section \<open>At a concrete input\<close>

text \<open>
  An agent off-cluster: no cgroup hierarchy, estimates allowed, and a policy whose memory threshold of
  zero puts the node under critical pressure whatever it uses.
\<close>

definition bare_fs :: os_fs where
  "bare_fs = \<lparr>fs_files = Map.empty, fs_dirs = Map.empty, fs_accepts = (\<lambda>p s. False), fs_writes = []\<rparr>"

definition example_libs :: "rat agent_libs" where
  "example_libs = \<lparr>al_quantity = rat_quantity, al_sort = insertion_slice, al_scan = (\<lambda>s. Some (fl (3 / 10))),
     al_net = example_net, al_encode = (\<lambda>r. Some ''{}'')\<rparr>"

definition example_options :: options where
  "example_options = \<lparr>op_node = ''n1'', op_cgroup_root = [], op_sysnode = [], op_interval = 0, op_endpoint = [],
     op_estimate = True, op_fanout = False, op_enforce = False\<rparr>"

definition example_policy :: "rat qos_policy_spec" where
  "example_policy = DefaultPolicy\<lparr>ps_eviction := (ps_eviction (DefaultPolicy :: rat qos_policy_spec))\<lparr>ec_mem_threshold := 0\<rparr>\<rparr>"

definition example_env :: "api_error + rat node \<Rightarrow> rat tick_env" where
  "example_env node = \<lparr>te_now = 1000, te_fs = bare_fs, te_policy = Inr example_policy, te_node = node,
     te_pods = Some [example_pod],
     te_report = \<lparr>rr_get = Inr empty_status, rr_create = None, rr_reget = Inl NotFound, rr_patch = None\<rparr>,
     te_lookup = (\<lambda>h. None), te_peer = (\<lambda>u b. TransportError), te_evict = (\<lambda>p g. EvictOK)\<rparr>"

lemma example_started: "\<exists>a. agent_New example_libs bare_fs 4 False example_options = Some a"
proof -
  have "DetectTopology bare_fs [] 4 \<noteq> None" by code_simp
  then show ?thesis by (auto simp: agent_New_def example_options_def Let_def)
qed

definition example_agent :: "rat agent" where
  "example_agent = the (agent_New example_libs bare_fs 4 False example_options)"

lemma example_agent_new: "agent_New example_libs bare_fs 4 False example_options = Some example_agent"
  using example_started by (auto simp: example_agent_def)

lemma agent_New_fields:
  assumes "agent_New L fs numCPU recorder opts = Some a"
  shows "ag_opts a = (if op_interval opts \<le> 0 then opts\<lparr>op_interval := 10 * second\<rparr> else opts)"
    and "ag_collector a = collector_New (cgroup_New (op_cgroup_root opts)) (op_estimate opts)"
    and "a_cfg (ag_advisor a) = DefaultConfig\<lparr>av_interval_seconds :=
      i32 (go_div (if op_interval opts \<le> 0 then 10 * second else op_interval opts) second)\<rparr>"
    and "ag_disabled a = []" "ag_evictor a = eviction_NewManager recorder (BuildPlugins (kqos_registry (al_sort L) (al_quantity L)) [])"
  using assms by (auto simp: agent_New_def advisor_New_def Let_def split: option.splits prod.splits)

lemma example_agent_fields:
  "\<not> op_enforce (ag_opts example_agent)" "cl_estimate (ag_collector example_agent)" "cl_base (ag_collector example_agent) = DefaultRoot"
  "a_cfg (ag_advisor example_agent) = DefaultConfig\<lparr>av_interval_seconds := 10\<rparr>"
  using agent_New_fields [OF example_agent_new]
  by (simp_all add: example_options_def collector_New_def cgroup_New_def go_div_def second_def i32_def)

lemma bare_unavailable: "\<not> cg_Available bare_fs base"
  by (simp add: cg_Available_def bare_fs_def Let_def)

lemma example_libs_sel [simp]:
  "al_quantity example_libs = rat_quantity" "al_sort example_libs = insertion_slice" "al_scan example_libs s = Some (fl (3 / 10))"
  by (simp_all add: example_libs_def)

lemma example_env_sel [simp]:
  "te_now (example_env n) = 1000" "te_fs (example_env n) = bare_fs" "te_policy (example_env n) = Inr example_policy"
  "te_node (example_env n) = n" "te_pods (example_env n) = Some [example_pod]"
  "rr_get (te_report (example_env n)) = Inr empty_status"
  by (simp_all add: example_env_def)

lemma example_alpha: "0 < fl (3 / 10)" "fl (3 / 10) \<le> 1"
  using fl_ge_f64 [of "1 / 4" "3 / 10"] fl_le_int [of "3 / 10" 1] by (auto simp: is_f64_def)

lemma example_collect:
  "Collect rat_quantity bare_fs 1000 pods n (ag_collector example_agent)
     = (Some (collector_estimate rat_quantity pods 1000), ag_collector example_agent)"
  by (simp add: Collect_def bare_unavailable example_agent_fields)

lemma example_live_pod: "\<not> IsTerminal example_pod"
  by (simp add: IsTerminal_def example_pod_def)

lemma example_protected: "protected_usage (ns_pods (collector_estimate rat_quantity [example_pod] 1000)) = (0, 0)"
proof -
  have "level_of rat_quantity example_pod = QoSReclaimedCores"
    by (rule LevelOf_annotated) (simp_all add: example_pod_def)
  then show ?thesis
    by (simp add: collector_estimate_def protected_usage_def estimate_pod_def fresh_pod_sample_def empty_sample_def Let_def
        del: LevelOf.simps)
qed

lemma example_config:
  "config_ok (policy_config example_libs example_policy (a_cfg (ag_advisor example_agent)))"
  using example_alpha by (simp add: config_ok_def policy_config_def example_policy_def DefaultPolicy_def parseAlpha_def
      DefaultConfig_def percent_def Let_def)

lemma example_env_ok: "env_ok example_libs (example_env (Inr example_node)) example_agent"
proof -
  have "adv_event_ok rat_quantity (EvRecommend (nd_allocatable example_node) 1000)"
    by (simp add: example_node_def milliOf_def bytesOf_def rat_quantity_def max_alloc_def)
  moreover have "adv_event_ok rat_quantity (EvObserve (collector_estimate rat_quantity [example_pod] 1000))"
    by (simp add: example_protected in_range_def)
  ultimately show ?thesis unfolding env_ok_def using example_config example_live_pod
    by (simp add: example_collect loadPolicy_def del: adv_event_ok.simps)
qed

lemma pct_nonneg: "0 \<le> pct part whole"
  by (simp add: pct_def Let_def)

lemma example_critical:
  "np_level (rc_pressure (fst (advisor_Recommend Q alloc now
      (advisor_Observe s (ag_advisor (applyPolicy example_libs example_policy a)))))) = PressureCritical"
proof -
  let ?b = "advisor_Observe s (ag_advisor (applyPolicy example_libs example_policy a))"
  obtain rec b' where r: "advisor_Recommend Q alloc now ?b = (rec, b')" by (metis prod.exhaust)
  have "av_mem_threshold (a_cfg ?b) = 0" by (simp add: policy_config_def example_policy_def)
  then have "is_critical (a_cfg ?b) x (pct y z) u v" for x y z u v using pct_nonneg by (simp add: is_critical_def)
  then show ?thesis using Recommend_fields(5) [OF r] r by (simp add: advisor_pressure_def Let_def)
qed

lemma example_first_tick:
  "\<exists>a' out st. agent_tick example_libs (example_env (Inr example_node)) example_agent = Some (a', out) \<and>
     to_status out = Some st \<and> np_level (nr_pressure st) = PressureCritical"
proof -
  let ?env = "example_env (Inr example_node)"
  have live: "filter (\<lambda>pod. \<not> IsTerminal pod) [example_pod] = [example_pod]" by (simp add: example_live_pod)
  obtain a' out st where "agent_tick example_libs ?env example_agent = Some (a', out)" "to_status out = Some st"
    and p: "nr_pressure st = rc_pressure (fst (advisor_Recommend (al_quantity example_libs) (nd_allocatable example_node)
        (ns_time (collector_estimate rat_quantity [example_pod] 1000))
        (advisor_Observe (collector_estimate rat_quantity [example_pod] 1000)
          (ag_advisor (applyPolicy example_libs (fst (loadPolicy (te_policy ?env))) example_agent)))))"
    using unenforced_tick [of example_agent ?env example_node "[example_pod]" example_libs
        "collector_estimate rat_quantity [example_pod] 1000" "ag_collector example_agent"] example_agent_fields(1)
    by (auto simp only: live example_collect example_libs_sel example_env_sel)
  moreover have "fst (loadPolicy (te_policy ?env)) = example_policy" by (simp add: loadPolicy_def)
  ultimately have "np_level (nr_pressure st) = PressureCritical" using example_critical by (simp only: p)
  then show ?thesis using \<open>agent_tick example_libs ?env example_agent = Some (a', out)\<close> \<open>to_status out = Some st\<close> by blast
qed

theorem agent_offers_safe_witness:
  "\<exists>a' out st rec. agent_tick example_libs (example_env (Inr example_node)) example_agent = Some (a', out) \<and>
     to_status out = Some st \<and> to_rec out = Some rec \<and> rc_cpu rec = 0 \<and> rc_mem rec = 0"
proof -
  obtain a' out st where t: "agent_tick example_libs (example_env (Inr example_node)) example_agent = Some (a', out)"
    "to_status out = Some st" "np_level (nr_pressure st) = PressureCritical" using example_first_tick by blast
  have "agent_reached example_libs example_agent" using example_agent_new by (rule agent_reached.started)
  from agent_offers_safe [OF this example_env_ok t(1,2)] t show ?thesis by auto
qed

text \<open>
  A node that measures: its pods use nine hundred of its thousand bytes, the memory threshold is 85
  percent, no stabilisation is asked for, and only the memory plugin is enabled. The first tick of its
  agent evicts the reclaimed pod.
\<close>

definition evict_fs :: os_fs where
  "evict_fs = \<lparr>fs_files = [''/cg/cgroup.controllers'' \<mapsto> ''cpu memory'', ''/cg/kubepods/memory.current'' \<mapsto> ''900''],
     fs_dirs = [''/cg'' \<mapsto> [(''kubepods'', True)], ''/cg/kubepods'' \<mapsto> []], fs_accepts = (\<lambda>p s. False), fs_writes = []\<rparr>"

definition evict_agent :: "rat agent" where
  "evict_agent = the (agent_New example_libs evict_fs 4 True (example_options\<lparr>op_cgroup_root := ''/cg''\<rparr>))"

definition evict_policy :: "rat qos_policy_spec" where
  "evict_policy = DefaultPolicy\<lparr>ps_eviction := (ps_eviction (DefaultPolicy :: rat qos_policy_spec))
     \<lparr>ec_stabilisation := 0, ec_disabled := example_disabled\<rparr>\<rparr>"

definition evict_env :: "rat tick_env" where
  "evict_env = (example_env (Inr (example_node\<lparr>nd_allocatable := [ResourceCPU \<mapsto> 8, ResourceMemory \<mapsto> 1000]\<rparr>)))
     \<lparr>te_fs := evict_fs, te_policy := Inr evict_policy\<rparr>"

lemma evict_agent_new:
  "agent_New example_libs evict_fs 4 True (example_options\<lparr>op_cgroup_root := ''/cg''\<rparr>) = Some evict_agent"
proof -
  have "DetectTopology evict_fs [] 4 \<noteq> None" by code_simp
  then show ?thesis by (auto simp: evict_agent_def agent_New_def example_options_def Let_def)
qed

lemma evict_agent_fields:
  "\<not> op_enforce (ag_opts evict_agent)" "ag_collector evict_agent = collector_New ''/cg'' True" "ag_disabled evict_agent = []"
  "em_recent (ag_evictor evict_agent) = Map.empty" "em_budget (ag_evictor evict_agent) = newTokenBucket 3 minute"
  using agent_New_fields [OF evict_agent_new] by (simp_all add: example_options_def cgroup_New_def eviction_NewManager_def)

lemma evict_collect:
  "\<exists>s c. Collect rat_quantity evict_fs 1000 [example_pod] n (collector_New ''/cg'' True) = (Some s, c) \<and>
     ns_mem s = 900 \<and> \<not> ns_degraded s"
proof -
  have av: "cg_Available evict_fs (cl_base (collector_New ''/cg'' True))" by code_simp
  obtain s c where c: "Collect rat_quantity evict_fs 1000 [example_pod] n (collector_New ''/cg'' True) = (Some s, c)"
    using Collect_available [OF av] by blast
  have "map_option (\<lambda>s. (ns_mem s, ns_degraded s)) (fst (Collect rat_quantity evict_fs 1000 [example_pod] n (collector_New ''/cg'' True)))
      = Some (900, False)" by code_simp
  then show ?thesis using c by simp
qed

text \<open>The signal of that tick: the reclaimed pod is the only candidate, and it is proposed.\<close>

lemma evict_proposals:
  assumes "ns_mem s = 900" "sig = tick_signal rat_quantity evict_policy
      (example_node\<lparr>nd_allocatable := [ResourceCPU \<mapsto> 8, ResourceMemory \<mapsto> 1000]\<rparr>) [example_pod] s rec"
  shows "\<exists>v vs. proposals sig [memory_plugin rat_quantity] = v # vs \<and> vd_pod v = example_pod"
proof -
  have "level_of rat_quantity example_pod = QoSReclaimedCores" by (rule LevelOf_annotated) (simp_all add: example_pod_def)
  then have "evictionCandidates rat_quantity [example_pod] = [example_pod]"
    by (simp add: evictionCandidates_def Evictable_def level_defs del: LevelOf.simps)
      (simp add: example_pod_def IsMirrorPod_def MirrorPodAnnotationKey_def AnnotationQoSLevel_def)
  then have "rankByTierThenUsage rat_quantity sig (\<lambda>s. f_of_int (pu_mem s)) = [usage_of rat_quantity sig example_pod]"
    by (simp add: rankByTierThenUsage_def usagesFor_def assms(2) tick_signal_def)
  moreover have "bytesOf rat_quantity (sg_alloc sig) ResourceMemory = 1000" "ns_mem (sg_sample sig) = 900"
    "ec_mem_threshold (sg_config sig) = 85"
    by (simp_all add: assms tick_signal_def evict_policy_def DefaultPolicy_def DefaultConfig_def Let_def bytesOf_def rat_quantity_def)
  ultimately have "memoryPressure_Evaluate rat_quantity sig = Inr [memory_verdict 90 1000 85 (usage_of rat_quantity sig example_pod)]"
    by (simp add: memoryPressure_Evaluate_def Let_def i64_def go_div_def)
  moreover have "pu_pod (usage_of rat_quantity sig example_pod) = example_pod"
    by (simp add: usage_of_def Let_def split: option.splits)
  ultimately show ?thesis by (simp add: proposals_def memory_plugin_def memory_verdict_def)
qed

lemma evict_tick:
  "\<exists>a' out. agent_tick example_libs evict_env evict_agent = Some (a', out) \<and>
     (example_pod, 30) \<in> set (calls (rs_effects (to_run out)))"
proof -
  let ?a1 = "applyPolicy example_libs evict_policy evict_agent"
  have env: "te_node evict_env = Inr (example_node\<lparr>nd_allocatable := [ResourceCPU \<mapsto> 8, ResourceMemory \<mapsto> 1000]\<rparr>)"
    "te_pods evict_env = Some [example_pod]" "te_fs evict_env = evict_fs" "te_now evict_env = 1000"
    "fst (loadPolicy (te_policy evict_env)) = evict_policy" "rr_get (te_report evict_env) = Inr empty_status"
    by (simp_all add: evict_env_def loadPolicy_def)
  obtain s c where s: "Collect rat_quantity evict_fs 1000 [example_pod] (TotalCPUs (pm_topology (ag_pools evict_agent)))
      (ag_collector evict_agent) = (Some s, c)" "ns_mem s = 900" "\<not> ns_degraded s"
    using evict_collect unfolding evict_agent_fields(2) by blast
  obtain a' out st where t: "agent_tick example_libs evict_env evict_agent = Some (a', out)" "to_status out = Some st"
    using unenforced_tick [OF evict_agent_fields(1) env(1,2), of example_libs s c] s(1) by (auto simp: example_live_pod env)
  from t(1) show ?thesis
  proof (cases rule: agent_tick_cases)
    case (failed e)
    then show ?thesis using t(2) by (simp add: tick_failed_def)
  next
    case (sampled node listed sample c')
    then have nl: "node = example_node\<lparr>nd_allocatable := [ResourceCPU \<mapsto> 8, ResourceMemory \<mapsto> 1000]\<rparr>" "listed = [example_pod]"
      by (simp_all add: env)
    have "sample = s" using sampled(3) s(1) by (simp add: env nl(2) example_live_pod)
    note eq = nl this
    obtain rec adv where r: "advisor_Recommend (al_quantity example_libs) (nd_allocatable node) (ns_time sample)
        (advisor_Observe sample (ag_advisor (?a1\<lparr>ag_collector := c'\<rparr>))) = (rec, adv)" by (metis prod.exhaust)
    let ?sig = "tick_signal rat_quantity evict_policy node [example_pod] s rec"
    have run: "manager_Run (te_evict evict_env) rat_quantity ?sig 1000 (ag_evictor ?a1) = (ag_evictor a', to_run out)"
      using tick_sampled_fields(6) [OF sampled(4) [unfolded env], of rec adv] r by (simp add: env eq example_live_pod)
    have ev: "em_plugins (ag_evictor ?a1) = [memory_plugin rat_quantity]" "em_recent (ag_evictor ?a1) = Map.empty"
      "em_budget (ag_evictor ?a1) = newTokenBucket 3 minute"
      using example_plugins evict_agent_fields(3-5)
      by (simp_all add: applyPolicy_def SetPlugins_def Let_def evict_policy_def sprint_strings_def)
    have cfg: "ec_enabled (sg_config ?sig)" "ec_stabilisation (sg_config ?sig) = 0" "\<not> ec_dry_run (sg_config ?sig)"
      "ec_max_per_minute (sg_config ?sig) = 3" "ec_grace_seconds (sg_config ?sig) = 30" "sg_sample ?sig = s"
      by (simp_all add: tick_signal_def evict_policy_def DefaultPolicy_def Let_def)
    obtain v vs where v: "proposals ?sig [memory_plugin rat_quantity] = v # vs" "vd_pod v = example_pod"
      using evict_proposals [OF s(2), of ?sig rec] eq(1) by auto
    have pass: "run_passes ?sig 1000 (ag_evictor ?a1)" using cfg s(3) v(1) by (simp add: run_passes_def ev waited_def i64_def)
    have "\<exists>b. bucket_take 1000 (bucket_configure 3 minute (newTokenBucket 3 minute)) = (True, b)"
      by (simp add: bucket_take_def bucket_configure_def newTokenBucket_def bucket_refill_def time_is_zero_def Let_def
          time_sub_def min_i64_def max_i64_def)
    then obtain b where b: "bucket_take 1000 (bucket_configure 3 minute (newTokenBucket 3 minute)) = (True, b)" by blast
    have "(vd_pod v, ec_grace_seconds (sg_config ?sig)) \<in> set (calls (rs_effects (snd (manager_Run (te_evict evict_env) rat_quantity
        ?sig 1000 (ag_evictor ?a1)))))"
      by (rule Run_calls_first [OF pass, unfolded ev, OF v(1)]) (simp_all add: v(2) example_may_evict cfg b)
    then show ?thesis using t(1) run v(2) cfg(5) by auto
  qed
qed

theorem agent_evicts_only_witness:
  "\<exists>a' out. agent_tick example_libs evict_env evict_agent = Some (a', out) \<and>
     (example_pod, 30) \<in> set (calls (rs_effects (to_run out))) \<and>
     level_of rat_quantity example_pod \<noteq> QoSSystemCores \<and> cg_Available (te_fs evict_env) (cl_base (ag_collector evict_agent))"
proof -
  obtain a' out where t: "agent_tick example_libs evict_env evict_agent = Some (a', out)"
    "(example_pod, 30) \<in> set (calls (rs_effects (to_run out)))" using evict_tick by blast
  have S: "slice_sort_law (al_sort example_libs)" by (simp add: insertion_slice_law)
  have R: "agent_reached example_libs evict_agent" using evict_agent_new by (rule agent_reached.started)
  from agent_evicts_only [OF S R t] t show ?thesis by auto
qed

theorem critical_withdraws_witness:
  "\<exists>a' out st. agent_tick example_libs (example_env (Inr example_node)) example_agent = Some (a', out) \<and>
     to_status out = Some st \<and>
     extendedValue rat_quantity (reconciled rat_quantity (SetupDefaults \<lparr>oc_min_milli = 0, oc_min_bytes = 0\<rparr>) 2000
       \<lparr>pf_node_name = ''n1'', pf_status = st\<rparr> example_node) ResourceReclaimedCPU = 0 \<and>
     desiredFrom rat_quantity st = (0, 0)"
proof -
  obtain a' out st where t: "agent_tick example_libs (example_env (Inr example_node)) example_agent = Some (a', out)"
    "to_status out = Some st" "np_level (nr_pressure st) = PressureCritical" using example_first_tick by blast
  have Q: "quantity_laws (al_quantity example_libs) (\<lambda>q. q)" by (simp add: quantity_laws_rat)
  have "extended_sane (extendedValue rat_quantity example_node ResourceReclaimedCPU) (extendedValue rat_quantity example_node ResourceReclaimedMemory)"
    by (simp add: extendedValue_def example_node_def rat_quantity_def extended_sane_def)
  moreover have "status_written example_libs empty_status" by (simp add: status_written_def)
  ultimately show ?thesis
    using critical_withdraws [OF Q t, of "\<lparr>pf_node_name = ''n1'', pf_status = st\<rparr>" example_node empty_status] t
    by (intro exI [of _ a'] exI [of _ out] exI [of _ st]) auto
qed

theorem failed_tick_silent_witness:
  "\<exists>a' out. agent_tick example_libs (example_env (Inl OtherError)) example_agent = Some (a', out) \<and> to_status out = None"
proof -
  obtain a' out where t: "agent_tick example_libs (example_env (Inl OtherError)) example_agent = Some (a', out)"
    "to_error out = Some NodeGet" by (auto simp: agent_tick_def tick_failed_def Let_def)
  from failed_tick_silent [OF t] t(1) show ?thesis by blast
qed

section \<open>From admission to the report\<close>

lemma protected_skips:
  "sm_level ps = QoSReclaimedCores \<Longrightarrow> protected_usage (before @ ps # after) = protected_usage (before @ after)"
  by (simp add: protected_usage_def split: prod.splits)

text \<open>
  A pod whose cpu requests the rewriting moves as a whole: no init containers, no reclaimed cpu requested
  by its owner, and no cpu requested explicitly as zero.
\<close>

definition plain_cpu :: "'q quantity_ops \<Rightarrow> ('q \<Rightarrow> rat) \<Rightarrow> 'q pod \<Rightarrow> bool" where
  "plain_cpu Q amount pod \<longleftrightarrow> p_init_containers pod = [] \<and>
     (\<forall>c \<in> set (p_containers pod). c_requests c ResourceReclaimedCPU = None \<and>
       (\<forall>q. c_requests c ResourceCPU = Some q \<longrightarrow> 0 < amount q \<and> 1000 * amount q \<le> of_int max_i64)) \<and>
     (\<Sum>c\<leftarrow>p_containers pod. milliOf Q (c_requests c) ResourceCPU) \<le> max_i64"

text \<open>
  C10. One pod through every component. A pod the webhook admitted as reclaimed and rewrote is, wherever
  it is sampled, a reclaimed pod whose consumption the advisor does not count as protected and whose
  consumption is reported to the usage store as measured. Where the pod has no init containers, requests
  no reclaimed cpu of its own and requests no cpu explicitly as zero, it is reported against the cpu its
  owner asked for before the rewriting, although its native request is gone.
\<close>

theorem admitted_reclaimed:
  assumes "quantity_laws Q amount"
    and "webhook_Handle Q snap enc policy req = (PatchedTo pod', QoSReclaimedCores, action)"
    and "wc_rewrite (webhook_config_of policy)" and "rq_pod req = Some pod"
    and "ps = (fresh_pod_sample Q pod')\<lparr>sm_cpu := used, sm_mem := mem, sm_valid := True\<rparr>"
    and "byUID (p_uid pod') = Some pod'"
  shows "sm_level ps = QoSReclaimedCores \<and>
     protected_usage (before @ ps # after) = protected_usage (before @ after) \<and>
     ur_cpu (pod_report_of Q byUID ps) = used \<and>
     (plain_cpu Q amount pod \<longrightarrow> PodRequests Q pod' ResourceCPU = None \<and>
        ur_req_cpu (pod_report_of Q byUID ps) = (\<Sum>c\<leftarrow>p_containers pod. milliOf Q (c_requests c) ResourceCPU))"
proof -
  define pod1 where "pod1 = pod\<lparr>p_annotations := (p_annotations pod)(AnnotationQoSLevel \<mapsto> QoSReclaimedCores)\<rparr>"
  have pod': "pod' = fst (rewriteReclaimed Q snap pod1)"
    using Handle_patched [OF assms(2)] assms(3,4) unfolding pod1_def by (metis option.inject)
  have same: "p_init_containers pod1 = p_init_containers pod" "p_containers pod1 = p_containers pod" by (simp_all add: pod1_def)
  have "p_annotations pod' AnnotationQoSLevel = Some QoSReclaimedCores"
    by (simp add: pod' rewriteReclaimed_fields pod1_def)
  then have "level_of Q pod' = QoSReclaimedCores" by (rule LevelOf_annotated) simp
  then have level: "sm_level ps = QoSReclaimedCores" by (simp add: assms(5) fresh_pod_sample_def del: LevelOf.simps)
  have fields: "sm_uid ps = p_uid pod'" "sm_requests ps = PodRequests Q pod'" "sm_cpu ps = used"
    by (simp_all add: assms(5) fresh_pod_sample_def)
  have cpu: "ur_cpu (pod_report_of Q byUID ps) = used"
    using assms(6) fields by (auto simp: pod_report_of_def Let_def split: option.splits)
  have "PodRequests Q pod' ResourceCPU = None \<and>
      ur_req_cpu (pod_report_of Q byUID ps) = (\<Sum>c\<leftarrow>p_containers pod. milliOf Q (c_requests c) ResourceCPU)"
    if "plain_cpu Q amount pod"
  proof -
    have eff: "PodRequests Q pod' ResourceCPU = None"
      "milliOf Q (EffectiveRequests Q pod') ResourceCPU = (\<Sum>c\<leftarrow>p_containers pod. milliOf Q (c_requests c) ResourceCPU)"
      using rewritten_effective [OF assms(1), of pod1 snap] that unfolding pod' plain_cpu_def same by blast+
    have "RequestedCPUMilli Q ps = 0" using eff(1) fields(2) by (simp add: RequestedCPUMilli_def milliOf_def)
    then show ?thesis
      using assms(6) fields eff by (auto simp: pod_report_of_def Let_def milliOf_def split: option.splits)
  qed
  then show ?thesis using level protected_skips [OF level] cpu by simp
qed

theorem admitted_reclaimed_witness:
  "\<exists>pod' ps. webhook_Handle rat_quantity (\<lambda>s. Some ''{}'') (\<lambda>p. True) None example_request
       = (PatchedTo pod', QoSReclaimedCores, ''rewritten'') \<and>
     ps = (fresh_pod_sample rat_quantity pod')\<lparr>sm_cpu := 700, sm_mem := 0, sm_valid := True\<rparr> \<and>
     ur_req_cpu (pod_report_of rat_quantity (pods_by_uid [pod']) ps) = 1500"
proof -
  obtain pod' where h: "webhook_Handle rat_quantity (\<lambda>s. Some ''{}'') (\<lambda>p. True) None example_request
      = (PatchedTo pod', QoSReclaimedCores, ''rewritten'')" using example_handled by blast
  have r: "wc_rewrite (webhook_config_of None)" "rq_pod example_request = Some example_pod"
    by (simp_all add: example_request_def webhook_config_of_def example_pod_def)
  have m: "milliOf rat_quantity (c_requests example_container) ResourceCPU = 1500"
    by (simp add: example_container_def milliOf_def rat_quantity_def)
  have p: "p_containers example_pod = [example_container]" by (simp add: example_pod_def)
  have u: "pods_by_uid [pod'] (p_uid pod') = Some pod'" by (simp add: pods_by_uid_def)
  define ps where "ps = (fresh_pod_sample rat_quantity pod')\<lparr>sm_cpu := 700, sm_mem := 0, sm_valid := True\<rparr>"
  have c: "plain_cpu rat_quantity (\<lambda>q. q) example_pod"
    unfolding plain_cpu_def p by (simp add: m max_i64_def) (simp add: example_container_def example_pod_def)
  then have "ur_req_cpu (pod_report_of rat_quantity (pods_by_uid [pod']) ps)
      = (\<Sum>c\<leftarrow>p_containers example_pod. milliOf rat_quantity (c_requests c) ResourceCPU)"
    using admitted_reclaimed [where amount = "\<lambda>q. q" and byUID = "pods_by_uid [pod']", OF quantity_laws_rat h r ps_def u]
    by blast
  then show ?thesis using h by (intro exI [of _ pod'] exI [of _ ps] conjI ps_def) (simp_all add: p m)
qed

end
