(* ===== verification/Cluster.thy ===== *)
theory Cluster
  imports Agent
begin

text \<open>
  One node of a cluster over time: its agent, its profile in the API server, the overcommit
  controller's cached view of that profile, and the Node object the scheduler looks at. The parts
  run unsynchronised, so the model is a step relation: in any order a tick of the agent happens and
  its status is written or lost, the cache catches up, the controller reconciles and its patch is
  accepted or refused, the agent restarts, time passes, or somebody else changes the node. A tick is
  \<^const>\<open>agent_tick\<close> and a reconciliation is \<^const>\<open>overcommit_Reconcile\<close>, with the
  clock of the state and with everything else they read from outside arbitrary: the policy, the
  pods, the files, every reply. The controller reads both objects from its cache, where either may be
  arbitrarily old, and patches the Node itself.

  The invariant says that what the node advertises is bounded at all times by the reclaim cap of the
  policies in force, and the second result says that the advertisement does not outlive the agent.
\<close>

section \<open>States and steps\<close>

record 'q cluster =
  ks_now :: gtime
  ks_agent :: "'q agent"
  ks_status :: "'q profile_status"
  ks_seen :: "'q profile_status"
  ks_node :: "'q node"
  ks_view :: "'q node"

datatype event = RestartEvent | TickEvent | SyncEvent | ViewEvent | ReconcileEvent bool | ElapseEvent duration | NodeEvent

text \<open>What the node advertises, in millicores and mebibytes.\<close>

definition advertised_cpu :: "'q agent_libs \<Rightarrow> 'q cluster \<Rightarrow> int" where
  "advertised_cpu L s = extendedValue (al_quantity L) (ks_node s) ResourceReclaimedCPU"

definition advertised_mem :: "'q agent_libs \<Rightarrow> 'q cluster \<Rightarrow> int" where
  "advertised_mem L s = extendedValue (al_quantity L) (ks_node s) ResourceReclaimedMemory"

text \<open>
  The reclaim cap of a tick: the share of the node's allocatable amounts that the policy in force
  lets the advisor offer, which is at most \<^term>\<open>C\<close> millicores and \<^term>\<open>M\<close> bytes.
\<close>

definition tick_capped :: "int \<Rightarrow> int \<Rightarrow> 'q agent_libs \<Rightarrow> 'q tick_env \<Rightarrow> 'q agent \<Rightarrow> bool" where
  "tick_capped C M L env a \<longleftrightarrow>
     (let cfg = policy_config L (fst (loadPolicy (te_policy env))) (a_cfg (ag_advisor a))
      in \<forall>node. te_node env = Inr node \<longrightarrow>
           milliOf (al_quantity L) (nd_allocatable node) ResourceCPU * av_max_reclaim cfg div 100 \<le> C \<and>
           bytesOf (al_quantity L) (nd_allocatable node) ResourceMemory * av_max_reclaim cfg div 100 \<le> M)"

inductive cluster_step :: "'q agent_libs \<Rightarrow> reconciler \<Rightarrow> int \<Rightarrow> int \<Rightarrow> 'q cluster \<Rightarrow> event \<Rightarrow> 'q cluster \<Rightarrow> bool"
  for L r C M
where
  written: "te_now env = ks_now s \<Longrightarrow> env_ok L env (ks_agent s) \<Longrightarrow> tick_capped C M L env (ks_agent s) \<Longrightarrow>
    agent_tick L env (ks_agent s) = Some (a', out) \<Longrightarrow> to_status out = Some st \<Longrightarrow>
    cluster_step L r C M s TickEvent (s\<lparr>ks_agent := a', ks_status := st\<rparr>)"
| not_written: "te_now env = ks_now s \<Longrightarrow> env_ok L env (ks_agent s) \<Longrightarrow> tick_capped C M L env (ks_agent s) \<Longrightarrow>
    agent_tick L env (ks_agent s) = Some (a', out) \<Longrightarrow> to_status out = None \<or> to_report_error out \<noteq> None \<Longrightarrow>
    cluster_step L r C M s TickEvent (s\<lparr>ks_agent := a'\<rparr>)"
| restarted: "agent_New L fs numCPU recorder opts = Some a' \<Longrightarrow> cluster_step L r C M s RestartEvent (s\<lparr>ks_agent := a'\<rparr>)"
| synced: "cluster_step L r C M s SyncEvent (s\<lparr>ks_seen := ks_status s\<rparr>)"
| viewed: "cluster_step L r C M s ViewEvent (s\<lparr>ks_view := ks_node s\<rparr>)"
| patched: "overcommit_Reconcile (al_quantity L) r (ks_now s) (Inr \<lparr>pf_node_name = nd_name (ks_node s), pf_status = ks_seen s\<rparr>)
      (\<lambda>name. Inr (ks_view s)) True = (q, patch, counted) \<Longrightarrow>
    cluster_step L r C M s (ReconcileEvent True)
      (s\<lparr>ks_node := (case patch of None \<Rightarrow> ks_node s | Some p \<Rightarrow> apply_patch (al_quantity L) p (ks_node s))\<rparr>)"
| refused: "cluster_step L r C M s (ReconcileEvent False) s"
| elapsed: "0 \<le> d \<Longrightarrow> cluster_step L r C M s (ElapseEvent d) (s\<lparr>ks_now := ks_now s + d\<rparr>)"
| changed: "extendedValue (al_quantity L) n ResourceReclaimedCPU = advertised_cpu L s \<Longrightarrow>
    extendedValue (al_quantity L) n ResourceReclaimedMemory = advertised_mem L s \<Longrightarrow>
    cluster_step L r C M s NodeEvent (s\<lparr>ks_node := n\<rparr>)"

inductive_cases cluster_stepE: "cluster_step L r C M s e s'"

text \<open>A cluster starts with an agent that was just built, no profile, and a node that advertises nothing.\<close>

definition cluster_start :: "'q agent_libs \<Rightarrow> 'q cluster \<Rightarrow> bool" where
  "cluster_start L s \<longleftrightarrow>
     (\<exists>fs numCPU recorder opts. agent_New L fs numCPU recorder opts = Some (ks_agent s)) \<and>
     ks_status s = empty_status \<and> ks_seen s = empty_status \<and> ks_view s = ks_node s \<and> 0 \<le> ks_now s \<and>
     advertised_cpu L s = 0 \<and> advertised_mem L s = 0"

inductive cluster_run :: "'q agent_libs \<Rightarrow> reconciler \<Rightarrow> int \<Rightarrow> int \<Rightarrow> 'q cluster \<Rightarrow> event list \<Rightarrow> 'q cluster \<Rightarrow> bool"
  for L r C M
where
  empty: "cluster_run L r C M s [] s"
| more: "cluster_run L r C M s es s' \<Longrightarrow> cluster_step L r C M s' e s'' \<Longrightarrow> cluster_run L r C M s (es @ [e]) s''"

section \<open>What a tick writes\<close>

lemma collector_estimate_time: "ns_time (collector_estimate Q pods now) = now"
proof -
  have "ns_time (fold (\<lambda>pod sample.
         let ps = estimate_pod Q pod
         in sample\<lparr>ns_cpu := f_add (ns_cpu sample) (sm_cpu ps), ns_mem := u64 (ns_mem sample + sm_mem ps),
                   ns_pods := ns_pods sample @ [ps]\<rparr>) pods s) = ns_time s" for s :: "'a node_sample"
    by (induction pods arbitrary: s) (simp_all add: Let_def)
  then show ?thesis by (simp add: collector_estimate_def empty_sample_def)
qed

lemma Collect_time:
  assumes "Collect Q fs now pods online c = (Some s, c')"
  shows "ns_time s = now"
proof (cases "cg_Available fs (cl_base c)")
  case False
  then show ?thesis using assms by (auto simp: Collect_def collector_estimate_time split: if_splits)
next
  case True
  obtain kp r' where kp: "KubepodsPath fs (cl_resolver c) = (kp, r')" by fastforce
  obtain c1 s1 where n: "collect_node fs now kp (c\<lparr>cl_resolver := r'\<rparr>, empty_sample now online) = (c1, s1 :: 'a node_sample)"
    by fastforce
  from collect_node_keeps [OF n] have "ns_time s1 = now" by (simp add: empty_sample_def)
  then show ?thesis using assms True
    by (auto simp: Collect_def kp n Let_def collect_psi_keeps split: prod.splits if_splits)
qed

lemma tick_status:
  assumes "agent_tick L env a = Some (a', out)" "to_status out = Some st"
  obtains node where "te_node env = Inr node" "nr_allocatable st = nd_allocatable node" "nr_last_report st = te_now env"
  using assms(1)
proof (cases rule: agent_tick_cases)
  case (failed e)
  then show ?thesis using assms(2) by (simp add: tick_failed_def)
next
  case (sampled node listed sample c)
  obtain rec adv where r: "advisor_Recommend (al_quantity L) (nd_allocatable node) (ns_time sample)
      (advisor_Observe sample (ag_advisor ((applyPolicy L (fst (loadPolicy (te_policy env))) a)\<lparr>ag_collector := c\<rparr>))) = (rec, adv)"
    by (metis prod.exhaust)
  obtain pools existing where "st = buildStatus (al_quantity L) (te_now env) pools node sample rec existing"
    using tick_sampled_fields(5) [OF sampled(4) r assms(2)] by blast
  then show ?thesis using that [OF sampled(1)] Collect_time [OF sampled(3)] by (simp add: buildStatus_def)
qed

text \<open>The amounts of a status are within the caps, and its report is not from the future.\<close>

definition status_capped :: "int \<Rightarrow> int \<Rightarrow> 'q agent_libs \<Rightarrow> gtime \<Rightarrow> 'q profile_status \<Rightarrow> bool" where
  "status_capped C M L now st \<longleftrightarrow>
     milliOf (al_quantity L) (nr_reclaimable st) ResourceCPU \<le> C \<and>
     bytesOf (al_quantity L) (nr_reclaimable st) ResourceMemory \<le> M \<and> nr_last_report st \<le> now"

lemma offer_readback:
  assumes "quantity_laws Q amount" "0 \<le> rc_cpu rec" "rc_cpu rec \<le> max_alloc" "0 \<le> rc_mem rec" "rc_mem rec \<le> max_alloc"
  shows "milliOf Q (ReclaimableResourceList Q rec) ResourceCPU = rc_cpu rec"
    and "bytesOf Q (ReclaimableResourceList Q rec) ResourceMemory = rc_mem rec"
proof -
  have "in_i64 (rc_cpu rec)" "in_i64 (rc_mem rec)" using assms(2-5) by (simp_all add: in_i64_def min_i64_def max_i64_def max_alloc_def)
  then show "milliOf Q (ReclaimableResourceList Q rec) ResourceCPU = rc_cpu rec"
    and "bytesOf Q (ReclaimableResourceList Q rec) ResourceMemory = rc_mem rec"
    using q_milli_new_milli [OF assms(1) assms(2)] q_value_new [OF assms(1) assms(4)]
    by (simp_all add: ReclaimableResourceList_def milliOf_def bytesOf_def)
qed

lemma offer_capped:
  "offer_safe cfg alloc target prot v \<Longrightarrow> alloc * av_max_reclaim cfg div 100 \<le> C \<Longrightarrow> 0 \<le> C \<Longrightarrow> 0 \<le> v \<and> v \<le> C"
  unfolding offer_safe_def by (elim conjE) (simp add: max_def split: if_splits)

lemma tick_capped_status:
  assumes "quantity_laws (al_quantity L) amount" "agent_reached L a" "env_ok L env a" "tick_capped C M L env a"
    "agent_tick L env a = Some (a', out)" "to_status out = Some st" "0 \<le> C" "0 \<le> M" "C \<le> max_alloc" "M \<le> max_alloc"
  shows "status_capped C M L (te_now env) st"
proof -
  let ?Q = "al_quantity L"
  obtain rec cfg where o: "cfg = policy_config L (fst (loadPolicy (te_policy env))) (a_cfg (ag_advisor a))"
      "nr_reclaimable st = ReclaimableResourceList ?Q rec"
      "offer_safe cfg (milliOf ?Q (nr_allocatable st) ResourceCPU) (av_cpu_target cfg) (rc_prot_cpu rec) (rc_cpu rec)"
      "offer_safe cfg (bytesOf ?Q (nr_allocatable st) ResourceMemory) (av_mem_target cfg) (rc_prot_mem rec) (rc_mem rec)"
    using tick_offer [OF assms(2,3,5,6)] by blast
  obtain node where n: "te_node env = Inr node" "nr_allocatable st = nd_allocatable node" "nr_last_report st = te_now env"
    using tick_status [OF assms(5,6)] .
  have caps: "milliOf ?Q (nr_allocatable st) ResourceCPU * av_max_reclaim cfg div 100 \<le> C"
      "bytesOf ?Q (nr_allocatable st) ResourceMemory * av_max_reclaim cfg div 100 \<le> M"
    using assms(4) n(1,2) by (simp_all add: tick_capped_def Let_def o(1))
  have "0 \<le> rc_cpu rec" "rc_cpu rec \<le> C" "0 \<le> rc_mem rec" "rc_mem rec \<le> M"
    using offer_capped [OF o(3) caps(1) assms(7)] offer_capped [OF o(4) caps(2) assms(8)] by simp_all
  then show ?thesis
    using offer_readback [OF assms(1)] assms(9,10) n(3) by (simp add: status_capped_def o(2))
qed

section \<open>The invariant\<close>

definition node_capped :: "int \<Rightarrow> int \<Rightarrow> 'q agent_libs \<Rightarrow> 'q node \<Rightarrow> bool" where
  "node_capped C M L n \<longleftrightarrow>
     (let cpu = extendedValue (al_quantity L) n ResourceReclaimedCPU; mem = extendedValue (al_quantity L) n ResourceReclaimedMemory
      in 0 \<le> cpu \<and> cpu \<le> C \<and> 0 \<le> mem \<and> mem * 1048576 \<le> M)"

definition cluster_inv :: "'q agent_libs \<Rightarrow> int \<Rightarrow> int \<Rightarrow> 'q cluster \<Rightarrow> bool" where
  "cluster_inv L C M s \<longleftrightarrow>
     agent_reached L (ks_agent s) \<and>
     status_capped C M L (ks_now s) (ks_status s) \<and> status_capped C M L (ks_now s) (ks_seen s) \<and>
     node_capped C M L (ks_node s) \<and> node_capped C M L (ks_view s)"

definition cap_ok :: "int \<Rightarrow> bool" where
  "cap_ok C \<longleftrightarrow> 0 \<le> C \<and> C \<le> max_alloc"

lemma status_capped_later: "status_capped C M L now st \<Longrightarrow> 0 \<le> d \<Longrightarrow> status_capped C M L (now + d) st"
  by (simp add: status_capped_def)

lemma entitled_capped:
  assumes "status_capped C M L now st" "cap_ok C" "cap_ok M" "entitled (al_quantity L) now st = (c, m)"
  shows "0 \<le> c" "c \<le> C" "0 \<le> m" "m * 1048576 \<le> M" "extended_sane c m"
proof -
  let ?b = "max 0 (bytesOf (al_quantity L) (nr_reclaimable st) ResourceMemory)"
  have "x div 1048576 * 1048576 \<le> x" for x :: int by presburger
  then have b: "?b div 1048576 * 1048576 \<le> ?b" .
  have cm: "(c = 0 \<and> m = 0) \<or> (c = max 0 (milliOf (al_quantity L) (nr_reclaimable st) ResourceCPU) \<and> m = ?b div 1048576)"
    using assms(4) by (auto simp: entitled_def split: if_splits)
  show c: "0 \<le> c" "c \<le> C" using cm assms(1,2) by (auto simp: status_capped_def cap_ok_def)
  show m: "0 \<le> m" "m * 1048576 \<le> M"
    using cm b assms(1,3) by (auto simp: status_capped_def cap_ok_def pos_imp_zdiv_nonneg_iff)
  show "extended_sane c m" using c m assms(2,3) by (simp add: extended_sane_def cap_ok_def max_alloc_def)
qed

lemma patched_node:
  assumes "overcommit_Reconcile Q r now (Inr \<lparr>pf_node_name = nm, pf_status = st\<rparr>) (\<lambda>name. Inr view) True = (q, patch, counted)"
  shows "(case patch of None \<Rightarrow> node | Some p \<Rightarrow> apply_patch Q p node)
    = (if significant r (fst (entitled Q now st)) (snd (entitled Q now st))
         (extendedValue Q view ResourceReclaimedCPU) (extendedValue Q view ResourceReclaimedMemory)
       then apply_patch Q (entitled Q now st) node else node)"
  using Reconcile_eq [of "\<lambda>name. Inr view" "\<lparr>pf_node_name = nm, pf_status = st\<rparr>" view Q r now] assms
  by (simp split: if_splits)

lemma patched_capped:
  assumes "quantity_laws (al_quantity L) amount" "status_capped C M L now st" "cap_ok C" "cap_ok M" "node_capped C M L n"
    "n' = (if b then apply_patch (al_quantity L) (entitled (al_quantity L) now st) n else n)"
  shows "node_capped C M L n'"
proof -
  obtain c m where e: "entitled (al_quantity L) now st = (c, m)" by fastforce
  note cap = entitled_capped [OF assms(2-4) e]
  show ?thesis using assms(5,6) cap extended_after_patch [OF assms(1) cap(5)] by (simp add: e node_capped_def Let_def)
qed

lemma cluster_step_inv:
  assumes "cluster_step L r C M s e s'" "quantity_laws (al_quantity L) amount" "cap_ok C" "cap_ok M" "cluster_inv L C M s"
  shows "cluster_inv L C M s'"
  using assms(1)
proof cases
  case (written env a' out st)
  have "status_capped C M L (te_now env) st"
    using tick_capped_status [OF assms(2) _ written(4-7)] assms(3-5) by (simp add: cluster_inv_def cap_ok_def)
  moreover have "agent_reached L a'" using agent_reached.ticked [OF _ written(4,6)] assms(5) by (simp add: cluster_inv_def)
  ultimately show ?thesis using assms(5) written by (simp add: cluster_inv_def)
next
  case (not_written env a' out)
  then have "agent_reached L a'" using agent_reached.ticked [OF _ not_written(4,6)] assms(5) by (simp add: cluster_inv_def)
  then show ?thesis using assms(5) not_written by (simp add: cluster_inv_def)
next
  case (restarted fs numCPU recorder opts a')
  have "agent_reached L a'" using restarted(3) by (rule agent_reached.started)
  then show ?thesis using assms(5) restarted(2) by (simp add: cluster_inv_def)
next
  case (patched q patch counted)
  have "node_capped C M L (ks_node s')"
    by (rule patched_capped [OF assms(2) _ assms(3,4)])
      (use patched_node [OF patched(3)] assms(5) in \<open>auto simp: patched(2) cluster_inv_def\<close>)
  then show ?thesis using assms(5) unfolding patched(2) by (simp add: cluster_inv_def)
next
  case (elapsed d)
  then show ?thesis using assms(5) by (auto simp: cluster_inv_def intro: status_capped_later)
next
  case (changed n)
  then have "node_capped C M L n = node_capped C M L (ks_node s)"
    by (simp add: node_capped_def advertised_cpu_def advertised_mem_def)
  then show ?thesis using assms(5) changed by (simp add: cluster_inv_def)
qed (use assms(5) in \<open>simp_all add: cluster_inv_def\<close>)

lemma cluster_inv_bounds:
  "cluster_inv L C M s \<Longrightarrow>
    0 \<le> advertised_cpu L s \<and> advertised_cpu L s \<le> C \<and> 0 \<le> advertised_mem L s \<and> advertised_mem L s * 1048576 \<le> M"
  by (simp add: cluster_inv_def node_capped_def Let_def advertised_cpu_def advertised_mem_def)

lemma cluster_start_inv: "cluster_start L s \<Longrightarrow> cap_ok C \<Longrightarrow> cap_ok M \<Longrightarrow> cluster_inv L C M s"
  by (auto simp: cluster_start_def cluster_inv_def node_capped_def advertised_cpu_def advertised_mem_def Let_def
      status_capped_def empty_status_def milliOf_def bytesOf_def cap_ok_def
      intro: agent_reached.started)

lemma cluster_run_inv:
  "cluster_run L r C M s es s' \<Longrightarrow> quantity_laws (al_quantity L) amount \<Longrightarrow> cap_ok C \<Longrightarrow> cap_ok M \<Longrightarrow> cluster_inv L C M s \<Longrightarrow>
    cluster_inv L C M s'"
  by (induction rule: cluster_run.induct) (auto intro: cluster_step_inv)

text \<open>
  C3. However the agent, the controller, the caches and the failures interleave, a node never
  advertises more than the reclaim caps of the policies that were in force, nor a negative amount.
\<close>
theorem advertised_bounded:
  assumes "quantity_laws (al_quantity L) amount" "cluster_start L s0" "cap_ok C" "cap_ok M" "cluster_run L r C M s0 es s"
  shows "0 \<le> advertised_cpu L s \<and> advertised_cpu L s \<le> C \<and> 0 \<le> advertised_mem L s \<and> advertised_mem L s * 1048576 \<le> M"
  using cluster_inv_bounds [OF cluster_run_inv [OF assms(5,1,3,4) cluster_start_inv [OF assms(2-4)]]] .

section \<open>When the agent falls silent\<close>

lemma silent_step:
  assumes "cluster_step L r C M s e s'" "e \<noteq> TickEvent"
  shows "ks_status s' = ks_status s" "ks_seen s' \<in> {ks_seen s, ks_status s}" "ks_now s \<le> ks_now s'"
  using assms by (auto elim: cluster_stepE)

lemma silent_run:
  assumes "cluster_run L r C M s es s'" "TickEvent \<notin> set es"
  shows "ks_status s' = ks_status s \<and> ks_seen s' \<in> {ks_seen s, ks_status s} \<and> ks_now s \<le> ks_now s'"
  using assms
proof (induction rule: cluster_run.induct)
  case (more s es s' e s'')
  then have "ks_status s' = ks_status s \<and> ks_seen s' \<in> {ks_seen s, ks_status s} \<and> ks_now s \<le> ks_now s'" by simp
  moreover have "e \<noteq> TickEvent" using more(4) by auto
  ultimately show ?case using silent_step [OF more(2)] by auto
qed simp

text \<open>Both copies of the profile are past the deadline of the controller.\<close>

definition expired :: "'q cluster \<Rightarrow> bool" where
  "expired s \<longleftrightarrow> 90 * second < ks_now s - nr_last_report (ks_status s) \<and> 90 * second < ks_now s - nr_last_report (ks_seen s)"

lemma expired_step: "cluster_step L r C M s e s' \<Longrightarrow> e \<noteq> TickEvent \<Longrightarrow> expired s \<Longrightarrow> expired s'"
  using silent_step [of L r C M s e s'] by (auto simp: expired_def)

lemma expired_entitled: "expired s \<Longrightarrow> entitled Q (ks_now s) (ks_seen s) = (0, 0)"
  by (simp add: expired_def entitled_def stale_iff)

text \<open>A reconciliation of an expired profile writes zero amounts or nothing.\<close>

lemma expired_reconcile:
  assumes "cluster_step L r C M s (ReconcileEvent True) s'" "expired s"
  shows "ks_node s' = (if significant r 0 0 (extendedValue (al_quantity L) (ks_view s) ResourceReclaimedCPU)
        (extendedValue (al_quantity L) (ks_view s) ResourceReclaimedMemory)
      then apply_patch (al_quantity L) (0, 0) (ks_node s) else ks_node s)"
  using assms(1)
proof cases
  case (patched q patch counted)
  then show ?thesis using patched_node [OF patched(2), of "ks_node s"] by (simp add: expired_entitled [OF assms(2)])
qed simp

lemma withdraws:
  assumes "quantity_laws (al_quantity L) amount" "ks_node s' = apply_patch (al_quantity L) (0, 0) n"
  shows "advertised_cpu L s' = 0 \<and> advertised_mem L s' = 0"
  using extended_after_patch [OF assms(1), of 0 0 n] assms(2)
  by (simp add: extended_sane_def advertised_cpu_def advertised_mem_def)

lemma expired_withdraws:
  assumes "cluster_step L r C M s (ReconcileEvent True) s'" "expired s" "cluster_inv L C M s" "cap_ok C" "cap_ok M"
    "quantity_laws (al_quantity L) amount" "ks_view s = ks_node s"
  shows "advertised_cpu L s' = 0 \<and> advertised_mem L s' = 0"
proof (cases "significant r 0 0 (advertised_cpu L s) (advertised_mem L s)")
  case True
  then show ?thesis
    using withdraws [OF assms(6)] expired_reconcile [OF assms(1,2)] assms(7) by (simp add: advertised_cpu_def advertised_mem_def)
next
  case False
  have "extended_sane 0 0" "extended_sane (advertised_cpu L s) (advertised_mem L s)"
    using cluster_inv_bounds [OF assms(3)] assms(4,5) by (auto simp: extended_sane_def cap_ok_def max_alloc_def)
  from significant_sane [OF this, of r] False show ?thesis
    using expired_reconcile [OF assms(1,2)] assms(7) by (auto simp: advertised_cpu_def advertised_mem_def split: if_splits)
qed

lemma withdrawn_step:
  assumes "cluster_step L r C M s e s'" "e \<noteq> TickEvent" "expired s"
    "quantity_laws (al_quantity L) amount" "advertised_cpu L s = 0 \<and> advertised_mem L s = 0"
  shows "advertised_cpu L s' = 0 \<and> advertised_mem L s' = 0"
proof (cases "e = ReconcileEvent True")
  case True
  then show ?thesis using withdraws [OF assms(4)] expired_reconcile [of L r C M s s'] assms(1,3,5)
    by (simp add: advertised_cpu_def advertised_mem_def split: if_splits)
next
  case False
  with assms(1,2,5) show ?thesis by (auto simp: advertised_cpu_def advertised_mem_def elim: cluster_stepE)
qed

lemma withdrawn_run:
  assumes "cluster_run L r C M s es s'" "TickEvent \<notin> set es" "expired s"
    "quantity_laws (al_quantity L) amount" "advertised_cpu L s = 0 \<and> advertised_mem L s = 0"
  shows "expired s' \<and> advertised_cpu L s' = 0 \<and> advertised_mem L s' = 0"
  using assms
proof (induction rule: cluster_run.induct)
  case (more s es s' e s'')
  have e: "e \<noteq> TickEvent" "TickEvent \<notin> set es" using more(4) by auto
  with more have i: "expired s'" "advertised_cpu L s' = 0 \<and> advertised_mem L s' = 0" by simp_all
  show ?case using withdrawn_step [OF more(2) e(1) i(1) more(6) i(2)] expired_step [OF more(2) e(1) i(1)] by blast
qed simp

text \<open>
  C6. The advertisement does not outlive the agent: once its node has gone without a tick for more
  than 90 seconds, the next reconciliation that sees the node as it is and whose patch the API server
  accepts withdraws everything the node advertised, however old the controller's view of the profile,
  and nothing brings it back until the agent ticks again, not even reconciliations of stale views.
\<close>
theorem dead_agent_withdrawn:
  assumes "quantity_laws (al_quantity L) amount" "cluster_start L s0" "cap_ok C" "cap_ok M"
    "cluster_run L r C M s0 es s" "cluster_run L r C M s silence s1" "TickEvent \<notin> set silence"
    "90 * second < ks_now s1 - ks_now s" "ks_view s1 = ks_node s1" "cluster_step L r C M s1 (ReconcileEvent True) s2"
    "cluster_run L r C M s2 rest s3" "TickEvent \<notin> set rest"
  shows "advertised_cpu L s3 = 0 \<and> advertised_mem L s3 = 0"
proof -
  have i: "cluster_inv L C M s" by (rule cluster_run_inv [OF assms(5,1,3,4) cluster_start_inv [OF assms(2-4)]])
  have i1: "cluster_inv L C M s1" by (rule cluster_run_inv [OF assms(6,1,3,4) i])
  have x: "expired s1"
    using silent_run [OF assms(6,7)] i assms(8) by (auto simp: expired_def cluster_inv_def status_capped_def)
  have "expired s2" by (rule expired_step [OF assms(10) _ x]) simp
  then show ?thesis
    using withdrawn_run [OF assms(11,12) _ assms(1) expired_withdraws [OF assms(10) x i1 assms(3,4,1,9)]] by blast
qed

section \<open>An example\<close>

definition example_cluster :: "rat cluster" where
  "example_cluster = \<lparr>ks_now = 1000, ks_agent = example_agent, ks_status = empty_status, ks_seen = empty_status,
     ks_node = example_node\<lparr>nd_allocatable := Map.empty, nd_capacity := Map.empty\<rparr>,
     ks_view = example_node\<lparr>nd_allocatable := Map.empty, nd_capacity := Map.empty\<rparr>\<rparr>"

lemma example_cluster_start: "cluster_start example_libs example_cluster"
  using example_agent_new
  by (auto simp: cluster_start_def example_cluster_def advertised_cpu_def advertised_mem_def extendedValue_def)

lemma example_tick_capped: "tick_capped 4000 max_alloc example_libs (example_env (Inr example_node)) example_agent"
proof -
  have "av_max_reclaim (policy_config example_libs (fst (loadPolicy (Inr example_policy))) (a_cfg (ag_advisor example_agent))) = 50"
    by (simp add: policy_config_def loadPolicy_def example_policy_def DefaultPolicy_def DefaultConfig_def Let_def)
  then show ?thesis
    by (simp add: tick_capped_def example_node_def milliOf_def bytesOf_def rat_quantity_def max_alloc_def)
qed

text \<open>The agent ticks, the cache catches up, and the controller reconciles.\<close>

lemma example_cluster_run:
  "\<exists>s. cluster_run example_libs r 4000 max_alloc example_cluster [TickEvent, SyncEvent, ReconcileEvent True] s"
proof -
  obtain a' out st where t: "agent_tick example_libs (example_env (Inr example_node)) example_agent = Some (a', out)"
    "to_status out = Some st" using example_first_tick by blast
  let ?s1 = "example_cluster\<lparr>ks_agent := a', ks_status := st\<rparr>"
  let ?s2 = "?s1\<lparr>ks_seen := ks_status ?s1\<rparr>"
  have "cluster_step example_libs r 4000 max_alloc example_cluster TickEvent ?s1"
    by (rule cluster_step.written [where env = "example_env (Inr example_node)"])
      (use t example_env_ok example_tick_capped in \<open>simp_all add: example_cluster_def\<close>)
  then have "cluster_run example_libs r 4000 max_alloc example_cluster ([] @ [TickEvent]) ?s1"
    by (rule cluster_run.more [OF cluster_run.empty])
  then have two: "cluster_run example_libs r 4000 max_alloc example_cluster (([] @ [TickEvent]) @ [SyncEvent]) ?s2"
    by (rule cluster_run.more) (rule cluster_step.synced)
  obtain q patch counted where "overcommit_Reconcile (al_quantity example_libs) r (ks_now ?s2)
      (Inr \<lparr>pf_node_name = nd_name (ks_node ?s2), pf_status = ks_seen ?s2\<rparr>) (\<lambda>name. Inr (ks_view ?s2)) True = (q, patch, counted)"
    by (metis prod.exhaust)
  then show ?thesis using cluster_run.more [OF two cluster_step.patched] by auto
qed

lemma silent_reconcile_run:
  "\<exists>s1 s2. cluster_run L r C M s [ElapseEvent (91 * second), ViewEvent] s1 \<and> ks_now s1 - ks_now s = 91 * second \<and>
     ks_view s1 = ks_node s1 \<and> cluster_step L r C M s1 (ReconcileEvent True) s2"
proof -
  let ?s1 = "s\<lparr>ks_now := ks_now s + 91 * second\<rparr>"
  let ?s2 = "?s1\<lparr>ks_view := ks_node ?s1\<rparr>"
  have "cluster_step L r C M s (ElapseEvent (91 * second)) ?s1" by (rule cluster_step.elapsed) (simp add: second_def)
  from cluster_run.more [OF cluster_run.more [OF cluster_run.empty this] cluster_step.viewed]
  have "cluster_run L r C M s [ElapseEvent (91 * second), ViewEvent] ?s2" by simp
  moreover obtain q patch counted where "overcommit_Reconcile (al_quantity L) r (ks_now ?s2)
      (Inr \<lparr>pf_node_name = nd_name (ks_node ?s2), pf_status = ks_seen ?s2\<rparr>) (\<lambda>name. Inr (ks_view ?s2)) True = (q, patch, counted)"
    by (metis prod.exhaust)
  ultimately show ?thesis using cluster_step.patched by (intro exI conjI) (assumption | simp)+
qed

lemma example_caps: "cap_ok 4000" "cap_ok max_alloc"
  by (simp_all add: cap_ok_def max_alloc_def)

theorem advertised_bounded_witness:
  "\<exists>s. cluster_run example_libs (SetupDefaults \<lparr>oc_min_milli = 0, oc_min_bytes = 0\<rparr>) 4000 max_alloc example_cluster
       [TickEvent, SyncEvent, ReconcileEvent True] s \<and> advertised_cpu example_libs s \<le> 4000"
proof -
  have Q: "quantity_laws (al_quantity example_libs) (\<lambda>q. q)" by (simp add: quantity_laws_rat)
  obtain s where s: "cluster_run example_libs (SetupDefaults \<lparr>oc_min_milli = 0, oc_min_bytes = 0\<rparr>) 4000 max_alloc example_cluster
       [TickEvent, SyncEvent, ReconcileEvent True] s" using example_cluster_run by blast
  with advertised_bounded [OF Q example_cluster_start example_caps s] show ?thesis by blast
qed

theorem dead_agent_withdrawn_witness:
  "\<exists>s s1 s2. cluster_run example_libs (SetupDefaults \<lparr>oc_min_milli = 0, oc_min_bytes = 0\<rparr>) 4000 max_alloc example_cluster
       [TickEvent, SyncEvent, ReconcileEvent True] s \<and>
     cluster_run example_libs (SetupDefaults \<lparr>oc_min_milli = 0, oc_min_bytes = 0\<rparr>) 4000 max_alloc s [ElapseEvent (91 * second), ViewEvent] s1 \<and>
     cluster_step example_libs (SetupDefaults \<lparr>oc_min_milli = 0, oc_min_bytes = 0\<rparr>) 4000 max_alloc s1 (ReconcileEvent True) s2 \<and>
     advertised_cpu example_libs s2 = 0 \<and> advertised_mem example_libs s2 = 0"
proof -
  let ?r = "SetupDefaults \<lparr>oc_min_milli = 0, oc_min_bytes = 0\<rparr>"
  have Q: "quantity_laws (al_quantity example_libs) (\<lambda>q. q)" by (simp add: quantity_laws_rat)
  obtain s where s: "cluster_run example_libs ?r 4000 max_alloc example_cluster
       [TickEvent, SyncEvent, ReconcileEvent True] s" using example_cluster_run by blast
  obtain s1 s2 where t: "cluster_run example_libs ?r 4000 max_alloc s [ElapseEvent (91 * second), ViewEvent] s1"
      "ks_now s1 - ks_now s = 91 * second" "ks_view s1 = ks_node s1" "cluster_step example_libs ?r 4000 max_alloc s1 (ReconcileEvent True) s2"
    using silent_reconcile_run by blast
  have "TickEvent \<notin> set [ElapseEvent (91 * second), ViewEvent]" "TickEvent \<notin> set []" "90 * second < ks_now s1 - ks_now s"
    using t(2) by (simp_all add: second_def)
  with dead_agent_withdrawn [OF Q example_cluster_start example_caps s t(1) _ _ t(3,4) cluster_run.empty] s t show ?thesis by blast
qed

end
