(* ===== verification/Go_Heap.thy ===== *)
theory Go_Heap
  imports KQ_Prelude
begin

text \<open>
  Go values with references, for code whose point is which memory two objects share. A value
  is a scalar, a struct of named fields, or a reference: a pointer to a variable, a slice of
  a backing array (address, offset, length) or a map; \<^verbatim>\<open>Null\<close> is the nil of all
  three. The heap maps addresses to cells and knows the next free one; \<^verbatim>\<open>alloc\<close> is
  what \<^verbatim>\<open>new\<close>, \<^verbatim>\<open>make\<close> and \<^verbatim>\<open>&x\<close> do.

  A type descriptor says where a type holds references, and \<^verbatim>\<open>rd\<close> reads a value at
  a type: it returns the tree of scalars the value stands for, with no addresses left in it,
  and the addresses it went through, or nothing when the value is not of the type. Two values
  are deeply equal when their trees are, and share memory exactly when the address lists meet.

  \<^verbatim>\<open>deep_copier\<close> is the contract of a \<^verbatim>\<open>DeepCopyInto\<close>: the result reads as
  the same tree through fresh addresses only, each of them once, and nothing that existed is
  written. The combinators below are the statement forms the code generator emits; each keeps
  the contract.
\<close>

section \<open>Values, types and the heap\<close>

datatype scalar = SStr string | SInt int | SBool bool

datatype gv =
    Scal scalar
  | Struct "(string \<times> gv) list"
  | Null
  | Ptr nat
  | Slice nat nat nat
  | MapRef nat

datatype cell = Var gv | Backing "gv list" | Hash "(string \<times> gv) list"

record heap =
  hp_cells :: "nat \<Rightarrow> cell option"
  hp_next :: nat

definition alloc :: "cell \<Rightarrow> heap \<Rightarrow> nat \<times> heap" where
  "alloc c h = (hp_next h, h\<lparr>hp_cells := (hp_cells h)(hp_next h \<mapsto> c), hp_next := Suc (hp_next h)\<rparr>)"

definition wf_heap :: "heap \<Rightarrow> bool" where
  "wf_heap h \<longleftrightarrow> (\<forall>a \<ge> hp_next h. hp_cells h a = None)"

text \<open>The second heap has everything of the first, unchanged, and possibly more.\<close>

definition grows :: "heap \<Rightarrow> heap \<Rightarrow> bool" where
  "grows h h' \<longleftrightarrow> hp_next h \<le> hp_next h' \<and> (\<forall>a < hp_next h. hp_cells h' a = hp_cells h a)"

datatype gty =
    TScal
  | TStruct "(string \<times> gty) list"
  | TPtr gty
  | TSlice gty
  | TMap gty

datatype tree =
    Leaf scalar
  | Fields "(string \<times> tree) list"
  | Absent
  | Pointee tree
  | Elems "tree list"
  | Entries "(string \<times> tree) list"

section \<open>Reading a value at a type\<close>

fun gather :: "(tree \<times> nat list) option list \<Rightarrow> (tree list \<times> nat list) option" where
  "gather [] = Some ([], [])"
| "gather (r # rs) =
     (case r of
        None \<Rightarrow> None
      | Some (t, A) \<Rightarrow>
          (case gather rs of None \<Rightarrow> None | Some (ts, B) \<Rightarrow> Some (t # ts, A @ B)))"

lemma size_field: "(n, t) \<in> set fs \<Longrightarrow> size t < Suc (size_list (size_prod (\<lambda>_. 0) size) fs)"
  by (induction fs) auto

lemma size_zip_field: "((n, t), y) \<in> set (zip fs vs) \<Longrightarrow> size t < Suc (size_list (size_prod (\<lambda>_. 0) size) fs)"
  by (rule size_field [OF set_zip_leftD])

function rd :: "gty \<Rightarrow> heap \<Rightarrow> gv \<Rightarrow> (tree \<times> nat list) option" where
  "rd TScal h v = (case v of Scal s \<Rightarrow> Some (Leaf s, []) | _ \<Rightarrow> None)"
| "rd (TStruct fs) h v =
     (case v of
        Struct vs \<Rightarrow>
          if map fst vs = map fst fs
          then (case gather (map (\<lambda>p. rd (snd (fst p)) h (snd (snd p))) (zip fs vs)) of
                  None \<Rightarrow> None
                | Some (ts, A) \<Rightarrow> Some (Fields (zip (map fst fs) ts), A))
          else None
      | _ \<Rightarrow> None)"
| "rd (TPtr t) h v =
     (case v of
        Null \<Rightarrow> Some (Absent, [])
      | Ptr a \<Rightarrow>
          (case hp_cells h a of
             Some (Var x) \<Rightarrow> (case rd t h x of None \<Rightarrow> None | Some (u, A) \<Rightarrow> Some (Pointee u, a # A))
           | _ \<Rightarrow> None)
      | _ \<Rightarrow> None)"
| "rd (TSlice t) h v =
     (case v of
        Null \<Rightarrow> Some (Absent, [])
      | Slice a off n \<Rightarrow>
          (case hp_cells h a of
             Some (Backing xs) \<Rightarrow>
               if off + n \<le> length xs
               then (case gather (map (rd t h) (take n (drop off xs))) of
                       None \<Rightarrow> None
                     | Some (us, A) \<Rightarrow> Some (Elems us, a # A))
               else None
           | _ \<Rightarrow> None)
      | _ \<Rightarrow> None)"
| "rd (TMap t) h v =
     (case v of
        Null \<Rightarrow> Some (Absent, [])
      | MapRef a \<Rightarrow>
          (case hp_cells h a of
             Some (Hash es) \<Rightarrow>
               (case gather (map (\<lambda>e. rd t h (snd e)) es) of
                  None \<Rightarrow> None
                | Some (us, A) \<Rightarrow> Some (Entries (zip (map fst es) us), a # A))
           | _ \<Rightarrow> None)
      | _ \<Rightarrow> None)"
  by pat_completeness auto

termination
  by (relation "measure (\<lambda>(t, _, _). size t)") (auto intro: size_zip_field)


declare rd.simps [simp del]

lemmas rd_unfold = rd.simps

section \<open>What reading depends on\<close>

lemma gather_map_cong:
  assumes "gather (map f xs) = Some (ts, A)" "\<And>x t B. x \<in> set xs \<Longrightarrow> f x = Some (t, B) \<Longrightarrow> set B \<subseteq> set A \<Longrightarrow> g x = Some (t, B)"
  shows "gather (map g xs) = Some (ts, A)"
  using assms
proof (induction xs arbitrary: ts A)
  case (Cons x xs)
  then obtain t B us C where f: "f x = Some (t, B)" "gather (map f xs) = Some (us, C)" "ts = t # us" "A = B @ C"
    by (auto split: option.splits)
  have "g x = Some (t, B)" using Cons.prems(2) [of x t B] f by simp
  moreover have "gather (map g xs) = Some (us, C)" using Cons.prems(2) f by (intro Cons.IH) auto
  ultimately show ?case using f by simp
qed simp

text \<open>Reading succeeds in one way at each type.\<close>

lemma rd_TScal: "rd TScal h v = Some (t, A) \<longleftrightarrow> (\<exists>s. v = Scal s \<and> t = Leaf s \<and> A = [])"
  by (auto simp: rd_unfold split: gv.splits)

lemma rd_TStruct:
  "rd (TStruct fs) h v = Some (t, A) \<longleftrightarrow>
     (\<exists>vs ts. v = Struct vs \<and> map fst vs = map fst fs
        \<and> gather (map (\<lambda>p. rd (snd (fst p)) h (snd (snd p))) (zip fs vs)) = Some (ts, A)
        \<and> t = Fields (zip (map fst fs) ts))"
  by (auto simp: rd_unfold split: gv.splits option.splits if_splits)

lemma rd_TPtr:
  "rd (TPtr ty) h v = Some (t, A) \<longleftrightarrow>
     (v = Null \<and> t = Absent \<and> A = []) \<or>
     (\<exists>a x u B. v = Ptr a \<and> hp_cells h a = Some (Var x) \<and> rd ty h x = Some (u, B) \<and> t = Pointee u \<and> A = a # B)"
  by (auto simp: rd_unfold split: gv.splits option.splits cell.splits)

lemma rd_TSlice:
  "rd (TSlice ty) h v = Some (t, A) \<longleftrightarrow>
     (v = Null \<and> t = Absent \<and> A = []) \<or>
     (\<exists>a off n xs us B. v = Slice a off n \<and> hp_cells h a = Some (Backing xs) \<and> off + n \<le> length xs
        \<and> gather (map (rd ty h) (take n (drop off xs))) = Some (us, B) \<and> t = Elems us \<and> A = a # B)"
  by (auto simp: rd_unfold split: gv.splits option.splits cell.splits if_splits)

lemma rd_TMap:
  "rd (TMap ty) h v = Some (t, A) \<longleftrightarrow>
     (v = Null \<and> t = Absent \<and> A = []) \<or>
     (\<exists>a es us B. v = MapRef a \<and> hp_cells h a = Some (Hash es)
        \<and> gather (map (\<lambda>e. rd ty h (snd e)) es) = Some (us, B) \<and> t = Entries (zip (map fst es) us) \<and> A = a # B)"
  by (auto simp: rd_unfold split: gv.splits option.splits cell.splits)

lemmas rd_iff = rd_TScal rd_TStruct rd_TPtr rd_TSlice rd_TMap

lemma rd_cong:
  assumes "rd ty h v = Some (t, A)" "\<forall>a \<in> set A. hp_cells h' a = hp_cells h a"
  shows "rd ty h' v = Some (t, A)"
  using assms
proof (induction ty h v arbitrary: t A rule: rd.induct)
  case (2 fs h v)
  then obtain vs ts where v: "v = Struct vs" "map fst vs = map fst fs"
      "gather (map (\<lambda>p. rd (snd (fst p)) h (snd (snd p))) (zip fs vs)) = Some (ts, A)" "t = Fields (zip (map fst fs) ts)"
    by (auto simp: rd_iff)
  have "gather (map (\<lambda>p. rd (snd (fst p)) h' (snd (snd p))) (zip fs vs)) = Some (ts, A)"
    using 2(1) [OF v(1,2)] 2(3) by (intro gather_map_cong [OF v(3)]) (clarsimp, blast)
  then show ?case using v by (auto simp: rd_iff)
next
  case (4 ty h v)
  show ?case
  proof (cases "v = Null")
    case False
    then obtain a off n xs us B where v: "v = Slice a off n" "hp_cells h a = Some (Backing xs)" "off + n \<le> length xs"
        "gather (map (rd ty h) (take n (drop off xs))) = Some (us, B)" "t = Elems us" "A = a # B"
      using 4(2) by (auto simp: rd_iff)
    have "gather (map (rd ty h') (take n (drop off xs))) = Some (us, B)"
      using 4(1) [OF v(1,2) refl v(3)] 4(3) v(6) by (intro gather_map_cong [OF v(4)]) (clarsimp, blast)
    then show ?thesis using v 4(3) by (simp add: rd_iff)
  qed (use 4(2) in \<open>simp add: rd_iff\<close>)
next
  case (5 ty h v)
  show ?case
  proof (cases "v = Null")
    case False
    then obtain a es us B where v: "v = MapRef a" "hp_cells h a = Some (Hash es)"
        "gather (map (\<lambda>e. rd ty h (snd e)) es) = Some (us, B)" "t = Entries (zip (map fst es) us)" "A = a # B"
      using 5(2) by (auto simp: rd_iff)
    have "gather (map (\<lambda>e. rd ty h' (snd e)) es) = Some (us, B)"
      using 5(1) [OF v(1,2) refl] 5(3) v(5) by (intro gather_map_cong [OF v(3)]) (clarsimp, blast)
    then show ?thesis using v 5(3) by (simp add: rd_iff)
  qed (use 5(2) in \<open>simp add: rd_iff\<close>)
qed (auto simp: rd_iff)

lemma gather_addresses:
  "gather (map f xs) = Some (ts, A) \<Longrightarrow> a \<in> set A \<Longrightarrow> \<exists>x \<in> set xs. \<exists>t B. f x = Some (t, B) \<and> a \<in> set B"
  by (induction xs arbitrary: ts A) (auto split: option.splits)

lemma rd_allocated:
  "rd ty h v = Some (t, A) \<Longrightarrow> a \<in> set A \<Longrightarrow> hp_cells h a \<noteq> None"
proof (induction ty h v arbitrary: t A rule: rd.induct)
  case (2 fs h v)
  then show ?case unfolding rd_TStruct by (auto dest!: gather_addresses)
next
  case (4 ty h v)
  then show ?case unfolding rd_TSlice by (auto dest!: gather_addresses)
next
  case (5 ty h v)
  then show ?case unfolding rd_TMap by (auto dest!: gather_addresses)
qed (auto simp: rd_iff)

lemma rd_below: "wf_heap h \<Longrightarrow> rd ty h v = Some (t, A) \<Longrightarrow> a \<in> set A \<Longrightarrow> a < hp_next h"
  using rd_allocated [of ty h v t A a] unfolding wf_heap_def by (meson not_less)

lemma rd_grows: "wf_heap h \<Longrightarrow> grows h h' \<Longrightarrow> rd ty h v = Some (t, A) \<Longrightarrow> rd ty h' v = Some (t, A)"
  by (rule rd_cong) (auto simp: grows_def dest: rd_below)

lemma grows_refl [simp]: "grows h h"
  by (simp add: grows_def)

lemma grows_trans: "grows h1 h2 \<Longrightarrow> grows h2 h3 \<Longrightarrow> grows h1 h3"
  by (auto simp: grows_def)

lemma alloc_props:
  assumes "alloc c h = (a, h')" "wf_heap h"
  shows "wf_heap h'" "grows h h'" "a = hp_next h" "hp_next h' = Suc a" "hp_cells h' a = Some c"
  using assms by (auto simp: alloc_def wf_heap_def grows_def)

section \<open>Deep copiers\<close>

type_synonym copier = "gv \<Rightarrow> heap \<Rightarrow> gv \<times> heap"

definition deep_copier :: "gty \<Rightarrow> copier \<Rightarrow> bool" where
  "deep_copier ty f \<longleftrightarrow>
     (\<forall>v h t A v' h'. wf_heap h \<longrightarrow> rd ty h v = Some (t, A) \<longrightarrow> f v h = (v', h') \<longrightarrow>
        wf_heap h' \<and> grows h h' \<and>
        (\<exists>A'. rd ty h' v' = Some (t, A') \<and> distinct A' \<and> set A' \<subseteq> {hp_next h..<hp_next h'}))"

lemma deep_copierI [intro?]:
  assumes "\<And>v h t A v' h'. wf_heap h \<Longrightarrow> rd ty h v = Some (t, A) \<Longrightarrow> f v h = (v', h') \<Longrightarrow>
     wf_heap h' \<and> grows h h' \<and> (\<exists>A'. rd ty h' v' = Some (t, A') \<and> distinct A' \<and> set A' \<subseteq> {hp_next h..<hp_next h'})"
  shows "deep_copier ty f"
  using assms unfolding deep_copier_def by blast

lemma deep_copierE:
  assumes "deep_copier ty f" "wf_heap h" "rd ty h v = Some (t, A)" "f v h = (v', h')"
  obtains A' where "wf_heap h'" "grows h h'" "rd ty h' v' = Some (t, A')" "distinct A'"
    "set A' \<subseteq> {hp_next h..<hp_next h'}"
  using assms unfolding deep_copier_def by blast

text \<open>\<^verbatim>\<open>out.F = in.F\<close>: right for types without references.\<close>

definition assign :: copier where
  "assign v h = (v, h)"

fun plain :: "gty \<Rightarrow> bool" where
  "plain TScal \<longleftrightarrow> True"
| "plain (TStruct fs) \<longleftrightarrow> (\<forall>(n, t) \<in> set fs. plain t)"
| "plain (TPtr t) \<longleftrightarrow> False"
| "plain (TSlice t) \<longleftrightarrow> False"
| "plain (TMap t) \<longleftrightarrow> False"

lemma plain_reads_nothing: "rd ty h v = Some (t, A) \<Longrightarrow> plain ty \<Longrightarrow> A = []"
proof (induction ty h v arbitrary: t A rule: rd.induct)
  case (2 fs h v)
  then obtain vs ts where v: "v = Struct vs" "map fst vs = map fst fs"
      "gather (map (\<lambda>p. rd (snd (fst p)) h (snd (snd p))) (zip fs vs)) = Some (ts, A)"
    by (auto simp: rd_iff)
  have "a \<notin> set A" for a
  proof
    assume "a \<in> set A"
    from gather_addresses [OF v(3) this] obtain n ty m x t B where
      p: "((n, ty), (m, x)) \<in> set (zip fs vs)" "rd ty h x = Some (t, B)" "a \<in> set B" by auto
    moreover have "plain ty" using 2(3) set_zip_leftD [OF p(1)] by auto
    ultimately show False using 2(1) [OF v(1,2), of "((n, ty), (m, x))"] by auto
  qed
  then show ?case by (cases A) auto
qed (auto simp: rd_iff)

lemma deep_assign: "plain ty \<Longrightarrow> deep_copier ty assign"
  by (rule deep_copierI) (auto simp: assign_def dest: plain_reads_nothing)

text \<open>Copying a sequence of values, each with its own copier, the heap threaded through.\<close>

fun thread :: "(copier \<times> gv) list \<Rightarrow> heap \<Rightarrow> gv list \<times> heap" where
  "thread [] h = ([], h)"
| "thread ((f, v) # xs) h = (let (v', h1) = f v h; (vs', h2) = thread xs h1 in (v' # vs', h2))"

lemma thread_deep:
  assumes "\<forall>(ty, f, v) \<in> set xs. deep_copier ty f" "wf_heap h"
    "gather (map (\<lambda>x. rd (fst x) h (snd (snd x))) xs) = Some (ts, A)" "thread (map snd xs) h = (vs', h')"
  shows "wf_heap h' \<and> grows h h' \<and> length vs' = length xs \<and>
    (\<exists>A'. gather (map (\<lambda>x. rd (fst x) h' (snd x)) (zip (map fst xs) vs')) = Some (ts, A')
       \<and> distinct A' \<and> set A' \<subseteq> {hp_next h..<hp_next h'})"
  using assms
proof (induction xs arbitrary: h ts A vs' h')
  case (Cons x xs)
  obtain ty f v where x: "x = (ty, f, v)" by (cases x) auto
  obtain t B us C where g: "rd ty h v = Some (t, B)" "gather (map (\<lambda>x. rd (fst x) h (snd (snd x))) xs) = Some (us, C)"
      "ts = t # us" using Cons.prems(3) by (auto simp: x split: option.splits)
  obtain v' h1 ws where s: "f v h = (v', h1)" "thread (map snd xs) h1 = (ws, h')" "vs' = v' # ws"
    using Cons.prems(4) by (auto simp: x split: prod.splits)
  have "deep_copier ty f" using Cons.prems(1) by (simp add: x)
  from deep_copierE [OF this Cons.prems(2) g(1) s(1)] obtain B' where
    a: "wf_heap h1" "grows h h1" "rd ty h1 v' = Some (t, B')" "distinct B'" "set B' \<subseteq> {hp_next h..<hp_next h1}" .
  have "gather (map (\<lambda>x. rd (fst x) h1 (snd (snd x))) xs) = Some (us, C)"
    by (rule gather_map_cong [OF g(2)]) (rule rd_grows [OF Cons.prems(2) a(2)])
  then obtain C' where b: "wf_heap h'" "grows h1 h'" "length ws = length xs"
      "gather (map (\<lambda>x. rd (fst x) h' (snd x)) (zip (map fst xs) ws)) = Some (us, C')" "distinct C'"
      "set C' \<subseteq> {hp_next h1..<hp_next h'}"
    using Cons.IH [OF _ a(1) _ s(2)] Cons.prems(1) by auto
  have "rd ty h' v' = Some (t, B')" using rd_grows [OF a(1) b(2) a(3)] .
  moreover have "set B' \<inter> set C' = {}"
    using a(5) b(6) by (meson atLeastLessThan_iff disjoint_iff not_less subsetD)
  with a(4) b(5) have "distinct (B' @ C')" by simp
  moreover have "set (B' @ C') \<subseteq> {hp_next h..<hp_next h'}"
    using a(5) b(6) a(2) b(2) by (auto simp: grows_def)
  ultimately show ?case using b(1,3,4) grows_trans [OF a(2) b(2)] by (simp add: x s(3) g(3))
qed simp

section \<open>The statement forms of generated copies\<close>

text \<open>
  A struct starts as \<^verbatim>\<open>*out = *in\<close>, which keeps the references of every field; the
  listed fields are then overwritten, in field order, by what their statements compute.
\<close>

definition step_of :: "(string \<times> copier) list \<Rightarrow> string \<Rightarrow> copier" where
  "step_of steps n = (case map_of steps n of None \<Rightarrow> assign | Some f \<Rightarrow> f)"

definition struct_into :: "(string \<times> copier) list \<Rightarrow> copier" where
  "struct_into steps v h =
     (case v of
        Struct vs \<Rightarrow>
          (let (xs, h') = thread (map (\<lambda>p. (step_of steps (fst p), snd p)) vs) h
           in (Struct (zip (map fst vs) xs), h'))
      | _ \<Rightarrow> (v, h))"

text \<open>\<^verbatim>\<open>if in.F != nil { ... }\<close>: a nil field stays what the assignment of the whole struct made it.\<close>

definition unless_nil :: "copier \<Rightarrow> copier" where
  "unless_nil f v h = (if v = Null then (v, h) else f v h)"

text \<open>\<^verbatim>\<open>*out = new(T); (*in).DeepCopyInto(*out)\<close>.\<close>

definition new_into :: "copier \<Rightarrow> copier" where
  "new_into f v h =
     (case v of
        Ptr p \<Rightarrow>
          (case hp_cells h p of
             Some (Var x) \<Rightarrow> (let (x', h1) = f x h; (a, h2) = alloc (Var x') h1 in (Ptr a, h2))
           | _ \<Rightarrow> (v, h))
      | _ \<Rightarrow> (v, h))"

text \<open>
  \<^verbatim>\<open>*out = make([]T, len(*in))\<close>, then the elements: \<^verbatim>\<open>copy\<close> for a copier that
  assigns, a loop of \<^verbatim>\<open>DeepCopyInto\<close> otherwise. The new slice covers its whole
  backing array.
\<close>

definition make_slice :: "copier \<Rightarrow> copier" where
  "make_slice f v h =
     (case v of
        Slice p off n \<Rightarrow>
          (case hp_cells h p of
             Some (Backing xs) \<Rightarrow>
               (let (ys, h1) = thread (map (Pair f) (take n (drop off xs))) h;
                    (a, h2) = alloc (Backing ys) h1
                in (Slice a 0 (length ys), h2))
           | _ \<Rightarrow> (v, h))
      | _ \<Rightarrow> (v, h))"

text \<open>\<^verbatim>\<open>*out = make(map[K]V, len(*in)); for key, val := range *in { (*out)[key] = ... }\<close>.\<close>

definition make_map :: "copier \<Rightarrow> copier" where
  "make_map f v h =
     (case v of
        MapRef p \<Rightarrow>
          (case hp_cells h p of
             Some (Hash es) \<Rightarrow>
               (let (ys, h1) = thread (map (\<lambda>e. (f, snd e)) es) h;
                    (a, h2) = alloc (Hash (zip (map fst es) ys)) h1
                in (MapRef a, h2))
           | _ \<Rightarrow> (v, h))
      | _ \<Rightarrow> (v, h))"

text \<open>\<^verbatim>\<open>*val.DeepCopy()\<close>: the copy is made in a variable of its own and read out of it.\<close>

definition star_DeepCopy :: "copier \<Rightarrow> copier" where
  "star_DeepCopy f v h = (let (x, h1) = f v h; (_, h2) = alloc (Var x) h1 in (x, h2))"

lemma map_snd_triples:
  "length fs = length vs \<Longrightarrow>
    map snd (map (\<lambda>p. (snd (fst p), g (fst (snd p)), snd (snd p))) (zip fs vs)) = map (\<lambda>p. (g (fst p), snd p)) vs"
  by (induction fs vs rule: list_induct2) auto

lemma map_fst_triples:
  "length fs = length vs \<Longrightarrow>
    map fst (map (\<lambda>p. (snd (fst p), g (fst (snd p)), snd (snd p))) (zip fs vs)) = map snd fs"
  by (induction fs vs rule: list_induct2) auto

lemma zip_map_gather:
  "length fs = length xs \<Longrightarrow> length ns = length xs \<Longrightarrow>
    map (\<lambda>p. rd (snd (fst p)) h (snd (snd p))) (zip fs (zip ns xs)) = map (\<lambda>p. rd (fst p) h (snd p)) (zip (map snd fs) xs)"
  by (induction fs xs arbitrary: ns rule: list_induct2) (auto simp: length_Suc_conv)

lemma deep_struct:
  assumes "\<forall>(n, ty) \<in> set fs. deep_copier ty (step_of steps n)"
  shows "deep_copier (TStruct fs) (struct_into steps)"
proof
  fix v h t A v' h'
  assume wf: "wf_heap h" and r: "rd (TStruct fs) h v = Some (t, A)" and s: "struct_into steps v h = (v', h')"
  obtain vs ts where v: "v = Struct vs" "map fst vs = map fst fs"
      "gather (map (\<lambda>p. rd (snd (fst p)) h (snd (snd p))) (zip fs vs)) = Some (ts, A)" "t = Fields (zip (map fst fs) ts)"
    using r by (auto simp: rd_iff)
  have len: "length fs = length vs" using v(2) by (metis length_map)
  define xs where "xs = map (\<lambda>p. (snd (fst p), step_of steps (fst (snd p)), snd (snd p))) (zip fs vs)"
  obtain ys where y: "thread (map snd xs) h = (ys, h')" "v' = Struct (zip (map fst vs) ys)"
    using s unfolding xs_def map_snd_triples [OF len] v(1) struct_into_def by (auto split: prod.splits)
  have "deep_copier ty (step_of steps m)" if "((n, ty), (m, x)) \<in> set (zip fs vs)" for n ty m x
  proof -
    have "(n, m) \<in> set (zip (map fst fs) (map fst vs))" using that unfolding zip_map_map by force
    then have "n = m" unfolding v(2) by (auto simp: in_set_zip)
    with set_zip_leftD [OF that] assms show ?thesis by auto
  qed
  then have "\<forall>(ty, f, v) \<in> set xs. deep_copier ty f" unfolding xs_def by auto
  moreover have "gather (map (\<lambda>x. rd (fst x) h (snd (snd x))) xs) = Some (ts, A)"
    using v(3) by (simp add: xs_def comp_def)
  ultimately obtain A' where a: "wf_heap h'" "grows h h'" "length ys = length xs"
      "gather (map (\<lambda>x. rd (fst x) h' (snd x)) (zip (map fst xs) ys)) = Some (ts, A')" "distinct A'"
      "set A' \<subseteq> {hp_next h..<hp_next h'}"
    using thread_deep [OF _ wf _ y(1)] by blast
  have len': "length ys = length fs" using a(3) len by (simp add: xs_def)
  have "map fst xs = map snd fs" unfolding xs_def by (rule map_fst_triples [OF len])
  then have "rd (TStruct fs) h' v' = Some (t, A')"
    using a(4) len' len v(2,4) unfolding y(2) rd_TStruct by (auto simp: zip_map_gather)
  then show "wf_heap h' \<and> grows h h' \<and> (\<exists>A'. rd (TStruct fs) h' v' = Some (t, A') \<and> distinct A' \<and> set A' \<subseteq> {hp_next h..<hp_next h'})"
    using a by blast
qed

lemma alloc_deep:
  assumes "wf_heap h" "grows h h1" "wf_heap h1" "set A' \<subseteq> {hp_next h..<hp_next h1}" "distinct A'" "alloc c h1 = (a, h2)"
  shows "wf_heap h2" "grows h h2" "grows h1 h2" "hp_cells h2 a = Some c" "distinct (a # A')"
    "set (a # A') \<subseteq> {hp_next h..<hp_next h2}"
proof -
  note al = alloc_props [OF assms(6,3)]
  show "wf_heap h2" "grows h1 h2" "hp_cells h2 a = Some c" using al by simp_all
  show "grows h h2" by (rule grows_trans [OF assms(2) al(2)])
  have "hp_next h \<le> hp_next h1" using assms(2) by (simp add: grows_def)
  then show "set (a # A') \<subseteq> {hp_next h..<hp_next h2}" using assms(4) al(3,4) by auto
  have "a \<notin> set A'" using assms(4) al(3) by auto
  then show "distinct (a # A')" using assms(5) by simp
qed

lemma deep_unless_nil:
  assumes "\<And>v h t A v' h'. v \<noteq> Null \<Longrightarrow> wf_heap h \<Longrightarrow> rd ty h v = Some (t, A) \<Longrightarrow> f v h = (v', h') \<Longrightarrow>
     wf_heap h' \<and> grows h h' \<and> (\<exists>A'. rd ty h' v' = Some (t, A') \<and> distinct A' \<and> set A' \<subseteq> {hp_next h..<hp_next h'})"
    "\<And>h t A. rd ty h Null = Some (t, A) \<Longrightarrow> A = []"
  shows "deep_copier ty (unless_nil f)"
proof
  fix v h t A v' h'
  assume a: "wf_heap h" "rd ty h v = Some (t, A)" "unless_nil f v h = (v', h')"
  show "wf_heap h' \<and> grows h h' \<and> (\<exists>A'. rd ty h' v' = Some (t, A') \<and> distinct A' \<and> set A' \<subseteq> {hp_next h..<hp_next h'})"
  proof (cases "v = Null")
    case True
    with a assms(2) show ?thesis by (fastforce simp: unless_nil_def)
  next
    case False
    with a assms(1) [of v h t A v' h'] show ?thesis by (simp add: unless_nil_def)
  qed
qed

lemma deep_ptr:
  assumes "deep_copier ty f"
  shows "deep_copier (TPtr ty) (unless_nil (new_into f))"
proof (rule deep_unless_nil)
  fix v h t A v' h'
  assume a: "v \<noteq> Null" "wf_heap h" "rd (TPtr ty) h v = Some (t, A)" "new_into f v h = (v', h')"
  then obtain p x u B where v: "v = Ptr p" "hp_cells h p = Some (Var x)" "rd ty h x = Some (u, B)" "t = Pointee u"
    by (auto simp: rd_iff)
  then obtain x' h1 b where s: "f x h = (x', h1)" "alloc (Var x') h1 = (b, h')" "v' = Ptr b"
    using a(4) by (auto simp: new_into_def split: prod.splits)
  obtain B' where b: "wf_heap h1" "grows h h1" "rd ty h1 x' = Some (u, B')" "distinct B'" "set B' \<subseteq> {hp_next h..<hp_next h1}"
    using deep_copierE [OF assms a(2) v(3) s(1)] .
  note al = alloc_deep [OF a(2) b(2,1,5,4) s(2)]
  have "rd (TPtr ty) h' v' = Some (t, b # B')"
    using rd_grows [OF b(1) al(3) b(3)] al(4) by (simp add: rd_iff s(3) v(4))
  with al show "wf_heap h' \<and> grows h h' \<and> (\<exists>A'. rd (TPtr ty) h' v' = Some (t, A') \<and> distinct A' \<and> set A' \<subseteq> {hp_next h..<hp_next h'})"
    by blast
qed (simp add: rd_iff)

lemma deep_elements:
  assumes "deep_copier ty f" "wf_heap h" "gather (map (rd ty h) vs) = Some (us, B)" "thread (map (Pair f) vs) h = (ys, h1)"
  obtains B' where "wf_heap h1" "grows h h1" "length ys = length vs" "gather (map (rd ty h1) ys) = Some (us, B')"
    "distinct B'" "set B' \<subseteq> {hp_next h..<hp_next h1}"
proof -
  define xs where "xs = map (\<lambda>v. (ty, f, v)) vs"
  have "\<forall>(ty, f, v) \<in> set xs. deep_copier ty f" using assms(1) by (auto simp: xs_def)
  moreover have "gather (map (\<lambda>x. rd (fst x) h (snd (snd x))) xs) = Some (us, B)" using assms(3) by (simp add: xs_def comp_def)
  moreover have "thread (map snd xs) h = (ys, h1)" using assms(4) by (simp add: xs_def comp_def)
  ultimately obtain B' where b: "wf_heap h1" "grows h h1" "length ys = length xs"
      "gather (map (\<lambda>x. rd (fst x) h1 (snd x)) (zip (map fst xs) ys)) = Some (us, B')" "distinct B'"
      "set B' \<subseteq> {hp_next h..<hp_next h1}"
    using thread_deep [OF _ assms(2)] by blast
  have "map (\<lambda>x. rd (fst x) h1 (snd x)) (zip (map fst xs) ys) = map (rd ty h1) ys"
    using b(3) by (auto simp: xs_def comp_def intro!: nth_equalityI)
  with b that show thesis by (simp add: xs_def)
qed

lemma deep_slice:
  assumes "deep_copier ty f"
  shows "deep_copier (TSlice ty) (unless_nil (make_slice f))"
proof (rule deep_unless_nil)
  fix v h t A v' h'
  assume a: "v \<noteq> Null" "wf_heap h" "rd (TSlice ty) h v = Some (t, A)" "make_slice f v h = (v', h')"
  then obtain p off n xs us B where v: "v = Slice p off n" "hp_cells h p = Some (Backing xs)" "off + n \<le> length xs"
      "gather (map (rd ty h) (take n (drop off xs))) = Some (us, B)" "t = Elems us"
    by (auto simp: rd_iff)
  then obtain ys h1 b where s: "thread (map (Pair f) (take n (drop off xs))) h = (ys, h1)"
      "alloc (Backing ys) h1 = (b, h')" "v' = Slice b 0 (length ys)"
    using a(4) by (auto simp: make_slice_def split: prod.splits)
  obtain B' where b: "wf_heap h1" "grows h h1" "gather (map (rd ty h1) ys) = Some (us, B')"
      "distinct B'" "set B' \<subseteq> {hp_next h..<hp_next h1}"
    using deep_elements [OF assms a(2) v(4) s(1)] by metis
  note al = alloc_deep [OF a(2) b(2,1,5,4) s(2)]
  have "gather (map (rd ty h') ys) = Some (us, B')"
    by (rule gather_map_cong [OF b(3)]) (rule rd_grows [OF b(1) al(3)])
  then have "rd (TSlice ty) h' v' = Some (t, b # B')" using al(4) by (simp add: rd_iff s(3) v(5))
  with al show "wf_heap h' \<and> grows h h' \<and> (\<exists>A'. rd (TSlice ty) h' v' = Some (t, A') \<and> distinct A' \<and> set A' \<subseteq> {hp_next h..<hp_next h'})"
    by blast
qed (simp add: rd_iff)

lemma deep_map:
  assumes "deep_copier ty f"
  shows "deep_copier (TMap ty) (unless_nil (make_map f))"
proof (rule deep_unless_nil)
  fix v h t A v' h'
  assume a: "v \<noteq> Null" "wf_heap h" "rd (TMap ty) h v = Some (t, A)" "make_map f v h = (v', h')"
  then obtain p es us B where v: "v = MapRef p" "hp_cells h p = Some (Hash es)"
      "gather (map (rd ty h) (map snd es)) = Some (us, B)" "t = Entries (zip (map fst es) us)"
    by (auto simp: rd_iff comp_def)
  then obtain ys h1 b where s: "thread (map (Pair f) (map snd es)) h = (ys, h1)"
      "alloc (Hash (zip (map fst es) ys)) h1 = (b, h')" "v' = MapRef b"
    using a(4) by (auto simp: make_map_def comp_def split: prod.splits)
  obtain B' where b: "wf_heap h1" "grows h h1" "gather (map (rd ty h1) ys) = Some (us, B')"
      "distinct B'" "set B' \<subseteq> {hp_next h..<hp_next h1}" "length ys = length es"
    using deep_elements [OF assms a(2) v(3) s(1)] by (metis length_map)
  note al = alloc_deep [OF a(2) b(2,1,5,4) s(2)]
  have "gather (map (rd ty h') ys) = Some (us, B')"
    by (rule gather_map_cong [OF b(3)]) (rule rd_grows [OF b(1) al(3)])
  moreover have "map (\<lambda>e. rd ty h' (snd e)) (zip (map fst es) ys) = map (rd ty h') ys"
    using b(6) by (auto intro!: nth_equalityI)
  ultimately have "rd (TMap ty) h' v' = Some (t, b # B')" using al(4) b(6) by (simp add: rd_iff s(3) v(4))
  with al show "wf_heap h' \<and> grows h h' \<and> (\<exists>A'. rd (TMap ty) h' v' = Some (t, A') \<and> distinct A' \<and> set A' \<subseteq> {hp_next h..<hp_next h'})"
    by blast
qed (simp add: rd_iff)

lemma deep_star:
  assumes "deep_copier ty f"
  shows "deep_copier ty (star_DeepCopy f)"
proof
  fix v h t A v' h'
  assume a: "wf_heap h" "rd ty h v = Some (t, A)" "star_DeepCopy f v h = (v', h')"
  then obtain h1 b where s: "f v h = (v', h1)" "alloc (Var v') h1 = (b, h')"
    by (auto simp: star_DeepCopy_def split: prod.splits)
  obtain A' where b: "wf_heap h1" "grows h h1" "rd ty h1 v' = Some (t, A')" "distinct A'" "set A' \<subseteq> {hp_next h..<hp_next h1}"
    using deep_copierE [OF assms a(1,2) s(1)] .
  note al = alloc_deep [OF a(1) b(2,1,5,4) s(2)]
  show "wf_heap h' \<and> grows h h' \<and> (\<exists>A'. rd ty h' v' = Some (t, A') \<and> distinct A' \<and> set A' \<subseteq> {hp_next h..<hp_next h'})"
    using al rd_grows [OF b(1) al(3) b(3)] by auto
qed

lemmas deep_intros = deep_assign deep_struct deep_ptr deep_slice deep_map deep_star

section \<open>Copying an object\<close>

text \<open>
  The generated \<^verbatim>\<open>DeepCopy\<close> returns nil for nil, and otherwise copies the receiver into
  a new variable and returns its address. \<^verbatim>\<open>DeepCopyObject\<close> wraps the pointer into an
  interface value, which is nil (\<^const>\<open>None\<close>) only for a nil pointer.
\<close>

definition DeepCopy :: "copier \<Rightarrow> copier" where
  "DeepCopy into = unless_nil (new_into into)"

definition DeepCopyObject :: "copier \<Rightarrow> gv \<Rightarrow> heap \<Rightarrow> gv option \<times> heap" where
  "DeepCopyObject dc v h = (let (c, h') = dc v h in (if c \<noteq> Null then Some c else None, h'))"

text \<open>
  What a program may do to the heap when it can reach only the addresses in \<^verbatim>\<open>A\<close> and what
  it allocates itself: any number of writes there, of any kind.
\<close>

definition touches_only :: "nat set \<Rightarrow> heap \<Rightarrow> heap \<Rightarrow> bool" where
  "touches_only A h h' \<longleftrightarrow> (\<forall>a < hp_next h. a \<notin> A \<longrightarrow> hp_cells h' a = hp_cells h a)"

definition write_cell :: "nat \<Rightarrow> cell \<Rightarrow> heap \<Rightarrow> heap" where
  "write_cell a c h = h\<lparr>hp_cells := (hp_cells h)(a \<mapsto> c)\<rparr>"

lemma write_cell_touches [simp]: "touches_only {a} h (write_cell a c h)"
  by (simp add: touches_only_def write_cell_def)

lemma touches_only_reads:
  assumes "touches_only A h h'" "wf_heap h" "rd ty h v = Some (t, B)" "A \<inter> set B = {}"
  shows "rd ty h' v = Some (t, B)"
  using assms rd_below [OF assms(2,3)] by (intro rd_cong [OF assms(3)]) (auto simp: touches_only_def)

text \<open>A Go type together with its generated copy: what a client of \<^verbatim>\<open>DeepCopy\<close> may rely on.\<close>

locale deep_copy =
  fixes ty :: gty
    and into :: copier
  assumes copies: "deep_copier ty into"
begin

lemma DeepCopy_copies:
  assumes "wf_heap h" "rd (TPtr ty) h (Ptr p) = Some (t, A)" "DeepCopy into (Ptr p) h = (b, h')"
  obtains q A' where "b = Ptr q" "wf_heap h'" "grows h h'" "rd (TPtr ty) h' b = Some (t, A')" "distinct A'"
    "set A \<inter> set A' = {}" "rd (TPtr ty) h' (Ptr p) = Some (t, A)"
proof -
  from deep_copierE [OF deep_ptr [OF copies] assms(1,2) assms(3) [unfolded DeepCopy_def]] obtain A' where
    c: "wf_heap h'" "grows h h'" "rd (TPtr ty) h' b = Some (t, A')" "distinct A'" "set A' \<subseteq> {hp_next h..<hp_next h'}" .
  have "set A \<inter> set A' = {}" using rd_below [OF assms(1,2)] c(5) by fastforce
  moreover have "\<exists>q. b = Ptr q" using c(3) assms(2) by (auto simp: rd_iff)
  ultimately show thesis using that c rd_grows [OF assms(1) c(2) assms(2)] by blast
qed

lemma DeepCopy_nil: "DeepCopy into Null h = (Null, h)"
  by (simp add: DeepCopy_def unless_nil_def)

lemma copy_survives_writes:
  assumes "wf_heap h" "rd (TPtr ty) h (Ptr p) = Some (t, A)" "DeepCopy into (Ptr p) h = (b, h1)"
    "touches_only (set A) h1 h2"
  shows "\<exists>A'. rd (TPtr ty) h2 b = Some (t, A')"
  using DeepCopy_copies [OF assms(1-3)] touches_only_reads [OF assms(4)] by metis

lemma object_survives_writes:
  assumes "wf_heap h" "rd (TPtr ty) h (Ptr p) = Some (t, A)" "DeepCopy into (Ptr p) h = (b, h1)"
    "rd (TPtr ty) h1 b = Some (t', A')" "touches_only (set A') h1 h2"
  shows "rd (TPtr ty) h2 (Ptr p) = Some (t, A)"
proof -
  obtain B where B: "wf_heap h1" "rd (TPtr ty) h1 b = Some (t, B)" "set A \<inter> set B = {}" "rd (TPtr ty) h1 (Ptr p) = Some (t, A)"
    using DeepCopy_copies [OF assms(1-3)] by metis
  then have "A' = B" using assms(4) by simp
  then show ?thesis using touches_only_reads [OF assms(5) B(1,4)] B(3) by blast
qed

end

end
