(* ===== verification/Deep_Copy.thy ===== *)
theory Deep_Copy
  imports Go_Heap
begin

text \<open>
  The generated deep copies (\<^verbatim>\<open>pkg/apis/kqos/v1alpha1/zz_generated.deepcopy.go\<close>) of
  the API types. Each type of the package has a descriptor, its fields in declaration order as
  the type files declare them, and its \<^verbatim>\<open>DeepCopyInto\<close>, the list of the fields the
  generated code writes after \<^verbatim>\<open>*out = *in\<close>; a field that is not listed keeps what the
  assignment put there.

  The copies of the library's types (\<^verbatim>\<open>ObjectMeta\<close>, \<^verbatim>\<open>Quantity\<close> and so on) are
  not in the repository: \<^verbatim>\<open>E\<close> gives the descriptor of such a type and \<^verbatim>\<open>ext\<close>
  its copy, and \<^verbatim>\<open>external_copies\<close> is what the library documents about them, namely
  that they are deep copies too and that \<^verbatim>\<open>TypeMeta\<close>, two strings, can be assigned.

  The lemmas show that a descriptor and its copy fit together: the theorem about a type fails
  when the type gets a field with a reference that the copy does not list. The other theories
  model API objects as values; that a \<^verbatim>\<open>base := obj.DeepCopy()\<close> taken before the
  object is changed really behaves like a value is what is proved here.
\<close>

section \<open>Type descriptors\<close>

definition ty_ResourceList :: "(string \<Rightarrow> gty) \<Rightarrow> gty" where
  "ty_ResourceList E = TMap (E ''Quantity'')"

definition ty_OvercommitConfig :: "(string \<Rightarrow> gty) \<Rightarrow> gty" where
  "ty_OvercommitConfig E = TStruct
     [(''CPUTargetUtilizationPercent'', TScal), (''MemoryTargetUtilizationPercent'', TScal),
      (''HeadroomPercent'', TScal), (''MaxReclaimRatioPercent'', TScal),
      (''MinReclaimCPU'', TPtr (E ''Quantity'')), (''MinReclaimMemory'', TPtr (E ''Quantity''))]"

definition ty_AdvisorConfig :: gty where
  "ty_AdvisorConfig = TStruct
     [(''WindowSeconds'', TScal), (''IntervalSeconds'', TScal), (''Algorithm'', TScal), (''EWMAAlpha'', TScal)]"

definition ty_EvictionConfig :: gty where
  "ty_EvictionConfig = TStruct
     [(''Enabled'', TScal), (''DryRun'', TScal), (''MemoryPressureThresholdPercent'', TScal),
      (''CPUPressureThresholdPercent'', TScal), (''CPUSomeStalledThresholdPercent'', TScal),
      (''MaxEvictionsPerMinute'', TScal), (''GracePeriodSeconds'', TScal), (''StabilisationSeconds'', TScal),
      (''DisabledPlugins'', TSlice TScal)]"

definition ty_CPUSetConfig :: gty where
  "ty_CPUSetConfig = TStruct
     [(''Enabled'', TScal), (''ReservedSystemCPUs'', TScal), (''SharedPoolMinCPUs'', TScal),
      (''ReclaimedPoolMinCPUs'', TScal)]"

definition ty_WebhookConfig :: gty where
  "ty_WebhookConfig = TStruct
     [(''DefaultQoSLevel'', TScal), (''RewriteReclaimedResources'', TScal), (''ExemptNamespaces'', TSlice TScal)]"

definition ty_QoSPolicySpec :: "(string \<Rightarrow> gty) \<Rightarrow> gty" where
  "ty_QoSPolicySpec E = TStruct
     [(''NodeSelector'', TPtr (E ''LabelSelector'')), (''Overcommit'', ty_OvercommitConfig E),
      (''Advisor'', ty_AdvisorConfig), (''Eviction'', ty_EvictionConfig), (''CPUSet'', ty_CPUSetConfig),
      (''Webhook'', ty_WebhookConfig)]"

definition ty_QoSPolicyStatus :: "(string \<Rightarrow> gty) \<Rightarrow> gty" where
  "ty_QoSPolicyStatus E = TStruct
     [(''ObservedNodes'', TScal), (''ReadyNodes'', TScal), (''TotalReclaimableCPU'', E ''Quantity''),
      (''TotalReclaimableMemory'', E ''Quantity''), (''EffectiveOvercommitPercent'', TScal),
      (''NodesUnderPressure'', TScal), (''LastUpdated'', E ''Time''), (''Conditions'', TSlice (E ''Condition''))]"

definition ty_QoSPolicy :: "(string \<Rightarrow> gty) \<Rightarrow> gty" where
  "ty_QoSPolicy E = TStruct
     [(''TypeMeta'', E ''TypeMeta''), (''ObjectMeta'', E ''ObjectMeta''), (''Spec'', ty_QoSPolicySpec E),
      (''Status'', ty_QoSPolicyStatus E)]"

definition ty_QoSPolicyList :: "(string \<Rightarrow> gty) \<Rightarrow> gty" where
  "ty_QoSPolicyList E = TStruct
     [(''TypeMeta'', E ''TypeMeta''), (''ListMeta'', E ''ListMeta''), (''Items'', TSlice (ty_QoSPolicy E))]"

definition ty_NodeResourceProfileSpec :: gty where
  "ty_NodeResourceProfileSpec = TStruct [(''NodeName'', TScal)]"

definition ty_QoSAllocation :: "(string \<Rightarrow> gty) \<Rightarrow> gty" where
  "ty_QoSAllocation E = TStruct
     [(''Pods'', TScal), (''Requested'', ty_ResourceList E), (''Limits'', ty_ResourceList E),
      (''Actual'', ty_ResourceList E)]"

definition ty_CPUSetPool :: gty where
  "ty_CPUSetPool = TStruct [(''Name'', TScal), (''QoSLevel'', TScal), (''CPUs'', TScal), (''Size'', TScal)]"

definition ty_NodePressure :: gty where
  "ty_NodePressure = TStruct
     [(''Level'', TScal), (''CPUUtilizationPercent'', TScal), (''MemoryUtilizationPercent'', TScal),
      (''CPUSomeStalledPercent'', TScal), (''MemoryFullStalledPercent'', TScal)]"

definition ty_TopologyZone :: gty where
  "ty_TopologyZone = TStruct [(''ID'', TScal), (''CPUs'', TScal), (''AllocatableCPUs'', TScal)]"

definition ty_NodeResourceProfileStatus :: "(string \<Rightarrow> gty) \<Rightarrow> gty" where
  "ty_NodeResourceProfileStatus E = TStruct
     [(''Capacity'', ty_ResourceList E), (''Allocatable'', ty_ResourceList E),
      (''QoSAllocations'', TMap (ty_QoSAllocation E)), (''Reclaimable'', ty_ResourceList E),
      (''Pressure'', ty_NodePressure), (''CPUSetPools'', TSlice ty_CPUSetPool),
      (''TopologyZones'', TSlice ty_TopologyZone), (''AdvisorRevision'', TScal),
      (''LastReportTime'', E ''Time''), (''Conditions'', TSlice (E ''Condition''))]"

definition ty_NodeResourceProfile :: "(string \<Rightarrow> gty) \<Rightarrow> gty" where
  "ty_NodeResourceProfile E = TStruct
     [(''TypeMeta'', E ''TypeMeta''), (''ObjectMeta'', E ''ObjectMeta''), (''Spec'', ty_NodeResourceProfileSpec),
      (''Status'', ty_NodeResourceProfileStatus E)]"

definition ty_NodeResourceProfileList :: "(string \<Rightarrow> gty) \<Rightarrow> gty" where
  "ty_NodeResourceProfileList E = TStruct
     [(''TypeMeta'', E ''TypeMeta''), (''ListMeta'', E ''ListMeta''), (''Items'', TSlice (ty_NodeResourceProfile E))]"

definition ty_TargetReference :: gty where
  "ty_TargetReference = TStruct [(''APIVersion'', TScal), (''Kind'', TScal), (''Name'', TScal)]"

definition ty_WorkloadProfileSpec :: gty where
  "ty_WorkloadProfileSpec = TStruct
     [(''TargetRef'', ty_TargetReference), (''QoSLevel'', TScal), (''SafetyMarginPercent'', TScal)]"

definition ty_UsageStatistics :: "(string \<Rightarrow> gty) \<Rightarrow> gty" where
  "ty_UsageStatistics E = TStruct
     [(''P50'', E ''Quantity''), (''P90'', E ''Quantity''), (''P95'', E ''Quantity''), (''P99'', E ''Quantity''),
      (''Max'', E ''Quantity'')]"

definition ty_WorkloadProfileStatus :: "(string \<Rightarrow> gty) \<Rightarrow> gty" where
  "ty_WorkloadProfileStatus E = TStruct
     [(''Samples'', TScal), (''PodCount'', TScal), (''CPU'', ty_UsageStatistics E),
      (''Memory'', ty_UsageStatistics E), (''CurrentRequests'', ty_ResourceList E),
      (''Recommendation'', ty_ResourceList E), (''WastePercent'', TScal), (''Confidence'', TScal),
      (''LastUpdated'', E ''Time''), (''Conditions'', TSlice (E ''Condition''))]"

definition ty_WorkloadProfile :: "(string \<Rightarrow> gty) \<Rightarrow> gty" where
  "ty_WorkloadProfile E = TStruct
     [(''TypeMeta'', E ''TypeMeta''), (''ObjectMeta'', E ''ObjectMeta''), (''Spec'', ty_WorkloadProfileSpec),
      (''Status'', ty_WorkloadProfileStatus E)]"

definition ty_WorkloadProfileList :: "(string \<Rightarrow> gty) \<Rightarrow> gty" where
  "ty_WorkloadProfileList E = TStruct
     [(''TypeMeta'', E ''TypeMeta''), (''ListMeta'', E ''ListMeta''), (''Items'', TSlice (ty_WorkloadProfile E))]"

section \<open>The generated copies\<close>

text \<open>
  The two blocks the generator repeats: a \<^verbatim>\<open>ResourceList\<close> field, whose values are copied
  by \<^verbatim>\<open>Quantity.DeepCopy\<close>, and a \<^verbatim>\<open>*resource.Quantity\<close> field.
\<close>

definition copy_ResourceList :: "(string \<Rightarrow> copier) \<Rightarrow> copier" where
  "copy_ResourceList ext = unless_nil (make_map (ext ''Quantity''))"

definition copy_QuantityPtr :: "(string \<Rightarrow> copier) \<Rightarrow> copier" where
  "copy_QuantityPtr ext = unless_nil (new_into (ext ''Quantity''))"

definition DeepCopyInto_AdvisorConfig :: copier where
  "DeepCopyInto_AdvisorConfig = struct_into []"

definition DeepCopyInto_CPUSetConfig :: copier where
  "DeepCopyInto_CPUSetConfig = struct_into []"

definition DeepCopyInto_CPUSetPool :: copier where
  "DeepCopyInto_CPUSetPool = struct_into []"

definition DeepCopyInto_EvictionConfig :: copier where
  "DeepCopyInto_EvictionConfig = struct_into
     [(''DisabledPlugins'', unless_nil (make_slice assign))]"

definition DeepCopyInto_NodePressure :: copier where
  "DeepCopyInto_NodePressure = struct_into []"

definition DeepCopyInto_NodeResourceProfileSpec :: copier where
  "DeepCopyInto_NodeResourceProfileSpec = struct_into []"

definition DeepCopyInto_OvercommitConfig :: "(string \<Rightarrow> copier) \<Rightarrow> copier" where
  "DeepCopyInto_OvercommitConfig ext = struct_into
     [(''MinReclaimCPU'', copy_QuantityPtr ext),
      (''MinReclaimMemory'', copy_QuantityPtr ext)]"

definition DeepCopyInto_QoSAllocation :: "(string \<Rightarrow> copier) \<Rightarrow> copier" where
  "DeepCopyInto_QoSAllocation ext = struct_into
     [(''Requested'', copy_ResourceList ext),
      (''Limits'', copy_ResourceList ext),
      (''Actual'', copy_ResourceList ext)]"

definition DeepCopyInto_TargetReference :: copier where
  "DeepCopyInto_TargetReference = struct_into []"

definition DeepCopyInto_TopologyZone :: copier where
  "DeepCopyInto_TopologyZone = struct_into []"

definition DeepCopyInto_UsageStatistics :: "(string \<Rightarrow> copier) \<Rightarrow> copier" where
  "DeepCopyInto_UsageStatistics ext = struct_into
     [(''P50'', ext ''Quantity''), (''P90'', ext ''Quantity''), (''P95'', ext ''Quantity''),
      (''P99'', ext ''Quantity''), (''Max'', ext ''Quantity'')]"

definition DeepCopyInto_WebhookConfig :: copier where
  "DeepCopyInto_WebhookConfig = struct_into
     [(''ExemptNamespaces'', unless_nil (make_slice assign))]"

definition DeepCopyInto_NodeResourceProfileStatus :: "(string \<Rightarrow> copier) \<Rightarrow> copier" where
  "DeepCopyInto_NodeResourceProfileStatus ext = struct_into
     [(''Capacity'', copy_ResourceList ext),
      (''Allocatable'', copy_ResourceList ext),
      (''QoSAllocations'', unless_nil (make_map (star_DeepCopy (DeepCopyInto_QoSAllocation ext)))),
      (''Reclaimable'', copy_ResourceList ext),
      (''Pressure'', assign),
      (''CPUSetPools'', unless_nil (make_slice assign)),
      (''TopologyZones'', unless_nil (make_slice assign)),
      (''LastReportTime'', ext ''Time''),
      (''Conditions'', unless_nil (make_slice (ext ''Condition'')))]"

definition DeepCopyInto_NodeResourceProfile :: "(string \<Rightarrow> copier) \<Rightarrow> copier" where
  "DeepCopyInto_NodeResourceProfile ext = struct_into
     [(''TypeMeta'', assign),
      (''ObjectMeta'', ext ''ObjectMeta''),
      (''Spec'', assign),
      (''Status'', DeepCopyInto_NodeResourceProfileStatus ext)]"

definition DeepCopyInto_NodeResourceProfileList :: "(string \<Rightarrow> copier) \<Rightarrow> copier" where
  "DeepCopyInto_NodeResourceProfileList ext = struct_into
     [(''TypeMeta'', assign),
      (''ListMeta'', ext ''ListMeta''),
      (''Items'', unless_nil (make_slice (DeepCopyInto_NodeResourceProfile ext)))]"

definition DeepCopyInto_QoSPolicySpec :: "(string \<Rightarrow> copier) \<Rightarrow> copier" where
  "DeepCopyInto_QoSPolicySpec ext = struct_into
     [(''NodeSelector'', unless_nil (new_into (ext ''LabelSelector''))),
      (''Overcommit'', DeepCopyInto_OvercommitConfig ext),
      (''Advisor'', assign),
      (''Eviction'', DeepCopyInto_EvictionConfig),
      (''CPUSet'', assign),
      (''Webhook'', DeepCopyInto_WebhookConfig)]"

definition DeepCopyInto_QoSPolicyStatus :: "(string \<Rightarrow> copier) \<Rightarrow> copier" where
  "DeepCopyInto_QoSPolicyStatus ext = struct_into
     [(''TotalReclaimableCPU'', ext ''Quantity''),
      (''TotalReclaimableMemory'', ext ''Quantity''),
      (''LastUpdated'', ext ''Time''),
      (''Conditions'', unless_nil (make_slice (ext ''Condition'')))]"

definition DeepCopyInto_QoSPolicy :: "(string \<Rightarrow> copier) \<Rightarrow> copier" where
  "DeepCopyInto_QoSPolicy ext = struct_into
     [(''TypeMeta'', assign),
      (''ObjectMeta'', ext ''ObjectMeta''),
      (''Spec'', DeepCopyInto_QoSPolicySpec ext),
      (''Status'', DeepCopyInto_QoSPolicyStatus ext)]"

definition DeepCopyInto_QoSPolicyList :: "(string \<Rightarrow> copier) \<Rightarrow> copier" where
  "DeepCopyInto_QoSPolicyList ext = struct_into
     [(''TypeMeta'', assign),
      (''ListMeta'', ext ''ListMeta''),
      (''Items'', unless_nil (make_slice (DeepCopyInto_QoSPolicy ext)))]"

definition DeepCopyInto_WorkloadProfileSpec :: copier where
  "DeepCopyInto_WorkloadProfileSpec = struct_into [(''TargetRef'', assign)]"

definition DeepCopyInto_WorkloadProfileStatus :: "(string \<Rightarrow> copier) \<Rightarrow> copier" where
  "DeepCopyInto_WorkloadProfileStatus ext = struct_into
     [(''CPU'', DeepCopyInto_UsageStatistics ext),
      (''Memory'', DeepCopyInto_UsageStatistics ext),
      (''CurrentRequests'', copy_ResourceList ext),
      (''Recommendation'', copy_ResourceList ext),
      (''LastUpdated'', ext ''Time''),
      (''Conditions'', unless_nil (make_slice (ext ''Condition'')))]"

definition DeepCopyInto_WorkloadProfile :: "(string \<Rightarrow> copier) \<Rightarrow> copier" where
  "DeepCopyInto_WorkloadProfile ext = struct_into
     [(''TypeMeta'', assign),
      (''ObjectMeta'', ext ''ObjectMeta''),
      (''Spec'', assign),
      (''Status'', DeepCopyInto_WorkloadProfileStatus ext)]"

definition DeepCopyInto_WorkloadProfileList :: "(string \<Rightarrow> copier) \<Rightarrow> copier" where
  "DeepCopyInto_WorkloadProfileList ext = struct_into
     [(''TypeMeta'', assign),
      (''ListMeta'', ext ''ListMeta''),
      (''Items'', unless_nil (make_slice (DeepCopyInto_WorkloadProfile ext)))]"

section \<open>Every copy fits its type\<close>

definition external_types :: "string list" where
  "external_types = [''ObjectMeta'', ''ListMeta'', ''LabelSelector'', ''Condition'', ''Time'', ''Quantity'']"

definition external_copies :: "(string \<Rightarrow> gty) \<Rightarrow> (string \<Rightarrow> copier) \<Rightarrow> bool" where
  "external_copies E ext \<longleftrightarrow> plain (E ''TypeMeta'') \<and> (\<forall>n \<in> set external_types. deep_copier (E n) (ext n))"

lemma external_simps:
  assumes "external_copies E ext"
  shows "plain (E ''TypeMeta'')" "deep_copier (E ''ObjectMeta'') (ext ''ObjectMeta'')"
    "deep_copier (E ''ListMeta'') (ext ''ListMeta'')" "deep_copier (E ''LabelSelector'') (ext ''LabelSelector'')"
    "deep_copier (E ''Condition'') (ext ''Condition'')" "deep_copier (E ''Time'') (ext ''Time'')"
    "deep_copier (E ''Quantity'') (ext ''Quantity'')"
  using assms by (auto simp: external_copies_def external_types_def)

lemmas plain_types = ty_AdvisorConfig_def ty_CPUSetConfig_def ty_CPUSetPool_def ty_NodePressure_def
  ty_NodeResourceProfileSpec_def ty_TargetReference_def ty_TopologyZone_def ty_WorkloadProfileSpec_def

lemma plain_leaf_types [simp]:
  "plain ty_AdvisorConfig" "plain ty_CPUSetConfig" "plain ty_CPUSetPool" "plain ty_NodePressure"
  "plain ty_NodeResourceProfileSpec" "plain ty_TargetReference" "plain ty_TopologyZone" "plain ty_WorkloadProfileSpec"
  by (simp_all add: plain_types)

lemmas copy_rules = deep_assign deep_ptr deep_slice deep_map deep_star step_of_def

lemma deep_config_types:
  "deep_copier ty_EvictionConfig DeepCopyInto_EvictionConfig"
  "deep_copier ty_WebhookConfig DeepCopyInto_WebhookConfig"
  unfolding ty_EvictionConfig_def DeepCopyInto_EvictionConfig_def ty_WebhookConfig_def DeepCopyInto_WebhookConfig_def
  by (rule deep_struct; simp add: copy_rules)+

lemma deep_plain_types:
  "deep_copier ty_AdvisorConfig DeepCopyInto_AdvisorConfig"
  "deep_copier ty_CPUSetConfig DeepCopyInto_CPUSetConfig"
  "deep_copier ty_CPUSetPool DeepCopyInto_CPUSetPool"
  "deep_copier ty_NodePressure DeepCopyInto_NodePressure"
  "deep_copier ty_NodeResourceProfileSpec DeepCopyInto_NodeResourceProfileSpec"
  "deep_copier ty_TargetReference DeepCopyInto_TargetReference"
  "deep_copier ty_TopologyZone DeepCopyInto_TopologyZone"
  "deep_copier ty_WorkloadProfileSpec DeepCopyInto_WorkloadProfileSpec"
  unfolding plain_types DeepCopyInto_AdvisorConfig_def DeepCopyInto_CPUSetConfig_def DeepCopyInto_CPUSetPool_def
    DeepCopyInto_NodePressure_def DeepCopyInto_NodeResourceProfileSpec_def DeepCopyInto_TargetReference_def
    DeepCopyInto_TopologyZone_def DeepCopyInto_WorkloadProfileSpec_def
  by (rule deep_struct; simp add: copy_rules)+

lemma deep_blocks:
  assumes "external_copies E ext"
  shows "deep_copier (ty_ResourceList E) (copy_ResourceList ext)"
    "deep_copier (TPtr (E ''Quantity'')) (copy_QuantityPtr ext)"
  using external_simps(7) [OF assms] unfolding ty_ResourceList_def copy_ResourceList_def copy_QuantityPtr_def
  by (simp_all add: copy_rules)

lemma deep_OvercommitConfig:
  "external_copies E ext \<Longrightarrow> deep_copier (ty_OvercommitConfig E) (DeepCopyInto_OvercommitConfig ext)"
  unfolding ty_OvercommitConfig_def DeepCopyInto_OvercommitConfig_def
  by (rule deep_struct) (simp add: copy_rules deep_blocks)

lemma deep_QoSAllocation:
  "external_copies E ext \<Longrightarrow> deep_copier (ty_QoSAllocation E) (DeepCopyInto_QoSAllocation ext)"
  unfolding ty_QoSAllocation_def DeepCopyInto_QoSAllocation_def
  by (rule deep_struct) (simp add: copy_rules deep_blocks)

lemma deep_UsageStatistics:
  "external_copies E ext \<Longrightarrow> deep_copier (ty_UsageStatistics E) (DeepCopyInto_UsageStatistics ext)"
  unfolding ty_UsageStatistics_def DeepCopyInto_UsageStatistics_def
  by (rule deep_struct) (simp add: copy_rules external_simps)

lemma deep_QoSPolicySpec:
  "external_copies E ext \<Longrightarrow> deep_copier (ty_QoSPolicySpec E) (DeepCopyInto_QoSPolicySpec ext)"
  unfolding ty_QoSPolicySpec_def DeepCopyInto_QoSPolicySpec_def
  by (rule deep_struct) (simp add: copy_rules external_simps deep_OvercommitConfig deep_config_types)

lemma deep_QoSPolicyStatus:
  "external_copies E ext \<Longrightarrow> deep_copier (ty_QoSPolicyStatus E) (DeepCopyInto_QoSPolicyStatus ext)"
  unfolding ty_QoSPolicyStatus_def DeepCopyInto_QoSPolicyStatus_def
  by (rule deep_struct) (simp add: copy_rules external_simps)

lemma deep_QoSPolicy:
  "external_copies E ext \<Longrightarrow> deep_copier (ty_QoSPolicy E) (DeepCopyInto_QoSPolicy ext)"
  unfolding ty_QoSPolicy_def DeepCopyInto_QoSPolicy_def
  by (rule deep_struct) (simp add: copy_rules external_simps deep_QoSPolicySpec deep_QoSPolicyStatus)

lemma deep_QoSPolicyList:
  "external_copies E ext \<Longrightarrow> deep_copier (ty_QoSPolicyList E) (DeepCopyInto_QoSPolicyList ext)"
  unfolding ty_QoSPolicyList_def DeepCopyInto_QoSPolicyList_def
  by (rule deep_struct) (simp add: copy_rules external_simps deep_QoSPolicy)

lemma deep_NodeResourceProfileStatus:
  "external_copies E ext \<Longrightarrow> deep_copier (ty_NodeResourceProfileStatus E) (DeepCopyInto_NodeResourceProfileStatus ext)"
  unfolding ty_NodeResourceProfileStatus_def DeepCopyInto_NodeResourceProfileStatus_def
  by (rule deep_struct) (simp add: copy_rules external_simps deep_blocks deep_QoSAllocation)

lemma deep_NodeResourceProfile:
  "external_copies E ext \<Longrightarrow> deep_copier (ty_NodeResourceProfile E) (DeepCopyInto_NodeResourceProfile ext)"
  unfolding ty_NodeResourceProfile_def DeepCopyInto_NodeResourceProfile_def
  by (rule deep_struct) (simp add: copy_rules external_simps deep_NodeResourceProfileStatus)

lemma deep_NodeResourceProfileList:
  "external_copies E ext \<Longrightarrow> deep_copier (ty_NodeResourceProfileList E) (DeepCopyInto_NodeResourceProfileList ext)"
  unfolding ty_NodeResourceProfileList_def DeepCopyInto_NodeResourceProfileList_def
  by (rule deep_struct) (simp add: copy_rules external_simps deep_NodeResourceProfile)

lemma deep_WorkloadProfileStatus:
  "external_copies E ext \<Longrightarrow> deep_copier (ty_WorkloadProfileStatus E) (DeepCopyInto_WorkloadProfileStatus ext)"
  unfolding ty_WorkloadProfileStatus_def DeepCopyInto_WorkloadProfileStatus_def
  by (rule deep_struct) (simp add: copy_rules external_simps deep_blocks deep_UsageStatistics)

lemma deep_WorkloadProfile:
  "external_copies E ext \<Longrightarrow> deep_copier (ty_WorkloadProfile E) (DeepCopyInto_WorkloadProfile ext)"
  unfolding ty_WorkloadProfile_def DeepCopyInto_WorkloadProfile_def
  by (rule deep_struct) (simp add: copy_rules external_simps deep_WorkloadProfileStatus)

lemma deep_WorkloadProfileList:
  "external_copies E ext \<Longrightarrow> deep_copier (ty_WorkloadProfileList E) (DeepCopyInto_WorkloadProfileList ext)"
  unfolding ty_WorkloadProfileList_def DeepCopyInto_WorkloadProfileList_def
  by (rule deep_struct) (simp add: copy_rules external_simps deep_WorkloadProfile)

section \<open>The copies of whole objects\<close>

definition DeepCopy_AdvisorConfig :: copier where
  "DeepCopy_AdvisorConfig = DeepCopy DeepCopyInto_AdvisorConfig"

definition DeepCopy_CPUSetConfig :: copier where
  "DeepCopy_CPUSetConfig = DeepCopy DeepCopyInto_CPUSetConfig"

definition DeepCopy_CPUSetPool :: copier where
  "DeepCopy_CPUSetPool = DeepCopy DeepCopyInto_CPUSetPool"

definition DeepCopy_EvictionConfig :: copier where
  "DeepCopy_EvictionConfig = DeepCopy DeepCopyInto_EvictionConfig"

definition DeepCopy_NodePressure :: copier where
  "DeepCopy_NodePressure = DeepCopy DeepCopyInto_NodePressure"

definition DeepCopy_NodeResourceProfile :: "(string \<Rightarrow> copier) \<Rightarrow> copier" where
  "DeepCopy_NodeResourceProfile ext = DeepCopy (DeepCopyInto_NodeResourceProfile ext)"

definition DeepCopy_NodeResourceProfileList :: "(string \<Rightarrow> copier) \<Rightarrow> copier" where
  "DeepCopy_NodeResourceProfileList ext = DeepCopy (DeepCopyInto_NodeResourceProfileList ext)"

definition DeepCopy_NodeResourceProfileSpec :: copier where
  "DeepCopy_NodeResourceProfileSpec = DeepCopy DeepCopyInto_NodeResourceProfileSpec"

definition DeepCopy_NodeResourceProfileStatus :: "(string \<Rightarrow> copier) \<Rightarrow> copier" where
  "DeepCopy_NodeResourceProfileStatus ext = DeepCopy (DeepCopyInto_NodeResourceProfileStatus ext)"

definition DeepCopy_OvercommitConfig :: "(string \<Rightarrow> copier) \<Rightarrow> copier" where
  "DeepCopy_OvercommitConfig ext = DeepCopy (DeepCopyInto_OvercommitConfig ext)"

definition DeepCopy_QoSAllocation :: "(string \<Rightarrow> copier) \<Rightarrow> copier" where
  "DeepCopy_QoSAllocation ext = DeepCopy (DeepCopyInto_QoSAllocation ext)"

definition DeepCopy_QoSPolicy :: "(string \<Rightarrow> copier) \<Rightarrow> copier" where
  "DeepCopy_QoSPolicy ext = DeepCopy (DeepCopyInto_QoSPolicy ext)"

definition DeepCopy_QoSPolicyList :: "(string \<Rightarrow> copier) \<Rightarrow> copier" where
  "DeepCopy_QoSPolicyList ext = DeepCopy (DeepCopyInto_QoSPolicyList ext)"

definition DeepCopy_QoSPolicySpec :: "(string \<Rightarrow> copier) \<Rightarrow> copier" where
  "DeepCopy_QoSPolicySpec ext = DeepCopy (DeepCopyInto_QoSPolicySpec ext)"

definition DeepCopy_QoSPolicyStatus :: "(string \<Rightarrow> copier) \<Rightarrow> copier" where
  "DeepCopy_QoSPolicyStatus ext = DeepCopy (DeepCopyInto_QoSPolicyStatus ext)"

definition DeepCopy_TargetReference :: copier where
  "DeepCopy_TargetReference = DeepCopy DeepCopyInto_TargetReference"

definition DeepCopy_TopologyZone :: copier where
  "DeepCopy_TopologyZone = DeepCopy DeepCopyInto_TopologyZone"

definition DeepCopy_UsageStatistics :: "(string \<Rightarrow> copier) \<Rightarrow> copier" where
  "DeepCopy_UsageStatistics ext = DeepCopy (DeepCopyInto_UsageStatistics ext)"

definition DeepCopy_WebhookConfig :: copier where
  "DeepCopy_WebhookConfig = DeepCopy DeepCopyInto_WebhookConfig"

definition DeepCopy_WorkloadProfile :: "(string \<Rightarrow> copier) \<Rightarrow> copier" where
  "DeepCopy_WorkloadProfile ext = DeepCopy (DeepCopyInto_WorkloadProfile ext)"

definition DeepCopy_WorkloadProfileList :: "(string \<Rightarrow> copier) \<Rightarrow> copier" where
  "DeepCopy_WorkloadProfileList ext = DeepCopy (DeepCopyInto_WorkloadProfileList ext)"

definition DeepCopy_WorkloadProfileSpec :: copier where
  "DeepCopy_WorkloadProfileSpec = DeepCopy DeepCopyInto_WorkloadProfileSpec"

definition DeepCopy_WorkloadProfileStatus :: "(string \<Rightarrow> copier) \<Rightarrow> copier" where
  "DeepCopy_WorkloadProfileStatus ext = DeepCopy (DeepCopyInto_WorkloadProfileStatus ext)"

definition DeepCopyObject_NodeResourceProfile :: "(string \<Rightarrow> copier) \<Rightarrow> gv \<Rightarrow> heap \<Rightarrow> gv option \<times> heap" where
  "DeepCopyObject_NodeResourceProfile ext = DeepCopyObject (DeepCopy_NodeResourceProfile ext)"

definition DeepCopyObject_NodeResourceProfileList :: "(string \<Rightarrow> copier) \<Rightarrow> gv \<Rightarrow> heap \<Rightarrow> gv option \<times> heap" where
  "DeepCopyObject_NodeResourceProfileList ext = DeepCopyObject (DeepCopy_NodeResourceProfileList ext)"

definition DeepCopyObject_QoSPolicy :: "(string \<Rightarrow> copier) \<Rightarrow> gv \<Rightarrow> heap \<Rightarrow> gv option \<times> heap" where
  "DeepCopyObject_QoSPolicy ext = DeepCopyObject (DeepCopy_QoSPolicy ext)"

definition DeepCopyObject_QoSPolicyList :: "(string \<Rightarrow> copier) \<Rightarrow> gv \<Rightarrow> heap \<Rightarrow> gv option \<times> heap" where
  "DeepCopyObject_QoSPolicyList ext = DeepCopyObject (DeepCopy_QoSPolicyList ext)"

definition DeepCopyObject_WorkloadProfile :: "(string \<Rightarrow> copier) \<Rightarrow> gv \<Rightarrow> heap \<Rightarrow> gv option \<times> heap" where
  "DeepCopyObject_WorkloadProfile ext = DeepCopyObject (DeepCopy_WorkloadProfile ext)"

definition DeepCopyObject_WorkloadProfileList :: "(string \<Rightarrow> copier) \<Rightarrow> gv \<Rightarrow> heap \<Rightarrow> gv option \<times> heap" where
  "DeepCopyObject_WorkloadProfileList ext = DeepCopyObject (DeepCopy_WorkloadProfileList ext)"

text \<open>
  What the \<^verbatim>\<open>init\<close> functions of the type files register with the scheme builder: the
  objects the client libraries copy through \<^verbatim>\<open>runtime.Object\<close>.
\<close>

type_synonym registration = "gty \<times> (gv \<Rightarrow> heap \<Rightarrow> gv option \<times> heap)"

definition init_noderesourceprofile :: "(string \<Rightarrow> gty) \<Rightarrow> (string \<Rightarrow> copier) \<Rightarrow> registration list" where
  "init_noderesourceprofile E ext =
     [(ty_NodeResourceProfile E, DeepCopyObject_NodeResourceProfile ext), (ty_NodeResourceProfileList E, DeepCopyObject_NodeResourceProfileList ext)]"

definition init_qospolicy :: "(string \<Rightarrow> gty) \<Rightarrow> (string \<Rightarrow> copier) \<Rightarrow> registration list" where
  "init_qospolicy E ext =
     [(ty_QoSPolicy E, DeepCopyObject_QoSPolicy ext), (ty_QoSPolicyList E, DeepCopyObject_QoSPolicyList ext)]"

definition init_workloadprofile :: "(string \<Rightarrow> gty) \<Rightarrow> (string \<Rightarrow> copier) \<Rightarrow> registration list" where
  "init_workloadprofile E ext =
     [(ty_WorkloadProfile E, DeepCopyObject_WorkloadProfile ext), (ty_WorkloadProfileList E, DeepCopyObject_WorkloadProfileList ext)]"

definition registered :: "(string \<Rightarrow> gty) \<Rightarrow> (string \<Rightarrow> copier) \<Rightarrow> registration list" where
  "registered E ext = init_noderesourceprofile E ext @ init_qospolicy E ext @ init_workloadprofile E ext"

lemmas registered_defs = registered_def init_noderesourceprofile_def init_qospolicy_def init_workloadprofile_def
  DeepCopyObject_NodeResourceProfile_def DeepCopyObject_NodeResourceProfileList_def
  DeepCopyObject_QoSPolicy_def DeepCopyObject_QoSPolicyList_def
  DeepCopyObject_WorkloadProfile_def DeepCopyObject_WorkloadProfileList_def
  DeepCopy_NodeResourceProfile_def DeepCopy_NodeResourceProfileList_def DeepCopy_QoSPolicy_def
  DeepCopy_QoSPolicyList_def DeepCopy_WorkloadProfile_def DeepCopy_WorkloadProfileList_def

lemmas deep_objects = deep_NodeResourceProfile deep_NodeResourceProfileList deep_QoSPolicy deep_QoSPolicyList
  deep_WorkloadProfile deep_WorkloadProfileList

lemma registered_deep:
  assumes "external_copies E ext" "(ty, dco) \<in> set (registered E ext)"
  obtains into where "deep_copier ty into" "dco = DeepCopyObject (DeepCopy into)"
  using assms(2) that deep_objects [OF assms(1)] unfolding registered_defs by auto

interpretation eviction_config: deep_copy ty_EvictionConfig DeepCopyInto_EvictionConfig
  by unfold_locales (rule deep_config_types)

interpretation webhook_config: deep_copy ty_WebhookConfig DeepCopyInto_WebhookConfig
  by unfold_locales (rule deep_config_types)

text \<open>
  A stand-in for the library's types, with maps, pointers and structs where the library has
  them, on which the hypothesis about external copies holds and concrete objects can be read.
\<close>

definition sample_types :: "string \<Rightarrow> gty" where
  "sample_types n =
     (if n = ''TypeMeta'' then TStruct [(''Kind'', TScal), (''APIVersion'', TScal)]
      else if n = ''ObjectMeta'' then TStruct [(''Name'', TScal), (''Labels'', TMap TScal)]
      else if n = ''LabelSelector'' then TStruct [(''MatchLabels'', TMap TScal)]
      else if n = ''Quantity'' then TStruct [(''i'', TScal), (''d'', TPtr TScal)]
      else if n = ''Condition'' then TStruct [(''Type'', TScal), (''Status'', TScal)]
      else TScal)"

definition sample_copies :: "string \<Rightarrow> copier" where
  "sample_copies n =
     (if n = ''ObjectMeta'' then struct_into [(''Labels'', unless_nil (make_map assign))]
      else if n = ''LabelSelector'' then struct_into [(''MatchLabels'', unless_nil (make_map assign))]
      else if n = ''Quantity'' then struct_into [(''d'', unless_nil (new_into assign))]
      else assign)"

lemma sample_external: "external_copies sample_types sample_copies"
  by (auto simp: external_copies_def external_types_def sample_types_def sample_copies_def copy_rules intro!: deep_struct)

interpretation policy: deep_copy "ty_QoSPolicy sample_types" "DeepCopyInto_QoSPolicy sample_copies"
  by unfold_locales (rule deep_QoSPolicy [OF sample_external])

interpretation node_profile: deep_copy "ty_NodeResourceProfile sample_types" "DeepCopyInto_NodeResourceProfile sample_copies"
  by unfold_locales (rule deep_NodeResourceProfile [OF sample_external])

interpretation workload_profile: deep_copy "ty_WorkloadProfile sample_types" "DeepCopyInto_WorkloadProfile sample_copies"
  by unfold_locales (rule deep_WorkloadProfile [OF sample_external])

definition gv_str :: "string \<Rightarrow> gv" where
  "gv_str s = Scal (SStr s)"

definition gv_num :: "int \<Rightarrow> gv" where
  "gv_num i = Scal (SInt i)"

text \<open>A node profile with a label, one reclaimable quantity and one CPU pool.\<close>

definition example_profile :: gv where
  "example_profile = Struct
     [(''TypeMeta'', Struct [(''Kind'', gv_str ''NodeResourceProfile''), (''APIVersion'', gv_str ''kqos.io/v1alpha1'')]),
      (''ObjectMeta'', Struct [(''Name'', gv_str ''n1''), (''Labels'', MapRef 1)]),
      (''Spec'', Struct [(''NodeName'', gv_str ''n1'')]),
      (''Status'', Struct
        [(''Capacity'', Null), (''Allocatable'', Null), (''QoSAllocations'', Null), (''Reclaimable'', MapRef 2),
         (''Pressure'', Struct [(''Level'', gv_str ''None''), (''CPUUtilizationPercent'', gv_num 10),
            (''MemoryUtilizationPercent'', gv_num 20), (''CPUSomeStalledPercent'', gv_num 0),
            (''MemoryFullStalledPercent'', gv_num 0)]),
         (''CPUSetPools'', Slice 3 0 1), (''TopologyZones'', Null), (''AdvisorRevision'', gv_num 1),
         (''LastReportTime'', gv_num 5), (''Conditions'', Null)])]"

definition example_heap :: heap where
  "example_heap = \<lparr>hp_cells =
     [0 \<mapsto> Var example_profile,
      1 \<mapsto> Hash [(''kqos.io/managed'', gv_str ''true'')],
      2 \<mapsto> Hash [(''cpu'', Struct [(''i'', gv_num 2000), (''d'', Null)])],
      3 \<mapsto> Backing [Struct [(''Name'', gv_str ''shared''), (''QoSLevel'', gv_str ''shared_cores''), (''CPUs'', gv_str ''0-3''),
                        (''Size'', gv_num 4)]]],
     hp_next = 4\<rparr>"

lemma example_heap_wf: "wf_heap example_heap"
  by (auto simp: wf_heap_def example_heap_def)

lemma example_profile_reads: "\<exists>t. rd (TPtr (ty_NodeResourceProfile sample_types)) example_heap (Ptr 0) = Some (t, [0, 1, 2, 3])"
  by (simp add: rd_unfold example_heap_def example_profile_def ty_NodeResourceProfile_def ty_NodeResourceProfileStatus_def
      ty_NodeResourceProfileSpec_def ty_NodePressure_def ty_CPUSetPool_def ty_ResourceList_def sample_types_def gv_str_def gv_num_def)

section \<open>Properties\<close>

text \<open>
  C30. Copying any registered object returns a new pointer whose object reads exactly like the
  original, through addresses that are all new and all distinct, and leaves every cell that
  existed as it was.
\<close>
theorem DeepCopyObject_deep:
  assumes "external_copies E ext" "(ty, dco) \<in> set (registered E ext)" "wf_heap h"
    "rd (TPtr ty) h (Ptr p) = Some (t, A)" "dco (Ptr p) h = (r, h')"
  shows "\<exists>q A'. r = Some (Ptr q) \<and> rd (TPtr ty) h' (Ptr q) = Some (t, A') \<and> distinct A' \<and> set A \<inter> set A' = {}
    \<and> (\<forall>a c. hp_cells h a = Some c \<longrightarrow> hp_cells h' a = Some c)"
proof -
  obtain into where i: "deep_copier ty into" "dco = DeepCopyObject (DeepCopy into)"
    using registered_deep [OF assms(1,2)] .
  obtain b where b: "DeepCopy into (Ptr p) h = (b, h')" "r = (if b \<noteq> Null then Some b else None)"
    using assms(5) by (auto simp: i(2) DeepCopyObject_def split: prod.splits)
  obtain q A' where q: "b = Ptr q" "wf_heap h'" "grows h h'" "rd (TPtr ty) h' b = Some (t, A')" "distinct A'"
      "set A \<inter> set A' = {}"
    using deep_copy.DeepCopy_copies [OF deep_copy.intro [OF i(1)] assms(3,4) b(1)] .
  have "\<forall>a c. hp_cells h a = Some c \<longrightarrow> hp_cells h' a = Some c"
    using q(3) assms(3) unfolding grows_def wf_heap_def by (metis not_less option.distinct(1))
  then show ?thesis using q b(2) by auto
qed

lemma node_profile_registered:
  "(ty_NodeResourceProfile sample_types, DeepCopyObject_NodeResourceProfile sample_copies) \<in> set (registered sample_types sample_copies)"
  by (simp add: registered_def init_noderesourceprofile_def)

theorem DeepCopyObject_deep_witness:
  "\<exists>t q A'. fst (DeepCopyObject_NodeResourceProfile sample_copies (Ptr 0) example_heap) = Some (Ptr q)
    \<and> rd (TPtr (ty_NodeResourceProfile sample_types)) example_heap (Ptr 0) = Some (t, [0, 1, 2, 3])
    \<and> rd (TPtr (ty_NodeResourceProfile sample_types))
        (snd (DeepCopyObject_NodeResourceProfile sample_copies (Ptr 0) example_heap)) (Ptr q) = Some (t, A')
    \<and> {0, 1, 2, 3} \<inter> set A' = {}"
proof -
  obtain t where t: "rd (TPtr (ty_NodeResourceProfile sample_types)) example_heap (Ptr 0) = Some (t, [0, 1, 2, 3])"
    using example_profile_reads by blast
  show ?thesis
    using DeepCopyObject_deep [OF sample_external node_profile_registered example_heap_wf t prod.collapse [symmetric]] t by auto
qed

lemma DeepCopyObject_splits:
  assumes "DeepCopyObject (DeepCopy into) v h = (Some b, h')"
  shows "DeepCopy into v h = (b, h')"
  using assms by (auto simp: DeepCopyObject_def split: prod.splits if_splits)

text \<open>
  C13. A base taken before an update stays the base: after copying a registered object, whatever
  the caller then does to the object, in place or by attaching newly allocated memory, the
  copy still reads as the object did at the time of the copy; and nothing done to the copy
  shows in the object.
\<close>
theorem DeepCopy_isolates:
  assumes "external_copies E ext" "(ty, dco) \<in> set (registered E ext)" "wf_heap h"
    "rd (TPtr ty) h (Ptr p) = Some (t, A)" "dco (Ptr p) h = (Some b, h1)" "rd (TPtr ty) h1 b = Some (t', B)"
  shows "t' = t \<and> (touches_only (set A) h1 h2 \<longrightarrow> rd (TPtr ty) h2 b = Some (t, B))
    \<and> (touches_only (set B) h1 h2 \<longrightarrow> rd (TPtr ty) h2 (Ptr p) = Some (t, A))"
proof -
  obtain into where i: "deep_copier ty into" "dco = DeepCopyObject (DeepCopy into)"
    using registered_deep [OF assms(1,2)] .
  note dc = deep_copy.intro [OF i(1)] DeepCopyObject_splits [OF assms(5) [unfolded i(2)]]
  obtain A' where q: "wf_heap h1" "rd (TPtr ty) h1 b = Some (t, A')" "set A \<inter> set A' = {}"
    using deep_copy.DeepCopy_copies [OF dc(1) assms(3,4) dc(2)] by metis
  then have eq: "t' = t" "B = A'" using assms(6) by auto
  have "rd (TPtr ty) h2 b = Some (t, B)" if "touches_only (set A) h1 h2"
    using touches_only_reads [OF that q(1,2,3)] eq by simp
  moreover have "rd (TPtr ty) h2 (Ptr p) = Some (t, A)" if "touches_only (set B) h1 h2"
    by (rule deep_copy.object_survives_writes [OF dc(1) assms(3,4) dc(2) assms(6) that])
  ultimately show ?thesis using eq by blast
qed

theorem DeepCopy_isolates_witness:
  "\<exists>t b h1 B. DeepCopyObject_NodeResourceProfile sample_copies (Ptr 0) example_heap = (Some b, h1)
    \<and> rd (TPtr (ty_NodeResourceProfile sample_types)) example_heap (Ptr 0) = Some (t, [0, 1, 2, 3])
    \<and> rd (TPtr (ty_NodeResourceProfile sample_types)) (write_cell 3 (Backing []) h1) b = Some (t, B)"
proof -
  let ?ty = "ty_NodeResourceProfile sample_types" and ?into = "DeepCopyInto_NodeResourceProfile sample_copies"
  obtain t where t: "rd (TPtr ?ty) example_heap (Ptr 0) = Some (t, [0, 1, 2, 3])"
    using example_profile_reads by blast
  obtain b h1 where d: "DeepCopy ?into (Ptr 0) example_heap = (b, h1)" by fastforce
  obtain q B where q: "b = Ptr q" "rd (TPtr ?ty) h1 b = Some (t, B)"
    using node_profile.DeepCopy_copies [OF example_heap_wf t d] by metis
  have o: "DeepCopyObject_NodeResourceProfile sample_copies (Ptr 0) example_heap = (Some b, h1)"
    using d q(1) by (simp add: DeepCopyObject_NodeResourceProfile_def DeepCopyObject_def DeepCopy_NodeResourceProfile_def)
  have "touches_only (set [0, 1, 2, 3]) h1 (write_cell 3 (Backing []) h1)"
    by (simp add: touches_only_def write_cell_def)
  then show ?thesis
    using DeepCopy_isolates [OF sample_external node_profile_registered example_heap_wf t o q(2)] o t by blast
qed

end
