(* ===== verification/Metrics.thy ===== *)
theory Metrics
  imports KQ_Prelude
begin

text \<open>
  The Prometheus series kqos exports (\<^verbatim>\<open>pkg/metrics/metrics.go\<close>): one record per
  collector, with its kind, name parts, help text and label names, and \<^verbatim>\<open>All_metrics\<close>, the list
  of them. The client library is not in the repository: joining the name parts with underscores
  (\<^verbatim>\<open>BuildFQName\<close>) is its documented behaviour, and registering a collector with the
  controller-runtime registry is a parameter of \<^verbatim>\<open>MustRegister\<close>.

  An \<^verbatim>\<open>update\<close> is one use of a collector: the label values passed to
  \<^verbatim>\<open>WithLabelValues\<close> and the operation applied. The library panics when the number of
  values differs from the number of label names; an update is well labelled when it names a
  collector of \<^verbatim>\<open>All_metrics\<close> whose kind has the operation and whose labels have that number.
\<close>

section \<open>Descriptors\<close>

datatype metric_kind = GaugeKind | CounterKind | HistogramKind rat rat nat

record metric_desc =
  mc_kind :: metric_kind
  mc_namespace :: string
  mc_subsystem :: string
  mc_name :: string
  mc_help :: string
  mc_labels :: "string list"

definition metrics_namespace :: string where
  "metrics_namespace = ''kqos''"

definition NodeReclaimable :: metric_desc where
  "NodeReclaimable = \<lparr>mc_kind = GaugeKind, mc_namespace = metrics_namespace, mc_subsystem = ''advisor'',
     mc_name = ''reclaimable'',
     mc_help = ''Capacity offered to the reclaimed tier (cpu in millicores, memory in bytes).'',
     mc_labels = [''node'', ''resource'']\<rparr>"

definition NodeProtectedUsage :: metric_desc where
  "NodeProtectedUsage = \<lparr>mc_kind = GaugeKind, mc_namespace = metrics_namespace, mc_subsystem = ''advisor'',
     mc_name = ''protected_usage'',
     mc_help = ''Smoothed usage of the system/dedicated/shared tiers (cpu millicores, memory bytes).'',
     mc_labels = [''node'', ''resource'']\<rparr>"

definition QoSUsage :: metric_desc where
  "QoSUsage = \<lparr>mc_kind = GaugeKind, mc_namespace = metrics_namespace, mc_subsystem = ''node'',
     mc_name = ''qos_usage'',
     mc_help = ''Measured usage by QoS level (cpu millicores, memory bytes).'',
     mc_labels = [''node'', ''qos_level'', ''resource'']\<rparr>"

definition QoSRequested :: metric_desc where
  "QoSRequested = \<lparr>mc_kind = GaugeKind, mc_namespace = metrics_namespace, mc_subsystem = ''node'',
     mc_name = ''qos_requested'',
     mc_help = ''Declared requests by QoS level (cpu millicores, memory bytes).'',
     mc_labels = [''node'', ''qos_level'', ''resource'']\<rparr>"

definition QoSPods :: metric_desc where
  "QoSPods = \<lparr>mc_kind = GaugeKind, mc_namespace = metrics_namespace, mc_subsystem = ''node'',
     mc_name = ''qos_pods'',
     mc_help = ''Pod count by QoS level.'',
     mc_labels = [''node'', ''qos_level'']\<rparr>"

definition NodePressureLevel :: metric_desc where
  "NodePressureLevel = \<lparr>mc_kind = GaugeKind, mc_namespace = metrics_namespace, mc_subsystem = ''node'',
     mc_name = ''pressure_level'',
     mc_help = ''Node pressure classification: 0=None, 1=Moderate, 2=Critical.'',
     mc_labels = [''node'']\<rparr>"

definition NodePressureStall :: metric_desc where
  "NodePressureStall = \<lparr>mc_kind = GaugeKind, mc_namespace = metrics_namespace, mc_subsystem = ''node'',
     mc_name = ''pressure_stall_percent'',
     mc_help = ''PSI stall percentage feeding the pressure classification.'',
     mc_labels = [''node'', ''resource'', ''kind'']\<rparr>"

definition EvictionsTotal :: metric_desc where
  "EvictionsTotal = \<lparr>mc_kind = CounterKind, mc_namespace = metrics_namespace, mc_subsystem = ''eviction'',
     mc_name = ''total'',
     mc_help = ''Pods evicted by kqos.'',
     mc_labels = [''node'', ''plugin'', ''reason'', ''qos_level'']\<rparr>"

definition EvictionsProposedTotal :: metric_desc where
  "EvictionsProposedTotal = \<lparr>mc_kind = CounterKind, mc_namespace = metrics_namespace, mc_subsystem = ''eviction'',
     mc_name = ''proposed_total'',
     mc_help = ''Eviction verdicts produced by plugins before safety filtering.'',
     mc_labels = [''node'', ''plugin'', ''reason'']\<rparr>"

definition EvictionsSuppressedTotal :: metric_desc where
  "EvictionsSuppressedTotal = \<lparr>mc_kind = CounterKind, mc_namespace = metrics_namespace, mc_subsystem = ''eviction'',
     mc_name = ''suppressed_total'',
     mc_help = ''Eviction verdicts suppressed, labelled by the safety rule that stopped them.'',
     mc_labels = [''node'', ''cause'']\<rparr>"

definition EvictionErrorsTotal :: metric_desc where
  "EvictionErrorsTotal = \<lparr>mc_kind = CounterKind, mc_namespace = metrics_namespace, mc_subsystem = ''eviction'',
     mc_name = ''errors_total'',
     mc_help = ''Failed eviction API calls.'',
     mc_labels = [''node'', ''cause'']\<rparr>"

definition CollectDuration :: metric_desc where
  "CollectDuration = \<lparr>mc_kind = (HistogramKind (1 / 1000) 2 10), mc_namespace = metrics_namespace, mc_subsystem = ''agent'',
     mc_name = ''collect_duration_seconds'',
     mc_help = ''Time to take one full node sample.'',
     mc_labels = [''node'']\<rparr>"

definition CollectErrorsTotal :: metric_desc where
  "CollectErrorsTotal = \<lparr>mc_kind = CounterKind, mc_namespace = metrics_namespace, mc_subsystem = ''agent'',
     mc_name = ''collect_errors_total'',
     mc_help = ''Sampling failures.'',
     mc_labels = [''node'', ''cause'']\<rparr>"

definition ReconcileDuration :: metric_desc where
  "ReconcileDuration = \<lparr>mc_kind = (HistogramKind (5 / 1000) 2 10), mc_namespace = metrics_namespace, mc_subsystem = ''agent'',
     mc_name = ''reconcile_duration_seconds'',
     mc_help = ''Time for one agent loop iteration including status write.'',
     mc_labels = [''node'']\<rparr>"

definition ClusterReclaimable :: metric_desc where
  "ClusterReclaimable = \<lparr>mc_kind = GaugeKind, mc_namespace = metrics_namespace, mc_subsystem = ''cluster'',
     mc_name = ''reclaimable'',
     mc_help = ''Cluster-wide reclaimable capacity (cpu millicores, memory bytes).'',
     mc_labels = [''resource'']\<rparr>"

definition ClusterOvercommitPercent :: metric_desc where
  "ClusterOvercommitPercent = \<lparr>mc_kind = GaugeKind, mc_namespace = metrics_namespace, mc_subsystem = ''cluster'',
     mc_name = ''overcommit_percent'',
     mc_help = ''Reclaimable capacity as a percentage of allocatable capacity.'',
     mc_labels = []\<rparr>"

definition NodeExtendedResourceSyncs :: metric_desc where
  "NodeExtendedResourceSyncs = \<lparr>mc_kind = CounterKind, mc_namespace = metrics_namespace, mc_subsystem = ''controller'',
     mc_name = ''node_resource_syncs_total'',
     mc_help = ''Patches applied to Node extended resources.'',
     mc_labels = [''result'']\<rparr>"

definition WebhookMutations :: metric_desc where
  "WebhookMutations = \<lparr>mc_kind = CounterKind, mc_namespace = metrics_namespace, mc_subsystem = ''webhook'',
     mc_name = ''mutations_total'',
     mc_help = ''Admission decisions, labelled by QoS level and action.'',
     mc_labels = [''qos_level'', ''action'']\<rparr>"

definition WorkloadWastePercent :: metric_desc where
  "WorkloadWastePercent = \<lparr>mc_kind = GaugeKind, mc_namespace = metrics_namespace, mc_subsystem = ''profile'',
     mc_name = ''waste_percent'',
     mc_help = ''Share of a workload's CPU request that it never uses.'',
     mc_labels = [''namespace'', ''workload'']\<rparr>"

definition UsageReportsTotal :: metric_desc where
  "UsageReportsTotal = \<lparr>mc_kind = CounterKind, mc_namespace = metrics_namespace, mc_subsystem = ''usage'',
     mc_name = ''reports_total'',
     mc_help = ''Usage reports exchanged between agents and the controller.'',
     mc_labels = [''direction'', ''result'']\<rparr>"

definition All_metrics :: "metric_desc list" where
  "All_metrics =
     [NodeReclaimable, NodeProtectedUsage, QoSUsage,
      QoSRequested, QoSPods, NodePressureLevel,
      NodePressureStall, EvictionsTotal, EvictionsProposedTotal,
      EvictionsSuppressedTotal, EvictionErrorsTotal, CollectDuration,
      CollectErrorsTotal, ReconcileDuration, ClusterReclaimable,
      ClusterOvercommitPercent, NodeExtendedResourceSyncs, WebhookMutations,
      WorkloadWastePercent, UsageReportsTotal]"

lemmas descriptor_defs = NodeReclaimable_def NodeProtectedUsage_def QoSUsage_def QoSRequested_def QoSPods_def
  NodePressureLevel_def NodePressureStall_def EvictionsTotal_def EvictionsProposedTotal_def
  EvictionsSuppressedTotal_def EvictionErrorsTotal_def CollectDuration_def CollectErrorsTotal_def
  ReconcileDuration_def ClusterReclaimable_def ClusterOvercommitPercent_def NodeExtendedResourceSyncs_def
  WebhookMutations_def WorkloadWastePercent_def UsageReportsTotal_def

section \<open>Registration\<close>

text \<open>\<^verbatim>\<open>prometheus.BuildFQName\<close>: the non-empty parts, joined by underscores.\<close>

definition fq_name :: "metric_desc \<Rightarrow> string" where
  "fq_name d =
     (if mc_name d = [] then []
      else concat (map (\<lambda>part. part @ ''_'') (filter (\<lambda>p. p \<noteq> []) [mc_namespace d, mc_subsystem d])) @ mc_name d)"

text \<open>
  \<^term>\<open>register\<close> adds one collector to the registry or refuses it; a refusal makes
  \<^verbatim>\<open>MustRegister\<close> panic, which is \<^const>\<open>None\<close>.
\<close>

fun must_register :: "('r \<Rightarrow> metric_desc \<Rightarrow> 'r option) \<Rightarrow> metric_desc list \<Rightarrow> 'r \<Rightarrow> 'r option" where
  "must_register register [] r = Some r"
| "must_register register (c # cs) r =
     (case register r c of None \<Rightarrow> None | Some r' \<Rightarrow> must_register register cs r')"

definition MustRegister :: "('r \<Rightarrow> metric_desc \<Rightarrow> 'r option) \<Rightarrow> 'r \<Rightarrow> 'r option" where
  "MustRegister register r = must_register register All_metrics r"

lemma All_fq_names:
  "map fq_name All_metrics =
     [''kqos_advisor_reclaimable'', ''kqos_advisor_protected_usage'', ''kqos_node_qos_usage'',
      ''kqos_node_qos_requested'', ''kqos_node_qos_pods'', ''kqos_node_pressure_level'',
      ''kqos_node_pressure_stall_percent'', ''kqos_eviction_total'', ''kqos_eviction_proposed_total'',
      ''kqos_eviction_suppressed_total'', ''kqos_eviction_errors_total'', ''kqos_agent_collect_duration_seconds'',
      ''kqos_agent_collect_errors_total'', ''kqos_agent_reconcile_duration_seconds'', ''kqos_cluster_reclaimable'',
      ''kqos_cluster_overcommit_percent'', ''kqos_controller_node_resource_syncs_total'',
      ''kqos_webhook_mutations_total'', ''kqos_profile_waste_percent'', ''kqos_usage_reports_total'']"
  by (simp add: All_metrics_def descriptor_defs fq_name_def metrics_namespace_def)

lemma All_distinct: "distinct (map fq_name All_metrics)"
  unfolding All_fq_names by simp

text \<open>
  What the library documents: \<^verbatim>\<open>Register\<close> refuses a collector exactly when one of its
  name is registered already, and otherwise adds it.
\<close>

definition registry_contract :: "('r \<Rightarrow> metric_desc \<Rightarrow> 'r option) \<Rightarrow> ('r \<Rightarrow> string set) \<Rightarrow> bool" where
  "registry_contract register names \<longleftrightarrow>
     (\<forall>r c. case register r c of
        None \<Rightarrow> fq_name c \<in> names r
      | Some r' \<Rightarrow> fq_name c \<notin> names r \<and> names r' = insert (fq_name c) (names r))"

lemma registry_contractD:
  assumes "registry_contract register names"
  shows "register r c = None \<longleftrightarrow> fq_name c \<in> names r"
    and "register r c = Some r' \<Longrightarrow> names r' = insert (fq_name c) (names r)"
proof -
  have "case register r c of None \<Rightarrow> fq_name c \<in> names r
      | Some r' \<Rightarrow> fq_name c \<notin> names r \<and> names r' = insert (fq_name c) (names r)"
    using assms by (simp only: registry_contract_def)
  then show "register r c = None \<longleftrightarrow> fq_name c \<in> names r"
    and "register r c = Some r' \<Longrightarrow> names r' = insert (fq_name c) (names r)"
    by (auto split: option.splits)
qed

lemma must_register_iff:
  assumes "registry_contract register names"
  shows "must_register register cs r \<noteq> None \<longleftrightarrow> distinct (map fq_name cs) \<and> names r \<inter> fq_name ` set cs = {}"
    and "must_register register cs r = Some r' \<Longrightarrow> names r' = names r \<union> fq_name ` set cs"
proof -
  show "must_register register cs r \<noteq> None \<longleftrightarrow> distinct (map fq_name cs) \<and> names r \<inter> fq_name ` set cs = {}"
  proof (induction cs arbitrary: r)
    case (Cons c cs)
    show ?case
    proof (cases "register r c")
      case None
      then show ?thesis using registry_contractD(1) [OF assms, of r c] by simp
    next
      case (Some s)
      then show ?thesis using registry_contractD(1) [OF assms, of r c] registry_contractD(2) [OF assms Some] Cons [of s] by auto
    qed
  qed simp
  show "must_register register cs r = Some r' \<Longrightarrow> names r' = names r \<union> fq_name ` set cs"
  proof (induction cs arbitrary: r)
    case (Cons c cs)
    then obtain s where s: "register r c = Some s" "must_register register cs s = Some r'"
      by (auto split: option.splits)
    then show ?case using registry_contractD(2) [OF assms s(1)] Cons.IH [OF s(2)] by simp
  qed simp
qed

text \<open>
  Registering the collectors succeeds exactly in a registry that has none of their names: the
  twenty fully-qualified names are different from each other. It therefore succeeds once, at
  start-up, and a second call panics.
\<close>
theorem MustRegister_once:
  assumes "registry_contract register names"
  shows "(MustRegister register r \<noteq> None \<longleftrightarrow> names r \<inter> fq_name ` set All_metrics = {}) \<and>
    (\<forall>r'. MustRegister register r = Some r' \<longrightarrow> MustRegister register r' = None)"
proof -
  define N where "N = fq_name ` set All_metrics"
  note once = must_register_iff [OF assms, where cs = All_metrics, folded N_def MustRegister_def]
  have ne: "N \<noteq> {}" by (simp add: N_def All_metrics_def)
  have iff: "MustRegister register s \<noteq> None \<longleftrightarrow> names s \<inter> N = {}" for s
    using once(1) [of s] All_distinct by (simp only: simp_thms)
  have "MustRegister register r' = None" if "MustRegister register r = Some r'" for r'
    using once(2) [OF that] iff [of r'] ne by auto
  with iff show ?thesis unfolding N_def by blast
qed

definition example_register :: "string list \<Rightarrow> metric_desc \<Rightarrow> string list option" where
  "example_register names c = (if fq_name c \<in> set names then None else Some (fq_name c # names))"

theorem MustRegister_once_witness:
  "MustRegister example_register [''go_goroutines''] \<noteq> None \<and>
   MustRegister example_register [''kqos_node_qos_pods''] = None"
proof -
  have c: "registry_contract example_register set"
    by (simp add: registry_contract_def example_register_def)
  note m = MustRegister_once [OF c]
  have n: "fq_name ` set All_metrics = set (map fq_name All_metrics)" by simp
  have "''go_goroutines'' \<notin> fq_name ` set All_metrics" "''kqos_node_qos_pods'' \<in> fq_name ` set All_metrics"
    unfolding n All_fq_names by simp_all
  then show ?thesis using m [of "[''go_goroutines'']"] m [of "[''kqos_node_qos_pods'']"] by auto
qed

section \<open>Updates\<close>

text \<open>\<^verbatim>\<open>Inc\<close> is \<^verbatim>\<open>Add(1)\<close>; the durations histograms observe are wall-clock readings and are left out.\<close>

datatype operation = SetTo rat | AddTo int | ObserveDuration

datatype update = Update metric_desc "string list" operation

fun allows :: "metric_kind \<Rightarrow> operation \<Rightarrow> bool" where
  "allows GaugeKind op \<longleftrightarrow> (case op of SetTo _ \<Rightarrow> True | _ \<Rightarrow> False)"
| "allows CounterKind op \<longleftrightarrow> (case op of AddTo n \<Rightarrow> n \<ge> 0 | _ \<Rightarrow> False)"
| "allows (HistogramKind s f n) op \<longleftrightarrow> op = ObserveDuration"

fun well_labelled :: "update \<Rightarrow> bool" where
  "well_labelled (Update d ls op) \<longleftrightarrow> d \<in> set All_metrics \<and> length ls = length (mc_labels d) \<and> allows (mc_kind d) op"

text \<open>What a scrape reads of the gauges: the value last set for each collector and label values.\<close>

type_synonym gauge_values = "metric_desc \<times> string list \<Rightarrow> rat option"

fun apply_update :: "update \<Rightarrow> gauge_values \<Rightarrow> gauge_values" where
  "apply_update (Update d ls op) g = (case op of SetTo v \<Rightarrow> g((d, ls) \<mapsto> v) | _ \<Rightarrow> g)"

fun update_series :: "update \<Rightarrow> metric_desc \<times> string list" where
  "update_series (Update d ls op) = (d, ls)"

lemma apply_updates_other:
  "s \<notin> update_series ` set us \<Longrightarrow> fold apply_update us g s = g s"
proof (induction us arbitrary: g)
  case (Cons u us)
  then show ?case by (cases u) (auto split: operation.splits)
qed simp

lemma apply_updates_last:
  assumes "us = xs @ Update d ls (SetTo v) # ys" "(d, ls) \<notin> update_series ` set ys"
  shows "fold apply_update us g (d, ls) = Some v"
  using assms by (simp add: apply_updates_other)

end
