(* ===== verification/Instrumentation.thy ===== *)
theory Instrumentation
  imports Metrics Agent Policy Workload_Profile
begin

text \<open>
  Where the components update the series of \<^verbatim>\<open>Metrics\<close>. Each function below gives the
  updates one operation performs, in order, from the operation's inputs and what the model of
  the operation returns: the agent's tick (\<^verbatim>\<open>agent.go\<close>, \<^verbatim>\<open>report.go\<close>) with the
  eviction pass inside it (\<^verbatim>\<open>eviction/manager.go\<close>), the admission webhook
  (\<^verbatim>\<open>webhook/pod.go\<close>), the three controllers that count or export, and both ends of the
  usage stream (\<^verbatim>\<open>usage/publisher.go\<close>, \<^verbatim>\<open>transport.go\<close>).

  Proved of them: every update anywhere fits a registered collector, so none of them panics;
  the gauges of a tick do not keep values of earlier ticks; and the eviction counters account
  for the verdicts.
\<close>

section \<open>The agent\<close>

text \<open>The variables of the package, by the name \<^const>\<open>exportMetrics\<close> uses.\<close>

definition metric_vars :: "(string \<times> metric_desc) list" where
  "metric_vars =
     [(''NodeReclaimable'', NodeReclaimable), (''NodeProtectedUsage'', NodeProtectedUsage),
      (''NodePressureLevel'', NodePressureLevel), (''NodePressureStall'', NodePressureStall),
      (''QoSPods'', QoSPods), (''QoSUsage'', QoSUsage), (''QoSRequested'', QoSRequested)]"

fun gauge_update :: "gauge \<Rightarrow> update" where
  "gauge_update (Gauge n ls v) = Update (the (map_of metric_vars n)) ls (SetTo v)"

fun effect_updates :: "string \<Rightarrow> 'q effect \<Rightarrow> update list" where
  "effect_updates node (CountProposed plugin reason) = [Update EvictionsProposedTotal [node, plugin, reason] (AddTo 1)]"
| "effect_updates node (CountSuppressed cause n) = [Update EvictionsSuppressedTotal [node, cause] (AddTo n)]"
| "effect_updates node (CountError cause) = [Update EvictionErrorsTotal [node, cause] (AddTo 1)]"
| "effect_updates node (CountEvicted plugin reason level) = [Update EvictionsTotal [node, plugin, reason, level] (AddTo 1)]"
| "effect_updates node (EmitEvent pod kind reason message) = []"
| "effect_updates node (CallEvict pod grace) = []"

definition eviction_updates :: "string \<Rightarrow> 'q effect list \<Rightarrow> update list" where
  "eviction_updates node es = concat (map (effect_updates node) es)"

definition post_result :: "(string \<Rightarrow> string \<Rightarrow> http_result) \<Rightarrow> string \<Rightarrow> string \<Rightarrow> string" where
  "post_result peer body target =
     (case peer (target @ ReportPath) body of
        RequestError \<Rightarrow> ''request-error''
      | TransportError \<Rightarrow> ''transport-error''
      | Status code \<Rightarrow> if code \<ge> 300 then ''http-error'' else ''ok'')"

definition send_update :: "string \<Rightarrow> update" where
  "send_update outcome = Update UsageReportsTotal [''send'', outcome] (AddTo 1)"

definition publish_updates ::
    "net_ops \<Rightarrow> (string \<Rightarrow> string list option) \<Rightarrow> (string \<Rightarrow> string \<Rightarrow> http_result) \<Rightarrow> (report \<Rightarrow> string option) \<Rightarrow>
     gtime \<Rightarrow> report \<Rightarrow> publisher option \<Rightarrow> update list" where
  "publish_updates N lookup peer encode now r p0 =
     (case p0 of None \<Rightarrow> [] | Some p \<Rightarrow>
      if \<not> Enabled (Some p) then []
      else case encode r of
        None \<Rightarrow> [send_update ''encode-error'']
      | Some body \<Rightarrow>
          (case snd (targets N lookup now p) of
             None \<Rightarrow> [send_update ''resolve-error'']
           | Some ts \<Rightarrow> map (\<lambda>t. send_update (post_result peer body t)) ts))"

text \<open>
  One tick: \<^verbatim>\<open>CollectDuration\<close> is observed once the collector was asked, a failed step is
  counted under its cause, and \<^verbatim>\<open>ReconcileDuration\<close> is observed by a deferred call on
  every way out. \<^term>\<open>sends\<close> are the updates of the usage report in between.
\<close>

definition tick_updates :: "string \<Rightarrow> update list \<Rightarrow> 'q tick_outcome \<Rightarrow> update list" where
  "tick_updates node sends out =
     (let failed = (\<lambda>cause. Update CollectErrorsTotal [node, cause] (AddTo 1));
          collected = Update CollectDuration [node] ObserveDuration
      in (case to_error out of
            Some NodeGet \<Rightarrow> [failed ''node-get'']
          | Some PodList \<Rightarrow> [failed ''pod-list'']
          | Some CollectFailed \<Rightarrow> [collected, failed ''collect'']
          | None \<Rightarrow> collected # map gauge_update (to_gauges out) @ sends @ eviction_updates node (rs_effects (to_run out)))
         @ [Update ReconcileDuration [node] ObserveDuration])"

section \<open>The webhook, the controllers and the usage store\<close>

definition webhook_updates :: "'q admission_response \<times> string \<times> string \<Rightarrow> update list" where
  "webhook_updates r = [Update WebhookMutations [fst (snd r), snd (snd r)] (AddTo 1)]"

definition overcommit_updates :: "requeue \<times> extended_patch option \<times> string option \<Rightarrow> update list" where
  "overcommit_updates r =
     (case snd (snd r) of None \<Rightarrow> [] | Some outcome \<Rightarrow> [Update NodeExtendedResourceSyncs [outcome] (AddTo 1)])"

definition rollup_updates :: "rollup \<Rightarrow> update list" where
  "rollup_updates a =
     [Update ClusterReclaimable [''cpu''] (SetTo (f_of_int (ru_reclaim_cpu a))),
      Update ClusterReclaimable [''memory''] (SetTo (f_of_int (ru_reclaim_mem a))),
      Update ClusterOvercommitPercent [] (SetTo (f_of_int (overcommit_percent a)))]"

definition policy_updates ::
  "'q quantity_ops \<Rightarrow> ('sel \<Rightarrow> (labels \<Rightarrow> bool) option) \<Rightarrow> gtime \<Rightarrow> api_error + ('q, 'sel) qos_policy
     \<Rightarrow> api_error + 'q node_profile list \<Rightarrow> (string \<Rightarrow> api_error + 'q node) \<Rightarrow> update list"
where
  "policy_updates Q parse now get_policy list_profiles get_node =
     (case get_policy of
        Inl _ \<Rightarrow> []
      | Inr policy \<Rightarrow>
          (case map_option parse (qp_selector policy) of
             Some None \<Rightarrow> []
           | parsed \<Rightarrow>
               (case list_profiles of
                  Inl _ \<Rightarrow> []
                | Inr ps \<Rightarrow> rollup_updates (rollup_of Q now (map_option the parsed) get_node ps))))"

definition profile_updates ::
    "'q quantity_ops \<Rightarrow> gtime \<Rightarrow> store \<Rightarrow> api_error + 'q workload_profile \<Rightarrow> bool \<Rightarrow> update list" where
  "profile_updates Q now store get_wp patch_ok =
     (case get_wp of
        Inl _ \<Rightarrow> []
      | Inr wp \<Rightarrow>
          (case WorkloadStats (profile_key wp) now store of
             None \<Rightarrow> []
           | Some _ \<Rightarrow>
               (case snd (profile_Reconcile Q now store get_wp patch_ok) of
                  None \<Rightarrow> []
                | Some st \<Rightarrow>
                    [Update WorkloadWastePercent [wl_namespace wp, tr_name (wq_target (wl_spec wp))]
                       (SetTo (f_of_int (ws_waste st)))])))"

definition handler_updates :: "(string \<Rightarrow> report option) \<Rightarrow> http_request \<Rightarrow> update list" where
  "handler_updates decode rq =
     (let received = (\<lambda>outcome. Update UsageReportsTotal [''receive'', outcome] (AddTo 1))
      in if rq_path rq \<noteq> ReportPath \<or> rq_method rq \<noteq> ''POST'' then []
         else case rq_body rq of
           None \<Rightarrow> [received ''read-error'']
         | Some raw \<Rightarrow>
             (case decode (take maxReportBytes raw) of
                None \<Rightarrow> [received ''decode-error'']
              | Some r \<Rightarrow> if rp_node r = [] then [received ''no-node''] else [received ''ok'']))"

section \<open>Every update fits its collector\<close>

lemma listed [simp]:
  "NodeReclaimable \<in> set All_metrics" "NodeProtectedUsage \<in> set All_metrics" "QoSUsage \<in> set All_metrics"
  "QoSRequested \<in> set All_metrics" "QoSPods \<in> set All_metrics" "NodePressureLevel \<in> set All_metrics"
  "NodePressureStall \<in> set All_metrics" "EvictionsTotal \<in> set All_metrics" "EvictionsProposedTotal \<in> set All_metrics"
  "EvictionsSuppressedTotal \<in> set All_metrics" "EvictionErrorsTotal \<in> set All_metrics" "CollectDuration \<in> set All_metrics"
  "CollectErrorsTotal \<in> set All_metrics" "ReconcileDuration \<in> set All_metrics" "ClusterReclaimable \<in> set All_metrics"
  "ClusterOvercommitPercent \<in> set All_metrics" "NodeExtendedResourceSyncs \<in> set All_metrics"
  "WebhookMutations \<in> set All_metrics" "WorkloadWastePercent \<in> set All_metrics" "UsageReportsTotal \<in> set All_metrics"
  by (simp_all add: All_metrics_def)

lemma arities [simp]:
  "length (mc_labels NodeReclaimable) = 2" "length (mc_labels NodeProtectedUsage) = 2" "length (mc_labels QoSUsage) = 3"
  "length (mc_labels QoSRequested) = 3" "length (mc_labels QoSPods) = 2" "length (mc_labels NodePressureLevel) = 1"
  "length (mc_labels NodePressureStall) = 3" "length (mc_labels EvictionsTotal) = 4"
  "length (mc_labels EvictionsProposedTotal) = 3" "length (mc_labels EvictionsSuppressedTotal) = 2"
  "length (mc_labels EvictionErrorsTotal) = 2" "length (mc_labels CollectDuration) = 1"
  "length (mc_labels CollectErrorsTotal) = 2" "length (mc_labels ReconcileDuration) = 1"
  "length (mc_labels ClusterReclaimable) = 1" "mc_labels ClusterOvercommitPercent = []"
  "length (mc_labels NodeExtendedResourceSyncs) = 1" "length (mc_labels WebhookMutations) = 2"
  "length (mc_labels WorkloadWastePercent) = 2" "length (mc_labels UsageReportsTotal) = 2"
  by (simp_all add: descriptor_defs)

lemma kinds [simp]:
  "mc_kind NodeReclaimable = GaugeKind" "mc_kind NodeProtectedUsage = GaugeKind" "mc_kind QoSUsage = GaugeKind"
  "mc_kind QoSRequested = GaugeKind" "mc_kind QoSPods = GaugeKind" "mc_kind NodePressureLevel = GaugeKind"
  "mc_kind NodePressureStall = GaugeKind" "mc_kind EvictionsTotal = CounterKind"
  "mc_kind EvictionsProposedTotal = CounterKind" "mc_kind EvictionsSuppressedTotal = CounterKind"
  "mc_kind EvictionErrorsTotal = CounterKind" "mc_kind CollectErrorsTotal = CounterKind"
  "mc_kind ClusterReclaimable = GaugeKind" "mc_kind ClusterOvercommitPercent = GaugeKind"
  "mc_kind NodeExtendedResourceSyncs = CounterKind" "mc_kind WebhookMutations = CounterKind"
  "mc_kind WorkloadWastePercent = GaugeKind" "mc_kind UsageReportsTotal = CounterKind"
  "allows (mc_kind CollectDuration) op \<longleftrightarrow> op = ObserveDuration"
  "allows (mc_kind ReconcileDuration) op \<longleftrightarrow> op = ObserveDuration"
  by (simp_all add: descriptor_defs)

abbreviation fits :: "update list \<Rightarrow> bool" where
  "fits \<equiv> list_all well_labelled"

lemma vars_by_name [simp]:
  "map_of metric_vars ''NodeReclaimable'' = Some NodeReclaimable"
  "map_of metric_vars ''NodeProtectedUsage'' = Some NodeProtectedUsage"
  "map_of metric_vars ''NodePressureLevel'' = Some NodePressureLevel"
  "map_of metric_vars ''NodePressureStall'' = Some NodePressureStall"
  "map_of metric_vars ''QoSPods'' = Some QoSPods" "map_of metric_vars ''QoSUsage'' = Some QoSUsage"
  "map_of metric_vars ''QoSRequested'' = Some QoSRequested"
  by (simp_all add: metric_vars_def)

lemma export_fits: "fits (map gauge_update (exportMetrics Q node sample rec))"
  by (simp add: exportMetrics_def qos_gauges_def KnownQoSLevels_def Let_def)

text \<open>A suppression is counted with the number of verdicts it stopped, at least one of them.\<close>

definition counted :: "'q effect \<Rightarrow> bool" where
  "counted e \<longleftrightarrow> (case e of CountSuppressed cause n \<Rightarrow> 0 < n | _ \<Rightarrow> True)"

lemma counted_simps [simp]:
  "counted (CountProposed p r)" "counted (CountSuppressed c n) \<longleftrightarrow> 0 < n" "counted (CountError c)"
  "counted (CountEvicted p r l)" "counted (EmitEvent pod k r msg)" "counted (CallEvict pod g)"
  by (simp_all add: counted_def)

lemma eviction_fits: "list_all counted es \<Longrightarrow> fits (eviction_updates node es)"
proof (induction es)
  case (Cons e es)
  then show ?case by (cases e) (simp_all add: eviction_updates_def)
qed (simp add: eviction_updates_def)

lemma evict_allowed_counted:
  assumes "list_all counted (rs_effects res)"
  shows "list_all counted (rs_effects (snd (evict_allowed api Q cfg now v (m, res))))"
  using assms by (auto simp: evict_allowed_def Let_def event_effects_def emit_def suppress_def suppressed_inc_def
      split: evict_reply.splits)

lemma evict_loop_counted:
  "list_all counted (rs_effects res) \<Longrightarrow> list_all counted (rs_effects (snd (evict_loop api Q cfg now vs seen (m, res))))"
proof (induction vs arbitrary: seen m res)
  case (Cons v vs)
  obtain granted b where t: "bucket_take now (em_budget m) = (granted, b)" by fastforce
  obtain m1 res1 where a: "evict_allowed api Q cfg now v (m\<lparr>em_budget := b\<rparr>, res) = (m1, res1)" by fastforce
  have "list_all counted (rs_effects res1)"
    using evict_allowed_counted [OF Cons.prems, of api Q cfg now v "m\<lparr>em_budget := b\<rparr>"] a by simp
  then show ?case using Cons by (simp add: Let_def t a split: bool.splits)
qed simp

lemma evict_loop_counted':
  "evict_loop api Q cfg now vs seen (m, res) = (m', res') \<Longrightarrow> list_all counted (rs_effects res) \<Longrightarrow>
    list_all counted (rs_effects res')"
  using evict_loop_counted [of res api Q cfg now vs seen m] by simp

lemma manager_Run_counted: "list_all counted (rs_effects (snd (manager_Run api Q sig now m)))"
proof -
  have v: "list_all counted (map (\<lambda>v. CountProposed (vd_plugin v) (vd_reason v)) vs)" for vs :: "'a verdict list"
    by (induction vs) simp_all
  show ?thesis
    by (auto simp: manager_Run_def Let_def emit_def suppress_def suppressed_inc_def empty_result_def v
        split: prod.splits elim!: evict_loop_counted')
qed

lemma send_fits [simp]: "well_labelled (send_update outcome)"
  by (simp add: send_update_def)

lemma sends_fit [simp]: "fits (map (\<lambda>t. send_update (f t)) ts)"
  by (induction ts) simp_all

lemma publish_fits: "fits (publish_updates N lookup peer encode now r p)"
  by (simp add: publish_updates_def split: option.splits)

lemma tick_sampled_exports:
  assumes "tick_sampled L env policy node pods sample a = Some (a', out)"
  shows "\<exists>rec. to_gauges out = exportMetrics (al_quantity L) (op_node (ag_opts a)) sample rec \<and> to_rec out = Some rec"
    and "\<exists>sig ev. to_run out = snd (manager_Run (te_evict env) (al_quantity L) sig (te_now env) ev)"
    and "to_error out = None"
  using assms by (auto simp: tick_sampled_def Let_def dest!: enforce_pools_keeps split: prod.splits option.splits)
    (metis snd_conv)+

lemma tick_fits:
  assumes "agent_tick L env a = Some (a', out)" "fits sends"
  shows "fits (tick_updates node sends out)"
proof (cases "to_error out")
  case None
  then obtain policy nd pods sample b where t: "tick_sampled L env policy nd pods sample b = Some (a', out)"
    using assms(1) by (auto simp: agent_tick_def Let_def tick_failed_def split: sum.splits option.splits prod.splits)
  obtain rec sig ev where e: "to_gauges out = exportMetrics (al_quantity L) (op_node (ag_opts b)) sample rec"
      "to_run out = snd (manager_Run (te_evict env) (al_quantity L) sig (te_now env) ev)"
    using tick_sampled_exports [OF t] by blast
  have "fits (eviction_updates node (rs_effects (to_run out)))"
    unfolding e(2) by (rule eviction_fits [OF manager_Run_counted])
  then show ?thesis using None export_fits assms(2) by (simp add: tick_updates_def Let_def e(1))
next
  case (Some e)
  then show ?thesis by (cases e) (simp_all add: tick_updates_def Let_def)
qed

text \<open>
  C31. Every update the agent, the webhook, the controllers and the usage stream perform names a
  registered collector, passes as many label values as it has labels, and applies an operation
  of its kind, a counter never being lowered: no call of \<^verbatim>\<open>WithLabelValues\<close> panics.
\<close>
theorem updates_fit:
  "(case agent_tick L env a of
      None \<Rightarrow> True
    | Some (a', out) \<Rightarrow> list_all well_labelled (tick_updates node (publish_updates N lookup peer encode now r p) out)) \<and>
   list_all well_labelled (webhook_updates (webhook_Handle Q snap enc pol req)) \<and>
   list_all well_labelled (overcommit_updates (overcommit_Reconcile Q oc now get_profile get_node patch_ok)) \<and>
   list_all well_labelled (policy_updates Q parse now get_policy list_profiles get_node) \<and>
   list_all well_labelled (profile_updates Q now store get_wp patch_ok) \<and>
   list_all well_labelled (handler_updates decode rq)"
proof (intro conjI)
  show "case agent_tick L env a of
      None \<Rightarrow> True
    | Some (a', out) \<Rightarrow> fits (tick_updates node (publish_updates N lookup peer encode now r p) out)"
    by (auto split: option.splits intro: tick_fits publish_fits)
  show "fits (webhook_updates (webhook_Handle Q snap enc pol req))" by (simp add: webhook_updates_def)
  show "fits (overcommit_updates (overcommit_Reconcile Q oc now get_profile get_node patch_ok))"
    by (simp add: overcommit_updates_def split: option.splits)
  show "fits (policy_updates Q parse now get_policy list_profiles get_node)"
    by (simp add: policy_updates_def rollup_updates_def split: sum.splits option.splits)
  show "fits (profile_updates Q now store get_wp patch_ok)"
    by (simp add: profile_updates_def split: sum.splits option.splits)
  show "fits (handler_updates decode rq)"
    by (simp add: handler_updates_def Let_def split: option.splits)
qed

section \<open>The gauges of a tick\<close>

lemma gauges_apart [simp]:
  "NodeReclaimable \<noteq> NodeProtectedUsage" "NodeProtectedUsage \<noteq> NodeReclaimable"
  "NodeReclaimable \<noteq> QoSPods" "QoSPods \<noteq> NodeReclaimable" "NodeProtectedUsage \<noteq> QoSPods" "QoSPods \<noteq> NodeProtectedUsage"
  "QoSUsage \<noteq> QoSRequested" "QoSRequested \<noteq> QoSUsage" "NodePressureStall \<noteq> QoSUsage" "QoSUsage \<noteq> NodePressureStall"
  "NodePressureStall \<noteq> QoSRequested" "QoSRequested \<noteq> NodePressureStall"
  by (simp_all add: descriptor_defs)

lemma i32_step: "i32 (i32 x + y) = i32 (x + y)"
proof -
  have "((x + 2 ^ 31) mod 2 ^ 32 + y) mod 2 ^ 32 = (x + y + 2 ^ 31) mod (2 ^ 32 :: int)"
    unfolding mod_add_left_eq by (simp only: ac_simps)
  then show ?thesis by (simp add: i32_def)
qed

lemma pods_counted: "qt_pods (fold (totals_add Q) ps t) = (if ps = [] then qt_pods t else i32 (qt_pods t + int (length ps)))"
proof (induction ps arbitrary: t)
  case (Cons p ps)
  have a: "qt_pods (totals_add Q p t) = i32 (qt_pods t + 1)" by (simp add: totals_add_def)
  show ?case using Cons.IH [of "totals_add Q p t"] unfolding a i32_step by (cases "ps = []") (simp_all add: a add.assoc)
qed simp

text \<open>
  C27. A scrape after a tick sees that tick: whatever the gauges held before, the reclaimable amounts
  are the recommendation's, and for every level the pod count is the number of sampled pods of
  that level, and the usage and the requests are that level's totals; a level that has no pods
  left reads 0, not its last value.
\<close>
theorem gauges_current:
  "let g' = fold apply_update (map gauge_update (exportMetrics Q node sample rec)) g;
       total = (\<lambda>level. kv_get (ByQoS Q sample) level zero_totals)
   in g' (NodeReclaimable, [node, ''cpu'']) = Some (f_of_int (rc_cpu rec)) \<and>
      g' (NodeReclaimable, [node, ''memory'']) = Some (f_of_int (rc_mem rec)) \<and>
      list_all (\<lambda>level.
        g' (QoSPods, [node, level]) = Some (f_of_int (i32 (int (length (filter (\<lambda>p. sm_level p = level) (ns_pods sample)))))) \<and>
        g' (QoSUsage, [node, level, ''cpu'']) = Some (qt_act_cpu (total level)) \<and>
        g' (QoSUsage, [node, level, ''memory'']) = Some (f_of_int (qt_act_mem (total level))) \<and>
        g' (QoSRequested, [node, level, ''cpu'']) = Some (f_of_int (qt_req_cpu (total level))) \<and>
        g' (QoSRequested, [node, level, ''memory'']) = Some (f_of_int (qt_req_mem (total level)))) KnownQoSLevels"
proof -
  have c: "(case m of None \<Rightarrow> zero_totals | Some u \<Rightarrow> u) = kv_get out level zero_totals" if "out level = m" for out m level
    using that by (auto simp: kv_get_def split: option.splits)
  have z: "qt_pods zero_totals = 0" "i32 0 = 0" by (simp_all add: zero_totals_def i32_def)
  have n: "qt_pods (kv_get (ByQoS Q sample) level zero_totals)
      = i32 (int (length (filter (\<lambda>p. sm_level p = level) (ns_pods sample))))" for level
    using pods_counted [of Q "filter (\<lambda>p. sm_level p = level) (ns_pods sample)" zero_totals]
    using ByQoS_partition [of Q sample level] by (simp add: z split: if_splits)
  show ?thesis
    unfolding Let_def exportMetrics_def qos_gauges_def c [OF refl] n [symmetric]
    by (simp add: KnownQoSLevels_def QoSDedicatedCores_def QoSSharedCores_def QoSReclaimedCores_def QoSSystemCores_def)
qed

section \<open>The eviction counters\<close>

fun outcome_of :: "'q effect \<Rightarrow> int" where
  "outcome_of (CountSuppressed cause n) = n"
| "outcome_of (CountError cause) = 1"
| "outcome_of (CountEvicted plugin reason level) = 1"
| "outcome_of (CountProposed plugin reason) = 0"
| "outcome_of (EmitEvent pod kind reason message) = 0"
| "outcome_of (CallEvict pod grace) = 0"

text \<open>The sum of the suppressed, failed and completed counts, and how many verdicts were counted as proposed.\<close>

definition outcomes :: "'q effect list \<Rightarrow> int" where
  "outcomes es = sum_list (map outcome_of es)"

definition proposed :: "'q effect list \<Rightarrow> nat" where
  "proposed es = length (filter (\<lambda>e. case e of CountProposed _ _ \<Rightarrow> True | _ \<Rightarrow> False) es)"

definition tried :: "'q effect list \<Rightarrow> nat" where
  "tried es = length (filter (\<lambda>e. case e of CountError _ \<Rightarrow> True | CountEvicted _ _ _ \<Rightarrow> True | _ \<Rightarrow> False) es)"

lemma counts_simps [simp]:
  "outcomes [] = 0" "outcomes (es @ fs) = outcomes es + outcomes fs" "outcomes (e # es) = outcome_of e + outcomes es"
  "proposed [] = 0" "proposed (es @ fs) = proposed es + proposed fs"
  "proposed (e # es) = (case e of CountProposed _ _ \<Rightarrow> 1 | _ \<Rightarrow> 0) + proposed es"
  "tried [] = 0" "tried (es @ fs) = tried es + tried fs"
  "tried (e # es) = (case e of CountError _ \<Rightarrow> 1 | CountEvicted _ _ _ \<Rightarrow> 1 | _ \<Rightarrow> 0) + tried es"
  by (simp_all add: outcomes_def proposed_def tried_def split: effect.splits)

lemma proposals_counts [simp]:
  "outcomes (map (\<lambda>v. CountProposed (f v) (g v)) vs) = 0" "proposed (map (\<lambda>v. CountProposed (f v) (g v)) vs) = length vs"
  "tried (map (\<lambda>v. CountProposed (f v) (g v)) vs) = 0"
  by (induction vs) simp_all

lemma event_counts [simp]:
  "outcomes (event_effects b pod k r msg) = 0" "proposed (event_effects b pod k r msg) = 0" "tried (event_effects b pod k r msg) = 0"
  "calls (event_effects b pod k r msg) = []"
  by (simp_all add: event_effects_def calls_def List.map_filter_def)

abbreviation rate_limited :: "'q effect" where
  "rate_limited \<equiv> CountSuppressed ''rate-limited'' 1"

text \<open>
  What a part of a pass may add to the effects: between none and \<^term>\<open>k\<close> outcomes, all
  \<^term>\<open>k\<close> of them when \<^term>\<open>full\<close>, no proposals, and an error or an eviction for
  every call.
\<close>

definition accounts :: "nat \<Rightarrow> bool \<Rightarrow> 'q effect list \<Rightarrow> 'q effect list \<Rightarrow> bool" where
  "accounts k full es es' \<longleftrightarrow>
     (\<exists>d. es' = es @ d \<and> 0 \<le> outcomes d \<and> outcomes d \<le> int k \<and>
        (full \<and> rate_limited \<notin> set d \<longrightarrow> outcomes d = int k) \<and> proposed d = 0 \<and> length (calls d) = tried d)"

lemma accountsI:
  "0 \<le> outcomes d \<Longrightarrow> outcomes d \<le> int k \<Longrightarrow> (full \<Longrightarrow> rate_limited \<notin> set d \<Longrightarrow> outcomes d = int k) \<Longrightarrow>
    proposed d = 0 \<Longrightarrow> length (calls d) = tried d \<Longrightarrow> accounts k full es (es @ d)"
  unfolding accounts_def by blast

lemma accounts_refl: "accounts 0 full es es"
  using accountsI [of "[]" 0 full es] by simp

lemma accounts_trans:
  assumes "accounts j c es es1" "accounts k c es1 es2"
  shows "accounts (j + k) c es es2"
proof -
  obtain d where d: "es1 = es @ d" "0 \<le> outcomes d" "outcomes d \<le> int j" "proposed d = 0" "length (calls d) = tried d"
      "c \<and> rate_limited \<notin> set d \<longrightarrow> outcomes d = int j" using assms(1) unfolding accounts_def by blast
  obtain e where e: "es2 = es1 @ e" "0 \<le> outcomes e" "outcomes e \<le> int k" "proposed e = 0" "length (calls e) = tried e"
      "c \<and> rate_limited \<notin> set e \<longrightarrow> outcomes e = int k" using assms(2) unfolding accounts_def by blast
  show ?thesis unfolding d(1) e(1) append_assoc using d(2-) e(2-) by (intro accountsI) auto
qed

lemma accounts_weaken: "accounts k c es es' \<Longrightarrow> accounts (Suc k) False es es'"
  unfolding accounts_def by force

lemma suppress_accounts: "accounts 1 c (rs_effects res) (rs_effects (suppress cause res))"
  by (simp add: accountsI calls_def List.map_filter_def)

lemma allowed_accounts:
  "accounts 1 c (rs_effects res) (rs_effects (snd (evict_allowed api Q cfg now v (m, res))))"
  by (auto simp: evict_allowed_def Let_def intro!: accountsI split: evict_reply.splits)

lemma evict_loop_accounts:
  "accounts (length vs) (distinct (map verdict_key vs) \<and> set seen \<inter> verdict_key ` set vs = {}) (rs_effects res)
     (rs_effects (snd (evict_loop api Q cfg now vs seen (m, res))))"
proof (induction vs arbitrary: seen m res)
  case Nil
  then show ?case by (simp add: accounts_refl)
next
  case (Cons v vs)
  let ?key = "verdict_key v" and ?c = "\<lambda>vs seen. distinct (map verdict_key vs) \<and> set seen \<inter> verdict_key ` set vs = {}"
  obtain granted b where t: "bucket_take now (em_budget m) = (granted, b)" by fastforce
  obtain m1 res1 where a: "evict_allowed api Q cfg now v (m\<lparr>em_budget := b\<rparr>, res) = (m1, res1)" by fastforce
  have c: "?c (v # vs) seen = ?c vs (?key # seen)" if "?key \<notin> set seen" using that by auto
  consider (dup) "?key \<in> set seen" | (vetoed) "?key \<notin> set seen" "veto Q (em_recent m) v now \<noteq> []"
    | (dry) "?key \<notin> set seen" "veto Q (em_recent m) v now = []" "\<not> granted"
    | (taken) "?key \<notin> set seen" "veto Q (em_recent m) v now = []" "granted"
    by blast
  then show ?case
  proof cases
    case dup
    then show ?thesis using accounts_weaken [OF Cons.IH [where seen = seen]] by simp
  next
    case vetoed
    have "accounts (1 + length vs) (?c vs (?key # seen)) (rs_effects res)
        (rs_effects (snd (evict_loop api Q cfg now vs (?key # seen) (m, suppress (veto Q (em_recent m) v now) res))))"
      by (rule accounts_trans [OF suppress_accounts Cons.IH])
    then show ?thesis using vetoed c by (simp add: Let_def)
  next
    case dry
    show ?thesis using dry by (auto simp: Let_def t calls_def List.map_filter_def intro!: accountsI)
  next
    case taken
    have "accounts 1 (?c vs (?key # seen)) (rs_effects res) (rs_effects res1)"
      using allowed_accounts [of _ res api Q cfg now v "m\<lparr>em_budget := b\<rparr>"] by (simp add: a)
    from accounts_trans [OF this Cons.IH] show ?thesis using taken c by (simp add: Let_def t a)
  qed
qed


lemma manager_Run_accounts:
  assumes "manager_Run api Q sig now m = (m', res)" "ec_enabled (sg_config sig)" "\<not> ns_degraded (sg_sample sig)"
  defines "vs \<equiv> proposals sig (em_plugins m)"
  shows "accounts (length vs) (distinct (map verdict_key vs)) (map (\<lambda>v. CountProposed (vd_plugin v) (vd_reason v)) vs) (rs_effects res)"
proof -
  have plugins: "em_plugins (trackBreach sig now m) = em_plugins m" by (simp add: trackBreach_def)
  note run = assms(1) [unfolded manager_Run_def Let_def plugins, folded vs_def] assms(2,3)
  let ?ps = "map (\<lambda>v. CountProposed (vd_plugin v) (vd_reason v)) vs"
  let ?r0 = "\<lparr>rs_proposed = length vs, rs_evicted = [], rs_suppressed = \<lambda>_. 0, rs_effects = ?ps\<rparr>"
  consider (idle) "vs = []" "rs_effects res = ?ps"
    | (stable) "vs \<noteq> []" "rs_effects res = ?ps @ [CountSuppressed ''stabilising'' (int (length vs))]"
    | (loop) n m3 where "evict_loop api Q (sg_config sig) now vs [] (n, ?r0) = (m3, res)"
    using run by (auto simp: emit_def empty_result_def split: if_splits prod.splits)
  then show ?thesis
  proof cases
    case idle
    then show ?thesis by (simp add: accounts_refl)
  next
    case stable
    show ?thesis unfolding stable(2) by (auto intro!: accountsI)
  next
    case (loop n m3)
    then show ?thesis using evict_loop_accounts [of vs "[]" ?r0 api Q "sg_config sig" now n] by simp
  qed
qed

text \<open>
  C17. The counters account for a pass over a measured sample: every verdict is counted as proposed,
  every eviction call as an eviction or as an error, and never more outcomes are counted than
  verdicts. When no two verdicts name the same pod and the rate limiter does not stop the pass,
  every verdict has exactly one outcome, so the gap between the proposed and the evicted count
  is what the suppressed and error counts explain.
\<close>
theorem eviction_accounting:
  assumes "ec_enabled (sg_config sig)" "\<not> ns_degraded (sg_sample sig)"
  shows "let es = rs_effects (snd (manager_Run api Q sig now m)); vs = proposals sig (em_plugins m)
    in proposed es = length vs \<and> length (calls es) = tried es \<and> outcomes es \<le> int (length vs) \<and>
       (distinct (map verdict_key vs) \<and> CountSuppressed ''rate-limited'' 1 \<notin> set es \<longrightarrow> outcomes es = int (proposed es))"
proof -
  obtain m' res where r: "manager_Run api Q sig now m = (m', res)" by fastforce
  from manager_Run_accounts [OF r assms] show ?thesis
    unfolding accounts_def by (auto simp: r Let_def)
qed

text \<open>A degraded pass counts itself as a suppression although no plugin was asked for a verdict.\<close>

lemma degraded_counts_a_pass:
  assumes "ec_enabled (sg_config sig)" "ns_degraded (sg_sample sig)"
  shows "rs_effects (snd (manager_Run api Q sig now m)) = [CountSuppressed ''degraded-sample'' 1]"
  using assms by (simp add: manager_Run_def Let_def emit_def suppress_def suppressed_inc_def empty_result_def)

theorem eviction_accounting_witness:
  "\<exists>es. es = rs_effects (snd (manager_Run (\<lambda>pod g. EvictOK) rat_quantity example_signal (40 * second)
        (example_manager\<lparr>em_breached_since := 10 * second\<rparr>)))
    \<and> proposed es = 1 \<and> outcomes es \<le> 1 \<and> length (calls es) = tried es"
proof -
  let ?m = "example_manager\<lparr>em_breached_since := 10 * second\<rparr>"
  have "proposals example_signal (em_plugins ?m) = [example_verdict]"
    using example_proposals by (simp add: example_manager_def eviction_NewManager_def example_plugins)
  then show ?thesis
    using eviction_accounting [OF example_gates(1,2), of "\<lambda>pod g. EvictOK" rat_quantity "40 * second" ?m]
    by (simp add: Let_def)
qed

section \<open>Series that several objects share\<close>

text \<open>
  The cluster gauges carry no policy label: whichever policy was reconciled last decides what
  they read, whatever part of the cluster it selects. The waste gauge carries the target's name
  without its kind, so two profiles of different kinds in one namespace share a series.
\<close>

lemma policies_share_series:
  "map update_series (policy_updates Q parse now get_policy list_profiles get_node) \<in>
     {[], [(ClusterReclaimable, [''cpu'']), (ClusterReclaimable, [''memory'']), (ClusterOvercommitPercent, [])]}"
  by (simp add: policy_updates_def rollup_updates_def split: sum.splits option.splits)

lemma last_policy_wins:
  assumes "policy_updates Q parse now get_policy list_profiles get_node = rollup_updates a"
  shows "fold apply_update (earlier @ policy_updates Q parse now get_policy list_profiles get_node) g (ClusterReclaimable, [''cpu''])
    = Some (f_of_int (ru_reclaim_cpu a))"
  unfolding assms by (simp add: rollup_updates_def)

lemma profiles_share_series:
  assumes "wl_namespace wp = wl_namespace wq" "tr_name (wq_target (wl_spec wp)) = tr_name (wq_target (wl_spec wq))"
    "profile_updates Q now store (Inr wp) ok = [u]" "profile_updates Q now' store' (Inr wq) ok' = [w]"
  shows "update_series u = update_series w"
  using assms by (auto simp: profile_updates_def split: option.splits)

end
