(* ===== verification/Entry_Points.thy ===== *)
theory Entry_Points
  imports Metrics Agent Policy Workload_Profile
begin

text \<open>
  The three binaries (\<^verbatim>\<open>cmd/kqos-agent/main.go\<close>, \<^verbatim>\<open>cmd/kqos-controller/main.go\<close>,
  \<^verbatim>\<open>cmd/kqos-webhook/main.go\<close>), the runnables they add to the manager and the set-up of the
  controllers.

  A \<^verbatim>\<open>main\<close> is a sequence of steps, each followed by \<^verbatim>\<open>os.Exit(1)\<close> when it returned
  an error. A step is recorded with everything the code passes to it; whether it succeeds is an
  argument, because the steps are calls of controller-runtime. \<^verbatim>\<open>flag.Parse\<close> is an argument
  too: it maps the defaults to the values of the command line. What a process runs is then the list
  of its steps up to the first failure.

  Proved here: what has to succeed before a manager starts, and that a process that did not get so
  far has exit code 1; that the agent process adds one agent to its manager, of the node its pod cache
  is restricted to; what a controller process sets up; and what the namespace list of the
  controller's flag means for discovery.
\<close>

section \<open>Set-up of the controllers\<close>

definition DefaultQoSPolicyName :: string where "DefaultQoSPolicyName = ''default''"

text \<open>
  A controller as the builder gets it: its name, the kind it is for, whether the events of that
  kind pass the predicate \<^const>\<open>reclaimableChanged\<close>, the kinds it owns, and the kinds it watches
  with the requests an event of them makes.
\<close>

record controller_setup =
  ct_name :: string
  ct_for :: string
  ct_predicate :: bool
  ct_owns :: "string list"
  ct_watches :: "(string \<times> (string \<Rightarrow> string list)) list"

text \<open>Every profile event asks for the default policy, whatever the profile.\<close>

definition mapProfileToPolicy :: "string \<Rightarrow> string list" where
  "mapProfileToPolicy profile = [DefaultQoSPolicyName]"

definition overcommit_Setup :: controller_setup where
  "overcommit_Setup = \<lparr>ct_name = ''overcommit'', ct_for = ''NodeResourceProfile'', ct_predicate = True,
     ct_owns = [], ct_watches = []\<rparr>"

definition policy_Setup :: controller_setup where
  "policy_Setup = \<lparr>ct_name = ''qospolicy'', ct_for = ''QoSPolicy'', ct_predicate = False, ct_owns = [],
     ct_watches = [(''NodeResourceProfile'', mapProfileToPolicy)]\<rparr>"

definition profile_Setup :: controller_setup where
  "profile_Setup = \<lparr>ct_name = ''workloadprofile'', ct_for = ''WorkloadProfile'', ct_predicate = False,
     ct_owns = [], ct_watches = []\<rparr>"

definition discovery_Setup :: controller_setup where
  "discovery_Setup = \<lparr>ct_name = ''workloaddiscovery'', ct_for = ''Deployment'', ct_predicate = False,
     ct_owns = [''WorkloadProfile''], ct_watches = []\<rparr>"

section \<open>Runnables\<close>

datatype runnable =
    AgentRunnable options
  | UsageServer string
  | UsageCollector duration
  | PolicyBootstrap

definition agent_NeedLeaderElection :: bool where "agent_NeedLeaderElection = False"
definition server_NeedLeaderElection :: bool where "server_NeedLeaderElection = False"
definition collector_NeedLeaderElection :: bool where "collector_NeedLeaderElection = False"

text \<open>
  What the type of a runnable answers to \<^verbatim>\<open>NeedLeaderElection\<close>. The bootstrap is a
  \<^verbatim>\<open>manager.RunnableFunc\<close>, which has no such method. What the manager does with the answer, or
  without one, is controller-runtime's.
\<close>

fun leader_method :: "runnable \<Rightarrow> bool option" where
  "leader_method (AgentRunnable opts) = Some agent_NeedLeaderElection"
| "leader_method (UsageServer addr) = Some server_NeedLeaderElection"
| "leader_method (UsageCollector interval) = Some collector_NeedLeaderElection"
| "leader_method PolicyBootstrap = None"

text \<open>\<^verbatim>\<open>Server.Start\<close>: how \<^verbatim>\<open>ListenAndServe\<close> ended, and what is returned for it.\<close>

datatype serve_end = ServerClosed | ServeFailed string

definition server_Start :: "serve_end option \<Rightarrow> string option" where
  "server_Start ended =
     (case ended of None \<Rightarrow> None | Some ServerClosed \<Rightarrow> None | Some (ServeFailed err) \<Rightarrow> Some err)"

text \<open>\<^verbatim>\<open>Collector.Start\<close>: an expiry at each of the ticker's times until the context ends.\<close>

definition collector_Start :: "gtime list \<Rightarrow> store \<Rightarrow> store" where
  "collector_Start ticks s = fold store_GC ticks s"

section \<open>Steps\<close>

record manager_options =
  mo_metrics :: string
  mo_probe :: string
  mo_leader_election :: bool
  mo_election_id :: string
  mo_pod_field :: "(string \<times> string) option"
  mo_webhook :: "(int \<times> string) option"

datatype step =
    RegisterMetrics
  | SignalHandler
  | CreateManager manager_options
  | IndexPods string
  | CreateClient
  | SetupController controller_setup
  | SetupDiscovery controller_setup "string list"
  | AddRunnable runnable
  | RegisterWebhook string
  | HealthzCheck
  | ReadyzCheck
  | StartManager

text \<open>The steps the code does not ask for an error.\<close>

fun infallible :: "step \<Rightarrow> bool" where
  "infallible RegisterMetrics = True"
| "infallible SignalHandler = True"
| "infallible (RegisterWebhook path) = True"
| "infallible _ = False"

datatype exit_code = ExitOne | ExitZero

fun run_steps :: "(step \<Rightarrow> bool) \<Rightarrow> step list \<Rightarrow> step list \<times> exit_code" where
  "run_steps ok [] = ([], ExitZero)"
| "run_steps ok (s # ss) =
     (if infallible s \<or> ok s then (case run_steps ok ss of (done, e) \<Rightarrow> (s # done, e)) else ([s], ExitOne))"

text \<open>
  Every binary's \<^verbatim>\<open>init\<close> adds the client library's kinds and the group's own to the scheme.
\<close>

definition GroupVersion :: "string \<times> string" where
  "GroupVersion = (''kqos.io'', ''v1alpha1'')"

definition group_Resource :: "string \<Rightarrow> string \<times> string" where
  "group_Resource resource = (fst GroupVersion, resource)"

definition scheme_init :: "(string \<times> string) list \<Rightarrow> (string \<times> string) list" where
  "scheme_init client_go = client_go @ [GroupVersion]"

section \<open>The agent\<close>

record agent_flags =
  af_node :: string
  af_cgroup_root :: string
  af_sysnode :: string
  af_interval :: duration
  af_endpoint :: string
  af_fanout :: bool
  af_metrics :: string
  af_probe :: string
  af_enforce :: bool
  af_estimate :: bool

definition agent_flag_defaults :: "(string \<Rightarrow> string) \<Rightarrow> agent_flags" where
  "agent_flag_defaults getenv =
     \<lparr>af_node = getenv ''NODE_NAME'', af_cgroup_root = DefaultRoot, af_sysnode = ''/host/sys/devices/system/node'',
      af_interval = 10 * second, af_endpoint = getenv ''KQOS_USAGE_ENDPOINT'', af_fanout = True,
      af_metrics = '':8080'', af_probe = '':8081'', af_enforce = True, af_estimate = False\<rparr>"

text \<open>The index function: an object that is no pod, or a pod on no node, has no key.\<close>

definition pod_node_index :: "string option \<Rightarrow> string list" where
  "pod_node_index pod_node =
     (case pod_node of None \<Rightarrow> [] | Some node \<Rightarrow> if node = [] then [] else [node])"

definition agent_options_of :: "agent_flags \<Rightarrow> options" where
  "agent_options_of f =
     \<lparr>op_node = af_node f, op_cgroup_root = af_cgroup_root f, op_sysnode = af_sysnode f, op_interval = af_interval f,
      op_endpoint = af_endpoint f, op_estimate = af_estimate f, op_fanout = af_fanout f, op_enforce = af_enforce f\<rparr>"

definition agent_steps :: "agent_flags \<Rightarrow> step list" where
  "agent_steps f =
     [RegisterMetrics,
      SignalHandler,
      CreateManager \<lparr>mo_metrics = af_metrics f, mo_probe = af_probe f, mo_leader_election = False, mo_election_id = [],
        mo_pod_field = Some (''spec.nodeName'', af_node f), mo_webhook = None\<rparr>,
      IndexPods ''spec.nodeName'',
      CreateClient,
      AddRunnable (AgentRunnable (agent_options_of f)),
      HealthzCheck,
      ReadyzCheck,
      StartManager]"

definition agent_main ::
    "(step \<Rightarrow> bool) \<Rightarrow> (agent_flags \<Rightarrow> agent_flags) \<Rightarrow> (string \<Rightarrow> string) \<Rightarrow> step list \<times> exit_code" where
  "agent_main ok parse getenv =
     (let f = parse (agent_flag_defaults getenv)
      in if af_node f = [] then ([], ExitOne) else run_steps ok (agent_steps f))"

section \<open>The controller\<close>

definition splitAndTrim :: "string \<Rightarrow> string list" where
  "splitAndTrim s = filter (\<lambda>p. p \<noteq> []) (map trim_space (split_on CHR '','' s))"

record controller_flags =
  cf_metrics :: string
  cf_probe :: string
  cf_usage :: string
  cf_leader_elect :: bool
  cf_retention :: duration
  cf_skip :: string
  cf_discover :: bool

definition controller_flag_defaults :: controller_flags where
  "controller_flag_defaults =
     \<lparr>cf_metrics = '':8080'', cf_probe = '':8081'', cf_usage = '':8090'', cf_leader_elect = True,
      cf_retention = 10 * minute,
      cf_skip = ''kube-system,kube-public,kube-node-lease,local-path-storage,kqos-system'', cf_discover = True\<rparr>"

definition controller_steps :: "controller_flags \<Rightarrow> step list" where
  "controller_steps f =
     [RegisterMetrics,
      SignalHandler,
      CreateManager \<lparr>mo_metrics = cf_metrics f, mo_probe = cf_probe f, mo_leader_election = cf_leader_elect f,
        mo_election_id = ''kqos-controller.kqos.io'', mo_pod_field = None, mo_webhook = None\<rparr>,
      SetupController overcommit_Setup,
      SetupController policy_Setup,
      SetupController profile_Setup]
     @ (if cf_discover f then [SetupDiscovery discovery_Setup (splitAndTrim (cf_skip f))] else [])
     @ [AddRunnable (UsageServer (cf_usage f)),
        AddRunnable (UsageCollector (go_div (cf_retention f) 4)),
        AddRunnable PolicyBootstrap,
        HealthzCheck,
        ReadyzCheck,
        StartManager]"

definition controller_main :: "(step \<Rightarrow> bool) \<Rightarrow> (controller_flags \<Rightarrow> controller_flags) \<Rightarrow> step list \<times> exit_code" where
  "controller_main ok parse = run_steps ok (controller_steps (parse controller_flag_defaults))"

text \<open>The store the server, the expiry and the profile reconciler share.\<close>

definition controller_store :: "controller_flags \<Rightarrow> store" where
  "controller_store f = NewStore (cf_retention f)"

text \<open>The bootstrap runnable: what \<^const>\<open>EnsureDefault\<close> returns for the built-in policy is the runnable's error.\<close>

definition bootstrap_Start :: "api_error + ('q, 'sel) qos_policy \<Rightarrow> api_error option \<Rightarrow> api_error option" where
  "bootstrap_Start got created = fst (EnsureDefault (DefaultPolicy :: 'q qos_policy_spec) got created)"

section \<open>The webhook\<close>

record webhook_flags =
  wf_metrics :: string
  wf_probe :: string
  wf_cert_dir :: string
  wf_port :: int

definition webhook_flag_defaults :: webhook_flags where
  "webhook_flag_defaults =
     \<lparr>wf_metrics = '':8080'', wf_probe = '':8081'', wf_cert_dir = ''/tmp/k8s-webhook-server/serving-certs'', wf_port = 9443\<rparr>"

definition webhook_steps :: "webhook_flags \<Rightarrow> step list" where
  "webhook_steps f =
     [RegisterMetrics,
      SignalHandler,
      CreateManager \<lparr>mo_metrics = wf_metrics f, mo_probe = wf_probe f, mo_leader_election = False, mo_election_id = [],
        mo_pod_field = None, mo_webhook = Some (wf_port f, wf_cert_dir f)\<rparr>,
      RegisterWebhook ''/mutate-v1-pod'',
      HealthzCheck,
      ReadyzCheck,
      StartManager]"

definition webhook_main :: "(step \<Rightarrow> bool) \<Rightarrow> (webhook_flags \<Rightarrow> webhook_flags) \<Rightarrow> step list \<times> exit_code" where
  "webhook_main ok parse = run_steps ok (webhook_steps (parse webhook_flag_defaults))"

section \<open>Running steps\<close>

abbreviation proceeds :: "(step \<Rightarrow> bool) \<Rightarrow> step \<Rightarrow> bool" where
  "proceeds ok s \<equiv> infallible s \<or> ok s"

lemma run_steps_exit: "snd (run_steps ok ss) = ExitZero \<longleftrightarrow> list_all (proceeds ok) ss"
  by (induction ss) (auto split: prod.splits)

lemma run_steps_all: "list_all (proceeds ok) ss \<Longrightarrow> run_steps ok ss = (ss, ExitZero)"
  by (induction ss) auto

lemma run_steps_prefix: "\<exists>n. fst (run_steps ok ss) = take n ss"
proof (induction ss)
  case (Cons s ss)
  then obtain n where n: "fst (run_steps ok ss) = take n ss" by blast
  show ?case
  proof (cases "proceeds ok s")
    case True
    then have "fst (run_steps ok (s # ss)) = take (Suc n) (s # ss)" using n by (auto split: prod.splits)
    then show ?thesis by blast
  next
    case False
    then have "fst (run_steps ok (s # ss)) = take 1 (s # ss)" by simp
    then show ?thesis by blast
  qed
qed simp

lemma run_steps_reaches:
  assumes "s \<notin> set xs" "s \<notin> set ys"
  shows "s \<in> set (fst (run_steps ok (xs @ s # ys))) \<longleftrightarrow> list_all (proceeds ok) xs"
  using assms(1)
proof (induction xs)
  case Nil
  show ?case using assms(2) by (auto split: prod.splits)
qed (auto split: prod.splits)

lemma run_steps_before_last:
  assumes "list_all (proceeds ok) (butlast ss)" "ss \<noteq> []"
  shows "fst (run_steps ok ss) = ss"
  using assms by (induction ss) (auto split: prod.splits if_splits)

text \<open>
  What the three programs share: metrics are registered first and only then, and starting the
  manager is the last step and the only one of its kind.
\<close>

locale startup =
  fixes steps :: "'f \<Rightarrow> step list"
  assumes metrics_first: "hd (steps f) = RegisterMetrics" "RegisterMetrics \<notin> set (tl (steps f))"
    and start_last: "steps f \<noteq> []" "last (steps f) = StartManager" "StartManager \<notin> set (butlast (steps f))"
begin

lemma manager_starts:
  "StartManager \<in> set (fst (run_steps ok (steps f))) \<longleftrightarrow> list_all (proceeds ok) (butlast (steps f))"
  using run_steps_reaches [OF start_last(3), of "[]" ok f] append_butlast_last_id [OF start_last(1), of f]
  by (simp add: start_last(2))

lemma exit_zero: "snd (run_steps ok (steps f)) = ExitZero \<longleftrightarrow> list_all (proceeds ok) (steps f)"
  by (rule run_steps_exit)

lemma exit_zero_started:
  "snd (run_steps ok (steps f)) = ExitZero \<Longrightarrow> StartManager \<in> set (fst (run_steps ok (steps f)))"
  using run_steps_exit run_steps_all start_last(1,2) by (metis fst_conv last_in_set)

lemma metrics_once: "count_list (fst (run_steps ok (steps f))) RegisterMetrics \<le> 1"
proof -
  obtain n where n: "fst (run_steps ok (steps f)) = take n (steps f)" using run_steps_prefix by blast
  have s: "steps f = RegisterMetrics # tl (steps f)" using start_last(1) metrics_first(1) by (metis list.collapse)
  have "RegisterMetrics \<notin> set (take m (tl (steps f)))" for m using metrics_first(2) by (meson in_set_takeD)
  then have "count_list (take n (RegisterMetrics # tl (steps f))) RegisterMetrics \<le> 1"
    by (cases n) (simp_all add: count_list_0_iff)
  then show ?thesis unfolding n by (simp only: s [symmetric])
qed

end

interpretation agent_startup: startup agent_steps
  by unfold_locales (simp_all add: agent_steps_def)

interpretation controller_startup: startup controller_steps
  by unfold_locales (simp_all add: controller_steps_def)

interpretation webhook_startup: startup webhook_steps
  by unfold_locales (simp_all add: webhook_steps_def)

section \<open>The processes\<close>

text \<open>
  C22. The agent starts its manager exactly when it knows the name of its node and each of the
  following succeeded: creating the manager, without leader election and with a pod cache restricted
  to that node, indexing the pods by their node, creating the client, adding the agent to the manager,
  and adding the two health checks. The process ends with exit code 0 exactly when it started the
  manager and that too returned without an error. When it starts the manager, this is its last step,
  no step was taken twice, there is one manager, and exactly one runnable was added to it: the agent,
  whose options are the flags and whose node is the one of the pod cache.
\<close>
theorem agent_main_starts:
  "let f = parse (agent_flag_defaults getenv); opts = agent_options_of f;
       steps = fst (agent_main ok parse getenv); exit = snd (agent_main ok parse getenv);
       manager = \<lparr>mo_metrics = af_metrics f, mo_probe = af_probe f, mo_leader_election = False, mo_election_id = [],
         mo_pod_field = Some (''spec.nodeName'', op_node opts), mo_webhook = None\<rparr>
   in (StartManager \<in> set steps \<longleftrightarrow>
         op_node opts \<noteq> [] \<and> ok (CreateManager manager) \<and> ok (IndexPods ''spec.nodeName'') \<and> ok CreateClient \<and>
         ok (AddRunnable (AgentRunnable opts)) \<and> ok HealthzCheck \<and> ok ReadyzCheck) \<and>
      (exit = ExitZero \<longleftrightarrow> StartManager \<in> set steps \<and> ok StartManager) \<and>
      (StartManager \<in> set steps \<longrightarrow>
         last steps = StartManager \<and> distinct steps \<and>
         {mo. CreateManager mo \<in> set steps} = {manager} \<and> {r. AddRunnable r \<in> set steps} = {AgentRunnable opts}) \<and>
      op_node opts = af_node f \<and> op_interval opts = af_interval f \<and> op_enforce opts = af_enforce f \<and>
      op_cgroup_root opts = af_cgroup_root f \<and> op_sysnode opts = af_sysnode f \<and> op_endpoint opts = af_endpoint f \<and>
      op_fanout opts = af_fanout f \<and> op_estimate opts = af_estimate f"
proof -
  define f where "f = parse (agent_flag_defaults getenv)"
  show ?thesis
  proof (cases "af_node f = []")
    case True
    then have "agent_main ok parse getenv = ([], ExitOne)" by (simp add: agent_main_def f_def)
    then show ?thesis using True by (simp add: f_def [symmetric] agent_options_of_def Let_def)
  next
    case False
    then have m: "agent_main ok parse getenv = run_steps ok (agent_steps f)" by (simp add: agent_main_def f_def Let_def)
    have starts: "StartManager \<in> set (fst (run_steps ok (agent_steps f))) \<longleftrightarrow> list_all (proceeds ok) (butlast (agent_steps f))"
      by (rule agent_startup.manager_starts)
    have "fst (run_steps ok (agent_steps f)) = agent_steps f" if "list_all (proceeds ok) (butlast (agent_steps f))"
      using run_steps_before_last [OF that agent_startup.start_last(1)] .
    then show ?thesis
      using starts agent_startup.exit_zero [of ok f] False
      by (auto simp: Let_def f_def [symmetric] m agent_options_of_def agent_steps_def)
  qed
qed

theorem agent_main_starts_witness:
  "let steps = fst (agent_main (\<lambda>s. True) (\<lambda>f. f) (\<lambda>v. ''n1''))
   in StartManager \<in> set steps \<and> last steps = StartManager \<and>
      {r. AddRunnable r \<in> set steps} = {AgentRunnable (agent_options_of (agent_flag_defaults (\<lambda>v. ''n1'')))}"
proof -
  have "op_node (agent_options_of (agent_flag_defaults (\<lambda>v. ''n1''))) \<noteq> []"
    by (simp add: agent_options_of_def agent_flag_defaults_def)
  then show ?thesis
    using agent_main_starts [of "\<lambda>f. f" "\<lambda>v. ''n1''" "\<lambda>s. True"] by (simp add: Let_def)
qed

text \<open>
  A controller whose process gets to its manager has one server, one expiry and the bootstrap added
  to it, in this order, and its controllers have different names; discovery is there when asked for.
\<close>

lemma controller_main_sets_up:
  assumes "controller_main ok parse = (steps, ExitZero)"
  shows "let f = parse controller_flag_defaults
    in filter (\<lambda>s. \<exists>r. s = AddRunnable r) steps
         = map AddRunnable [UsageServer (cf_usage f), UsageCollector (go_div (cf_retention f) 4), PolicyBootstrap] \<and>
       (SetupDiscovery discovery_Setup (splitAndTrim (cf_skip f)) \<in> set steps \<longleftrightarrow> cf_discover f)"
proof -
  have "steps = controller_steps (parse controller_flag_defaults)"
    using assms run_steps_all run_steps_exit unfolding controller_main_def by (metis prod.sel)
  then show ?thesis by (simp add: Let_def controller_steps_def)
qed

section \<open>The skipped namespaces\<close>

definition clean_name :: "string \<Rightarrow> bool" where
  "clean_name n \<longleftrightarrow> n \<noteq> [] \<and> CHR '','' \<notin> set n \<and> trim_space n = n"

definition padded :: "string \<times> string \<times> string \<Rightarrow> string" where
  "padded p = fst p @ fst (snd p) @ snd (snd p)"

text \<open>
  C35. The flag's list reads back as the names it was written from, whatever white space stands
  around them, and discovery then creates no profile in any of these namespaces, whatever the
  API server answers.
\<close>
theorem splitAndTrim_skips:
  assumes "\<forall>p \<in> set ps. list_all is_space (fst p) \<and> list_all is_space (snd (snd p)) \<and> clean_name (fst (snd p))" "ps \<noteq> []"
  shows "splitAndTrim (join_on CHR '','' (map padded ps)) = map (\<lambda>p. fst (snd p)) ps \<and>
    list_all (\<lambda>ns. discovery_Reconcile (splitAndTrim (join_on CHR '','' (map padded ps))) ns get_deploy get_wp created
      = (Done, None)) (map (\<lambda>p. fst (snd p)) ps)"
proof -
  have comma: "\<not> is_space CHR '',''" by (simp add: is_space_def)
  have "CHR '','' \<notin> set (padded p)" if "p \<in> set ps" for p
    using assms(1) that comma by (auto simp: padded_def clean_name_def list_all_iff)
  then have "split_on CHR '','' (join_on CHR '','' (map padded ps)) = map padded ps"
    using assms(2) by (intro split_on_join) auto
  moreover have "trim_space (padded p) = fst (snd p)" if "p \<in> set ps" for p
    using assms(1) that by (auto simp: padded_def clean_name_def list_all_iff trim_space_pad)
  ultimately have "splitAndTrim (join_on CHR '','' (map padded ps)) = filter (\<lambda>n. n \<noteq> []) (map (\<lambda>p. fst (snd p)) ps)"
    unfolding splitAndTrim_def by (simp add: comp_def cong: map_cong)
  also have "\<dots> = map (\<lambda>p. fst (snd p)) ps" using assms(1) by (auto simp: clean_name_def intro!: filter_True)
  finally have s: "splitAndTrim (join_on CHR '','' (map padded ps)) = map (\<lambda>p. fst (snd p)) ps" .
  show ?thesis unfolding s by (auto simp: discovery_Reconcile_def list_all_iff list_ex_iff)
qed

theorem splitAndTrim_skips_witness:
  "splitAndTrim ''kube-system, kqos-system'' = [''kube-system'', ''kqos-system''] \<and>
   fst (discovery_Reconcile (splitAndTrim ''kube-system, kqos-system'') ''kqos-system''
     (Inl NotFound) (Inl NotFound :: api_error + rat workload_profile) None) = Done"
proof -
  let ?ps = "[([], ''kube-system'', []), ('' '', ''kqos-system'', [])]"
  have a: "\<forall>p \<in> set ?ps. list_all is_space (fst p) \<and> list_all is_space (snd (snd p)) \<and> clean_name (fst (snd p))"
    by (simp add: clean_name_def trim_space_def trim_left_def is_space_def)
  have j: "join_on CHR '','' (map padded ?ps) = ''kube-system, kqos-system''" by (simp add: padded_def)
  have s: "splitAndTrim ''kube-system, kqos-system'' = [''kube-system'', ''kqos-system'']"
    and d: "discovery_Reconcile (splitAndTrim ''kube-system, kqos-system'') ''kqos-system''
      (Inl NotFound) (Inl NotFound :: api_error + rat workload_profile) None = (Done, None)"
    using splitAndTrim_skips [OF a, of "Inl NotFound" "Inl NotFound :: api_error + rat workload_profile" None]
    unfolding j by auto
  show ?thesis unfolding d using s by simp
qed

lemma default_skips:
  "splitAndTrim (cf_skip controller_flag_defaults)
     = [''kube-system'', ''kube-public'', ''kube-node-lease'', ''local-path-storage'', ''kqos-system'']"
  by code_simp

end
