(* ===== verification/Spec2Isabelle.thy ===== *)
theory Spec2Isabelle
  imports CPUPool Sysadvisor Eviction Webhook Policy Usage Workload_Profile Cluster Deep_Copy Instrumentation Entry_Points
begin

text \<open>
  kqos: a colocation control plane for Kubernetes nodes.

  \<^bold>\<open>The program.\<close> kqos sells the capacity that latency-sensitive pods reserve but do not use. A node
  agent samples cgroups, derives how much CPU and memory can be resold, enforces the tiers in cgroups,
  writes the figures into a \<^verbatim>\<open>NodeResourceProfile\<close> and evicts pods when the promise cannot be kept. An
  admission webhook puts every pod in one of four tiers and turns the requests of reclaimed pods into
  extended resources. Controllers copy a node's reclaimable figures onto the Node object, roll them up
  into the \<^verbatim>\<open>QoSPolicy\<close>, and profile workloads from the usage the agents report. The parts meet in data:
  the pod's level (\<^verbatim>\<open>qos.LevelOf\<close>) decides what the webhook, the collector, the pools, the advisor and
  the eviction manager do with it; the advisor's recommendation is what the agent reports, and the
  report is what the overcommit controller advertises.

  \<^bold>\<open>Theories\<close>, each over those before it, with the files under \<^verbatim>\<open>src/pkg\<close> they model:

  \<^item> \<^verbatim>\<open>KQ_Prelude\<close>: Go's fixed-width integers written out on \<open>int\<close> (\<open>i64\<close>, \<open>i32\<close>, \<open>u64\<close>), truncating
    division, times and durations in nanoseconds with saturating subtraction, \<open>take_last\<close>, and the
    locales \<open>transition_system\<close> and \<open>refined_system\<close> that the stateful components interpret.
  \<^item> \<^verbatim>\<open>Go_Float\<close>: \<^verbatim>\<open>float64\<close> as rationals with an explicit round-to-nearest-even \<open>fl\<close>; monotonicity and
    error of rounding, and the conversions. Infinities, NaN and subnormals are outside it.
  \<^item> \<^verbatim>\<open>Go_Strings\<close>, \<^verbatim>\<open>Go_Sort\<close>: the string functions used, number printing and parsing, and
    \<^verbatim>\<open>sort.Slice\<close> as an unknown permutation with a law (\<open>slice_sort_law\<close>), of which insertion sort is an
    instance.
  \<^item> \<^verbatim>\<open>CPUSet\<close> (\<^verbatim>\<open>cpuset/cpuset.go\<close>): CPU lists, their kernel syntax, set algebra and selection; parsing
    is inverse to printing, and runs for ever exactly on a string with a range that ends at the largest
    \<^verbatim>\<open>int\<close> after parts that are all well-formed.
  \<^item> \<^verbatim>\<open>V1alpha1\<close>, \<^verbatim>\<open>QoS\<close> (\<^verbatim>\<open>apis/kqos/v1alpha1\<close>, \<^verbatim>\<open>qos/qos.go\<close>): levels, quantities, policy sections, pods;
    classification and effective requests.
  \<^item> \<^verbatim>\<open>Order_Statistics\<close>, \<^verbatim>\<open>Window\<close> (\<^verbatim>\<open>agent/sysadvisor/window.go\<close>): the nearest rank is exact in floats for
    the percentiles used; the ring buffer refines the list of everything pushed.
  \<^item> \<^verbatim>\<open>Cgroup\<close>, \<^verbatim>\<open>Resolver\<close> (\<^verbatim>\<open>agent/cgroup\<close>): readers and writers over an explicit file system that
    records every write made to it, path confinement, and the breadth-first search for a pod's cgroup.
  \<^item> \<^verbatim>\<open>Collector\<close> (\<^verbatim>\<open>agent/collector\<close>): counters to rates, sampling, the degraded estimate, totals per level.
  \<^item> \<^verbatim>\<open>Sysadvisor\<close> (\<^verbatim>\<open>agent/sysadvisor/advisor.go\<close>): observation, the offer, damping, pressure, revision.
  \<^item> \<^verbatim>\<open>CPUPool\<close> (\<^verbatim>\<open>agent/cpupool\<close>): topology, the pool layout and its reconciliation into cgroups.
  \<^item> \<^verbatim>\<open>Eviction_Plugins\<close>, \<^verbatim>\<open>Eviction\<close> (\<^verbatim>\<open>agent/eviction\<close>): the three plugins behind the locale
    \<open>eviction_plugin\<close>, and the manager's pass with its gates, vetoes, token bucket and effects; rate,
    spacing and waiting are invariants over histories that record every pass.
  \<^item> \<^verbatim>\<open>Webhook\<close> (\<^verbatim>\<open>webhook/pod.go\<close>): level, validation and rewriting of an admitted pod.
  \<^item> \<^verbatim>\<open>Node_Profile\<close>, \<^verbatim>\<open>Overcommit\<close> (\<^verbatim>\<open>controller/overcommit\<close>), \<^verbatim>\<open>Policy\<close> (\<^verbatim>\<open>controller/policy\<close>): profiles
    and conditions, what a node advertises, the cluster rollup.
  \<^item> \<^verbatim>\<open>Usage\<close> (\<^verbatim>\<open>usage\<close>): the store of samples as a refinement of the log of everything accepted, the
    ingestion endpoint, the publisher's fan-out with the list of requests it sent.
  \<^item> \<^verbatim>\<open>Workload_Profile\<close> (\<^verbatim>\<open>controller/profile\<close>): recommendations, owners, discovery.
  \<^item> \<^verbatim>\<open>Agent\<close> (\<^verbatim>\<open>agent/agent.go\<close>, \<^verbatim>\<open>agent/report.go\<close>): construction, policy, and one tick composed of the
    components above; the reachable agents are an inductive predicate, and the properties that span
    components are proved of every tick of a reachable agent.
  \<^item> \<^verbatim>\<open>Cluster\<close>: one node over time, its agent, profile, controller and Node object as a step relation in
    which ticks, restarts, cache updates, reconciliations, lost writes and the clock interleave freely;
    the advertised amounts stay within the reclaim caps, and are withdrawn when the agent falls silent.
  \<^item> \<^verbatim>\<open>Metrics\<close>, \<^verbatim>\<open>Instrumentation\<close> (\<^verbatim>\<open>metrics/metrics.go\<close> and the uses of it in every package): the
    exported series, and the updates each operation makes to them, as functions of what the models of
    the operations return; every update fits its collector, and the gauges and the eviction counters
    say what happened.
  \<^item> \<^verbatim>\<open>Entry_Points\<close> (\<^verbatim>\<open>cmd\<close>, \<^verbatim>\<open>usage/runnable.go\<close>, the controllers' \<^verbatim>\<open>SetupWithManager\<close>): the three programs as
    sequences of steps that may fail, behind the locale \<open>startup\<close>; what has to succeed before a manager
    starts, and what is then set up.
  \<^item> \<^verbatim>\<open>Go_Heap\<close>, \<^verbatim>\<open>Deep_Copy\<close> (\<^verbatim>\<open>apis/kqos/v1alpha1/zz_generated.deepcopy.go\<close>): values with pointers, slices and
    maps on an explicit heap, and the generated copy of each API type against the descriptor of the
    type. The other theories treat API objects as values; the locale \<open>deep_copy\<close> and its instances show
    that the copies the code takes before it changes an object make that right.

  \<^bold>\<open>What is shown.\<close> The lemmas of each theory establish, in the order of the code: an invariant that
  every operation keeps (\<open>advisor_inv\<close>, \<open>store_wf\<close>, \<open>window_inv\<close>, \<open>agent_inv\<close>, the histories of \<^verbatim>\<open>Eviction\<close>),
  what the operation computes on each branch, and the contract built from the two. The advisor's contract
  is \<open>offer_safe\<close>: an offer fits beside protected use and headroom inside the target, stays under the cap
  and is withdrawn under critical pressure; the agent's theorems carry it to every status a reachable
  agent writes, and the overcommit theorems to what the node then advertises. The eviction contract is
  \<open>run_adds\<close>: which pods a pass may call the eviction API for; the agent's theorem carries it to a whole
  tick. The webhook's contract is \<open>admissible\<close> with a rewriting that the collector,
  the advisor and the usage report read back. The window and the store are refinements of the list of
  everything they were given; the parser, the cgroup files and the rewriting have round trips.
  Each property with a hypothesis is followed by a theorem that applies it at a concrete input.

  \<^bold>\<open>State and effects.\<close> A struct is a record with the source's fields, a method that changes it returns
  the new record. What a call reads from outside (the API server, files, the clock, DNS, a peer) is an
  argument, what it does to the outside is part of its result, so an error path is a branch of the
  definition. The clock is read once per handler. A Go map is a partial function where it is only looked
  up, an association list where it is enumerated, always with a result that does not depend on the order.

  \<^bold>\<open>Bounds.\<close> The only loops that are not structural are \<^verbatim>\<open>add_range\<close> of the CPU list parser, which may
  run forever and is therefore a \<^theory_text>\<open>partial_function\<close> into options whose \<open>None\<close> is proved to be exactly
  the range up to the largest \<^verbatim>\<open>int\<close>, the resolver's search, which terminates on a measure of its queue
  and depth bound, and the unit loop of \<^verbatim>\<open>humanBytes\<close>, which divides. Hypotheses on sizes (an allocatable
  amount below \<open>max_alloc\<close>, sums inside \<^verbatim>\<open>int64\<close>) are the ranges inside which no product of the code wraps
  around.

  \<^bold>\<open>Parameters.\<close> \<^verbatim>\<open>resource.Quantity\<close> is a record of operations with the laws its documentation states
  (\<open>quantity_laws\<close>), exact rationals being the instance of the witnesses. JSON encoding and decoding, URL
  and address functions, \<^verbatim>\<open>fmt.Sscanf\<close>, label selectors and \<^verbatim>\<open>metav1.GetControllerOf\<close> are arguments
  without laws. The deep copies of the library's own types are arguments whose law is that they are deep
  copies (\<open>external_copies\<close>), registering a collector is one whose law is that it refuses a name it has
  (\<open>registry_contract\<close>), and parsing the command line and the success of a set-up step are arguments
  without laws.

  \<^bold>\<open>Not modelled.\<close> Logging and the durations the two histograms observe; the inside of the manager
  runtime (leader election, and what it does with \<^verbatim>\<open>NeedLeaderElection\<close>, included), of the HTTP server
  and of the tickers, which decide when the modelled functions run, not what they compute; the text of
  error messages beyond what a caller reads back. Mutexes only serialise the operations, which are atomic
  here. Getters that return a field (\<^verbatim>\<open>Root\<close>, \<^verbatim>\<open>Topology\<close>, \<^verbatim>\<open>Pools\<close>, \<^verbatim>\<open>Config\<close>) are the record's fields. In
  \<^verbatim>\<open>Go_Heap\<close> a map is copied in the order of its cell, as the addresses a copy gets are not observable,
  and a fresh slice or variable is filled before it is stored rather than after.
\<close>

end
